(* ===== verification/Prelude.thy ===== *)
theory Prelude
  imports Main "HOL-Library.Word"
begin

text \<open>
  Shared vocabulary of the development.  The machine integers of the kernel are
  words of their width, a fallible operation of the source returns a value of the
  sum type \<open>('e, 'a) result\<close> (left the error, right the value), and an
  operation that may panic returns an option.  The bit operations of the Rust
  standard library the sources use (\<open>count_ones\<close>, \<open>trailing_zeros\<close>,
  \<open>div_ceil\<close>, checked and saturating arithmetic, conversion from bytes) are
  defined here once, with the lemmas the components share.
\<close>

unbundle bit_operations_syntax

type_synonym u8 = "8 word"
type_synonym u16 = "16 word"
type_synonym u32 = "32 word"
type_synonym u64 = "64 word"
type_synonym ('e, 'a) result = "'e + 'a"

abbreviation Err :: "'e \<Rightarrow> ('e, 'a) result" where
  "Err \<equiv> Inl"

abbreviation Ok :: "'a \<Rightarrow> ('e, 'a) result" where
  "Ok \<equiv> Inr"

named_theorems bit_facts "bit-level characterisations of the word operations of the model"
named_theorems inv_intros "operations of a component keep its invariant"

subsection \<open>Operations of the standard library\<close>

definition usize_max :: nat where
  "usize_max = 2 ^ 64 - 1"

definition checked_sub :: "nat \<Rightarrow> nat \<Rightarrow> nat option" where
  "checked_sub a b = (if b \<le> a then Some (a - b) else None)"

definition checked_add :: "nat \<Rightarrow> nat \<Rightarrow> nat option" where
  "checked_add a b = (if a + b \<le> usize_max then Some (a + b) else None)"

definition div_ceil :: "nat \<Rightarrow> nat \<Rightarrow> nat" where
  "div_ceil a b = a div b + (if a mod b = 0 then 0 else 1)"

definition count_ones :: "'a::len word \<Rightarrow> nat" where
  "count_ones w = length (filter (bit w) [0..<LENGTH('a)])"

definition trailing_zeros :: "'a::len word \<Rightarrow> nat" where
  "trailing_zeros w = length (takeWhile (\<lambda>n. \<not> bit w n) [0..<LENGTH('a)])"

definition low_ones :: "nat \<Rightarrow> 'a::len word" where
  "low_ones n = push_bit n 1 - 1"

fun of_le_bytes :: "u8 list \<Rightarrow> 'a::len word" where
  "of_le_bytes [] = 0"
| "of_le_bytes (b # bs) = ucast b OR push_bit 8 (of_le_bytes bs)"

definition of_be_bytes :: "u8 list \<Rightarrow> 'a::len word" where
  "of_be_bytes bs = of_le_bytes (rev bs)"

subsection \<open>Words\<close>

lemma low_ones_mask: "low_ones n = (mask n :: 'a::len word)"
  by (simp add: low_ones_def mask_eq_decr_exp)

lemma bit_low_ones [bit_facts]:
  "bit (low_ones n :: 'a::len word) k \<longleftrightarrow> k < LENGTH('a) \<and> k < n"
  by (auto simp: low_ones_mask bit_mask_iff)

lemma and_single_bit [bit_facts]:
  "(w::'a::len word) AND push_bit n 1 \<noteq> 0 \<longleftrightarrow> bit w n"
  by (simp add: bit_iff_and_push_bit_not_eq_0)

lemma bit_word_0_iff: "(w::'a::len word) = 0 \<longleftrightarrow> (\<forall>n<LENGTH('a). \<not> bit w n)"
  using bit_word_eqI [of w 0] by auto

lemma count_ones_card: "count_ones (w::'a::len word) = card {n. bit w n}"
proof -
  have "count_ones w = card (set (filter (bit w) [0..<LENGTH('a)]))"
    unfolding count_ones_def by (rule distinct_card [symmetric]) simp
  also have "set (filter (bit w) [0..<LENGTH('a)]) = {n. bit w n}"
    using bit_imp_le_length [of w] by auto
  finally show ?thesis .
qed

lemma find_upt_Some_iff:
  "List.find P [a..<b] = Some i \<longleftrightarrow> a \<le> i \<and> i < b \<and> P i \<and> (\<forall>j. a \<le> j \<longrightarrow> j < i \<longrightarrow> \<not> P j)"
proof (induction "b - a" arbitrary: a)
  case 0
  then show ?case by auto
next
  case (Suc n)
  then have "[a..<b] = a # [Suc a..<b]" by (simp add: upt_conv_Cons)
  moreover have "n = b - Suc a" using Suc.hyps(2) by simp
  note Suc.hyps(1) [OF this]
  ultimately show ?case
    using Suc.hyps(2) by (auto simp: Suc_le_eq order_le_less dest: not_less_less_Suc_eq)
qed

lemma find_upt_None_iff:
  "List.find P [a..<b] = None \<longleftrightarrow> (\<forall>i. a \<le> i \<longrightarrow> i < b \<longrightarrow> \<not> P i)"
  by (auto simp: find_None_iff)

lemma upt_split: "a \<le> b \<Longrightarrow> b \<le> c \<Longrightarrow> [a..<c] = [a..<b] @ [b..<c]"
  by (metis le_Suc_ex upt_add_eq_append)

lemma find_append:
  "List.find P (xs @ ys) = (case List.find P xs of None \<Rightarrow> List.find P ys | Some i \<Rightarrow> Some i)"
  by (induction xs) auto

lemma find_cong_set:
  assumes "\<And>x. x \<in> set xs \<Longrightarrow> P x = Q x"
  shows "List.find P xs = List.find Q xs"
  using assms by (induction xs) auto

lemma takeWhile_upt_find:
  assumes "\<exists>i<n. P i"
  shows "List.find P [0..<n] = Some (length (takeWhile (\<lambda>i. \<not> P i) [0..<n]))"
proof -
  let ?l = "length (takeWhile (\<lambda>i. \<not> P i) [0..<n])"
  have l: "?l < n"
  proof (rule ccontr)
    assume "\<not> ?l < n"
    then have "takeWhile (\<lambda>i. \<not> P i) [0..<n] = [0..<n]"
      using length_takeWhile_le [of "\<lambda>i. \<not> P i" "[0..<n]"]
      by (metis length_upt diff_zero le_antisym linorder_not_less takeWhile_eq_take take_all)
    then show False using assms by (auto simp: takeWhile_eq_all_conv)
  qed
  have "P ?l" using nth_length_takeWhile [of "\<lambda>i. \<not> P i" "[0..<n]"] l by simp
  moreover have "\<not> P j" if "j < ?l" for j
    using that takeWhile_nth [of j "\<lambda>i. \<not> P i" "[0..<n]"]
      nth_mem [of j "takeWhile (\<lambda>i. \<not> P i) [0..<n]"]
      set_takeWhileD [of j "\<lambda>i. \<not> P i" "[0..<n]"] l
    by simp
  ultimately show ?thesis using l by (simp add: find_upt_Some_iff)
qed

lemma trailing_zeros_find:
  assumes "(w::'a::len word) \<noteq> 0"
  shows "List.find (bit w) [0..<LENGTH('a)] = Some (trailing_zeros w)"
  unfolding trailing_zeros_def using assms
  by (intro takeWhile_upt_find) (auto simp: bit_word_0_iff)

lemma bit_of_le_bytes [bit_facts]:
  "bit (of_le_bytes bs :: 'a::len word) n \<longleftrightarrow>
     n < LENGTH('a) \<and> n < 8 * length bs \<and> bit (bs ! (n div 8)) (n mod 8)"
proof (induction bs arbitrary: n)
  case Nil
  then show ?case by simp
next
  case (Cons b bs)
  show ?case
  proof (cases "n < 8")
    case True
    then show ?thesis
      by (auto simp: bit_or_iff bit_push_bit_iff bit_unsigned_iff dest: bit_imp_le_length)
  next
    case False
    then obtain m where m: "n = 8 + m" using le_Suc_ex by (metis not_less)
    have "(8 + m) div 8 = Suc (m div 8)" by simp
    moreover have "\<not> bit b n" using False bit_imp_le_length [of b n] by auto
    ultimately show ?thesis
      using Cons.IH [of m] by (auto simp del: div_add_self1 simp: m bit_or_iff bit_push_bit_iff bit_unsigned_iff)
  qed
qed

lemma div_ceil_le_iff:
  assumes "0 < b"
  shows "div_ceil a b \<le> n \<longleftrightarrow> a \<le> n * b"
proof -
  have a: "a = a div b * b + a mod b" by simp
  show ?thesis
  proof (cases "a mod b = 0")
    case True
    then show ?thesis using assms a
      by (metis add.right_neutral div_ceil_def div_le_mono div_mult_self_is_m mult_le_mono1
          nonzero_mult_div_cancel_right not_gr_zero)
  next
    case False
    have "a \<le> n * b \<longleftrightarrow> a div b < n"
      using False assms
      by (metis div_less_iff_less_mult le_neq_implies_less less_imp_le_nat mod_mult_self2_is_0)
    then show ?thesis using False by (simp add: div_ceil_def Suc_le_eq)
  qed
qed

lemma and_not_mask: "(x::'a::len word) AND NOT (mask n) = push_bit n (drop_bit n x)"
  by (rule bit_word_eqI)
    (auto simp: bit_and_iff bit_not_iff bit_mask_iff bit_push_bit_iff bit_drop_bit_eq possible_bit_word)

lemma unat_and_not_mask: "unat ((x::'a::len word) AND NOT (mask n)) = unat x div 2 ^ n * 2 ^ n"
proof -
  have "unat x div 2 ^ n * 2 ^ n \<le> unat x" by simp
  also have "\<dots> < 2 ^ LENGTH('a)" by (rule unsigned_less)
  finally show ?thesis
    unfolding and_not_mask unsigned_push_bit_eq unsigned_drop_bit_eq
    by (simp add: push_bit_eq_mult drop_bit_eq_div take_bit_nat_eq_self)
qed

lemma and_mask_eq_0_iff: "(x::'a::len word) AND mask n = 0 \<longleftrightarrow> 2 ^ n dvd unat x"
proof -
  have "unat (x AND mask n) = unat x mod 2 ^ n"
    by (simp add: unsigned_and_eq unsigned_take_bit_eq flip: take_bit_eq_mask take_bit_eq_mod)
  then show ?thesis by (metis dvd_eq_mod_eq_0 unsigned_0 unat_eq_zero)
qed

lemma interval_bounds:
  "(a::nat) < b \<Longrightarrow> {a..<b} \<subseteq> S \<Longrightarrow> S \<subseteq> {lo..<hi} \<Longrightarrow> lo \<le> a \<and> b \<le> hi"
  by (metis atLeastLessThan_subset_iff not_le subset_trans)

lemma sum_list_card_Union:
  assumes "distinct (map fst m)"
    and "\<And>j v k w. (j, v) \<in> set m \<Longrightarrow> (k, w) \<in> set m \<Longrightarrow> j \<noteq> k \<Longrightarrow> g v \<inter> g w = {}"
    and "\<And>k v. (k, v) \<in> set m \<Longrightarrow> finite (g v)"
  shows "sum_list (map (\<lambda>(k, v). card (g v)) m) = card (\<Union>(k, v)\<in>set m. g v)"
  using assms
proof (induction m)
  case (Cons p m)
  obtain k v where p: "p = (k, v)" by force
  have IH: "sum_list (map (\<lambda>(k, v). card (g v)) m) = card (\<Union>(k, v)\<in>set m. g v)"
  proof (rule Cons.IH)
    show "distinct (map fst m)" using Cons.prems(1) by simp
    show "g v \<inter> g w = {}" if "(j, v) \<in> set m" "(k, w) \<in> set m" "j \<noteq> k" for j v k w
      using that by (intro Cons.prems(2) [of j v k w]) auto
    show "finite (g v)" if "(k, v) \<in> set m" for k v using that by (intro Cons.prems(3)) auto
  qed
  have "g v \<inter> g w = {}" if "(j, w) \<in> set m" for j w
    using Cons.prems(1) Cons.prems(2) [of k v j w] that by (force simp: p)
  then have "g v \<inter> (\<Union>(k, v)\<in>set m. g v) = {}" by auto
  moreover have "finite (\<Union>(k, v)\<in>set m. g v)" "finite (g v)" using Cons.prems(3) by (auto simp: p)
  ultimately show ?case using IH by (simp add: p card_Un_disjoint)
qed simp

lemma round_down_eq_iff:
  assumes "(d::nat) dvd b" "0 < d"
  shows "i div d * d = b \<longleftrightarrow> b \<le> i \<and> i < b + d"
proof
  assume "i div d * d = b"
  then show "b \<le> i \<and> i < b + d" using dividend_less_div_times [OF assms(2), of i] by auto
next
  assume h: "b \<le> i \<and> i < b + d"
  obtain k where k: "b = d * k" using assms(1) by (auto simp: dvd_def)
  then have "i div d = k" using h by (intro div_nat_eqI) (auto simp: mult.commute)
  then show "i div d * d = b" by (simp add: k)
qed

lemma unat_add_small:
  "unat (a::'a::len word) + unat b < 2 ^ LENGTH('a) \<Longrightarrow> unat (a + b) = unat a + unat b"
  by (rule unat_add_lem [THEN iffD1])

lemma unat_of_nat_small: "n < 2 ^ LENGTH('a) \<Longrightarrow> unat (of_nat n :: 'a::len word) = n"
  by (simp add: unsigned_of_nat take_bit_nat_eq_self)

lemma unat_pow2: "n < LENGTH('a) \<Longrightarrow> unat (2 ^ n :: 'a::len word) = 2 ^ n"
  using unat_of_nat_small [of "2 ^ n", where 'a = 'a] by simp

lemma unat_mask_small: "n < LENGTH('a) \<Longrightarrow> unat (mask n :: 'a::len word) = 2 ^ n - 1"
proof -
  assume n: "n < LENGTH('a)"
  then have "unat (2 ^ n - 1 :: 'a word) = unat (2 ^ n :: 'a word) - 1"
    by (intro unat_minus_one) simp
  then show ?thesis by (simp add: mask_eq_decr_exp unat_pow2 n)
qed

end
