(* ===== verification/Bitmap.thy ===== *)
theory Bitmap
  imports Prelude
begin

text \<open>
  The crate \<open>athera-bitmap\<close> (crates/athera-bitmap/src/lib.rs): a fixed size bitmap over
  machine words, in an owned variant with a counter of the set bits (\<open>BitMap\<close>) and in
  a borrowed variant without one (\<open>BitMapView\<close>).  The word array is a list of 64 bit
  words whose length is the generic parameter \<open>WORDS\<close>; bit indices and counters are
  natural numbers, since every one the code forms is below the number of bits of the
  array.  A mutating method returns the new state; where it fails it returns before its first
  write, so the error carries no state.  \<open>None\<close> where a result is expected
  stands for a panic only in the operations of the view that compute \<open>bits - used\<close>.
\<close>

section \<open>Shared word-level operations\<close>

definition WORD_BITS :: nat where
  "WORD_BITS = 64"

datatype BitMapError = OutOfRange | AlreadySet | AlreadyFree | LengthMismatch | Misaligned

definition words_for :: "nat \<Rightarrow> nat" where
  "words_for bits = div_ceil bits WORD_BITS"

definition is_bit_set :: "u64 list \<Rightarrow> nat \<Rightarrow> bool" where
  "is_bit_set words index =
     ((words ! (index div WORD_BITS)) AND push_bit (index mod WORD_BITS) 1 \<noteq> 0)"

definition set_bit_in :: "u64 list \<Rightarrow> nat \<Rightarrow> u64 list" where
  "set_bit_in words index =
     words[index div WORD_BITS := (words ! (index div WORD_BITS)) OR push_bit (index mod WORD_BITS) 1]"

definition clear_bit_in :: "u64 list \<Rightarrow> nat \<Rightarrow> u64 list" where
  "clear_bit_in words index =
     words[index div WORD_BITS :=
       (words ! (index div WORD_BITS)) AND NOT (push_bit (index mod WORD_BITS) 1)]"

definition count_used :: "u64 list \<Rightarrow> nat" where
  "count_used words = sum_list (map count_ones words)"

definition scan_masked :: "u64 list \<Rightarrow> nat \<Rightarrow> bool \<Rightarrow> nat \<Rightarrow> u64 \<Rightarrow> u64" where
  "scan_masked words bits want_free word low_mask =
     (let w = words ! word;
          w = (if want_free then NOT (w OR low_mask) else w AND NOT low_mask)
      in if word = length words - 1 \<and> bits mod WORD_BITS \<noteq> 0
         then w AND low_ones (bits mod WORD_BITS) else w)"

text \<open>
  The loop of \<open>scan_words\<close>.  The word index starts at or below \<open>last\<close> and grows by one, so
  the test \<open>last \<le> word\<close> is the \<open>word == last\<close> of the code.
\<close>

function scan_loop :: "u64 list \<Rightarrow> nat \<Rightarrow> bool \<Rightarrow> nat \<Rightarrow> u64 \<Rightarrow> nat option" where
  "scan_loop words bits want_free word low_mask =
     (let w = scan_masked words bits want_free word low_mask
      in if w \<noteq> 0 then Some (word * WORD_BITS + trailing_zeros w)
         else if length words - 1 \<le> word then None
         else scan_loop words bits want_free (word + 1) 0)"
  by pat_completeness auto
termination by (relation "measure (\<lambda>(words, _, _, word, _). length words - word)") auto

declare scan_loop.simps [simp del]

definition scan_words :: "u64 list \<Rightarrow> nat \<Rightarrow> nat \<Rightarrow> bool \<Rightarrow> nat option" where
  "scan_words words bits start want_free =
     (if words = [] \<or> bits \<le> start then None
      else scan_loop words bits want_free (start div WORD_BITS) (low_ones (start mod WORD_BITS)))"

fun set_all :: "u64 list \<Rightarrow> nat list \<Rightarrow> u64 list" where
  "set_all words [] = words"
| "set_all words (j # js) = set_all (set_bit_in words j) js"

fun clear_all :: "u64 list \<Rightarrow> nat list \<Rightarrow> u64 list" where
  "clear_all words [] = words"
| "clear_all words (j # js) = clear_all (clear_bit_in words j) js"

fun alloc_range_loop :: "u64 list \<Rightarrow> nat \<Rightarrow> nat list \<Rightarrow> nat \<Rightarrow> nat \<Rightarrow> (nat \<times> u64 list) option" where
  "alloc_range_loop words n [] run_start run_len = None"
| "alloc_range_loop words n (i # is) run_start run_len =
     (if is_bit_set words i then alloc_range_loop words n is run_start 0
      else let run_start = (if run_len = 0 then i else run_start);
               run_len = run_len + 1
           in if run_len = n
              then Some (run_start, set_all words [run_start..<run_start + n])
              else alloc_range_loop words n is run_start run_len)"

definition alloc_range_in :: "u64 list \<Rightarrow> nat \<Rightarrow> nat \<Rightarrow> (nat \<times> u64 list) option" where
  "alloc_range_in words bits n =
     (if n = 0 then None else alloc_range_loop words n [0..<bits] 0 0)"

definition free_range_in :: "u64 list \<Rightarrow> nat \<Rightarrow> nat \<Rightarrow> nat \<Rightarrow> (BitMapError, u64 list) result" where
  "free_range_in words bits range_start range_end =
     (if range_end < range_start \<or> bits < range_end then Err OutOfRange
      else if list_ex (\<lambda>i. \<not> is_bit_set words i) [range_start..<range_end] then Err AlreadyFree
      else Ok (clear_all words [range_start..<range_end]))"

section \<open>The owned bitmap\<close>

record bitmap =
  bm_words :: "u64 list"
  bm_bits :: nat
  bm_used :: nat

definition bm_new :: "nat \<Rightarrow> bitmap" where
  "bm_new WORDS =
     \<lparr>bm_words = replicate WORDS 0, bm_bits = WORDS * WORD_BITS, bm_used = 0\<rparr>"

definition bm_new_with_capacity :: "nat \<Rightarrow> nat \<Rightarrow> bitmap option" where
  "bm_new_with_capacity WORDS bits =
     (if bits \<le> WORDS * WORD_BITS
      then Some \<lparr>bm_words = replicate WORDS 0, bm_bits = bits, bm_used = 0\<rparr> else None)"

definition bm_capacity :: "bitmap \<Rightarrow> nat" where
  "bm_capacity b = length (bm_words b) * WORD_BITS"

definition bm_available :: "bitmap \<Rightarrow> nat option" where
  "bm_available b = checked_sub (bm_bits b) (bm_used b)"

definition bm_is_full :: "bitmap \<Rightarrow> bool" where
  "bm_is_full b \<longleftrightarrow> bm_used b = bm_bits b"

definition bm_is_empty :: "bitmap \<Rightarrow> bool" where
  "bm_is_empty b \<longleftrightarrow> bm_used b = 0"

definition bm_contains :: "bitmap \<Rightarrow> nat \<Rightarrow> bool" where
  "bm_contains b index \<longleftrightarrow> index < bm_bits b"

definition bm_get :: "bitmap \<Rightarrow> nat \<Rightarrow> (BitMapError, bool) result" where
  "bm_get b index =
     (if \<not> bm_contains b index then Err OutOfRange else Ok (is_bit_set (bm_words b) index))"

definition bm_is_allocated :: "bitmap \<Rightarrow> nat \<Rightarrow> bool" where
  "bm_is_allocated b index \<longleftrightarrow> bm_contains b index \<and> is_bit_set (bm_words b) index"

definition bm_is_free :: "bitmap \<Rightarrow> nat \<Rightarrow> bool" where
  "bm_is_free b index \<longleftrightarrow> bm_contains b index \<and> \<not> bm_is_allocated b index"

definition bm_mark :: "bitmap \<Rightarrow> nat \<Rightarrow> bitmap" where
  "bm_mark b index =
     b\<lparr>bm_words := set_bit_in (bm_words b) index, bm_used := bm_used b + 1\<rparr>"

definition bm_unmark :: "bitmap \<Rightarrow> nat \<Rightarrow> bitmap" where
  "bm_unmark b index =
     b\<lparr>bm_words := clear_bit_in (bm_words b) index, bm_used := bm_used b - 1\<rparr>"

definition bm_set :: "bitmap \<Rightarrow> nat \<Rightarrow> (BitMapError, bitmap) result" where
  "bm_set b index =
     (if \<not> bm_contains b index then Err OutOfRange
      else if \<not> bm_is_allocated b index then Ok (bm_mark b index) else Ok b)"

definition bm_clear :: "bitmap \<Rightarrow> nat \<Rightarrow> (BitMapError, bitmap) result" where
  "bm_clear b index =
     (if \<not> bm_contains b index then Err OutOfRange
      else if bm_is_allocated b index then Ok (bm_unmark b index) else Ok b)"

definition bm_find_free_from :: "bitmap \<Rightarrow> nat \<Rightarrow> nat option" where
  "bm_find_free_from b start =
     (if bm_used b = bm_bits b then None else scan_words (bm_words b) (bm_bits b) start True)"

definition bm_find_free :: "bitmap \<Rightarrow> nat option" where
  "bm_find_free b = bm_find_free_from b 0"

definition bm_find_used_from :: "bitmap \<Rightarrow> nat \<Rightarrow> nat option" where
  "bm_find_used_from b start =
     (if bm_used b = 0 then None else scan_words (bm_words b) (bm_bits b) start False)"

definition bm_find_used :: "bitmap \<Rightarrow> nat option" where
  "bm_find_used b = bm_find_used_from b 0"

definition bm_alloc :: "bitmap \<Rightarrow> (nat \<times> bitmap) option" where
  "bm_alloc b = (case bm_find_free b of None \<Rightarrow> None | Some index \<Rightarrow> Some (index, bm_mark b index))"

definition bm_alloc_from :: "bitmap \<Rightarrow> nat \<Rightarrow> (nat \<times> bitmap) option" where
  "bm_alloc_from b start =
     (case bm_find_free_from b start of None \<Rightarrow> None | Some index \<Rightarrow> Some (index, bm_mark b index))"

definition bm_alloc_specific :: "bitmap \<Rightarrow> nat \<Rightarrow> (BitMapError, bitmap) result" where
  "bm_alloc_specific b index =
     (if \<not> bm_contains b index then Err OutOfRange
      else if bm_is_allocated b index then Err AlreadySet else Ok (bm_mark b index))"

definition bm_free :: "bitmap \<Rightarrow> nat \<Rightarrow> (BitMapError, bitmap) result" where
  "bm_free b index =
     (if \<not> bm_contains b index then Err OutOfRange
      else if \<not> bm_is_allocated b index then Err AlreadyFree else Ok (bm_unmark b index))"

definition bm_alloc_range :: "bitmap \<Rightarrow> nat \<Rightarrow> (nat \<times> bitmap) option option" where
  "bm_alloc_range b n =
     (if n = 0 then Some None
      else case bm_available b of None \<Rightarrow> None
         | Some free \<Rightarrow>
             if free < n then Some None
             else case alloc_range_in (bm_words b) (bm_bits b) n of None \<Rightarrow> Some None
                | Some (start, words) \<Rightarrow>
                    Some (Some (start, b\<lparr>bm_words := words, bm_used := bm_used b + n\<rparr>)))"

definition bm_free_range :: "bitmap \<Rightarrow> nat \<Rightarrow> nat \<Rightarrow> (BitMapError, bitmap) result" where
  "bm_free_range b range_start range_end =
     (case free_range_in (bm_words b) (bm_bits b) range_start range_end of
        Inl e \<Rightarrow> Err e
      | Inr words \<Rightarrow>
          Ok (b\<lparr>bm_words := words, bm_used := bm_used b - (range_end - range_start)\<rparr>))"

definition bm_reset :: "bitmap \<Rightarrow> bitmap" where
  "bm_reset b = b\<lparr>bm_words := map (\<lambda>_. 0) (bm_words b), bm_used := 0\<rparr>"

subsection \<open>Conversions\<close>

definition bm_from_words :: "u64 list \<Rightarrow> bitmap" where
  "bm_from_words words =
     \<lparr>bm_words = words, bm_bits = length words * WORD_BITS, bm_used = count_used words\<rparr>"

definition bm_try_from_words :: "nat \<Rightarrow> u64 list \<Rightarrow> (BitMapError, bitmap) result" where
  "bm_try_from_words WORDS words =
     (if WORDS < length words then Err LengthMismatch
      else Ok \<lparr>bm_words = words @ replicate (WORDS - length words) 0,
               bm_bits = length words * WORD_BITS, bm_used = count_used words\<rparr>)"

fun as_chunks :: "nat \<Rightarrow> u8 list \<Rightarrow> u8 list list" where
  "as_chunks 0 bytes = []"
| "as_chunks (Suc n) bytes = take 8 bytes # as_chunks n (drop 8 bytes)"

definition bm_try_from_bytes_with ::
  "nat \<Rightarrow> u8 list \<Rightarrow> (u8 list \<Rightarrow> u64) \<Rightarrow> (BitMapError, bitmap) result" where
  "bm_try_from_bytes_with WORDS bytes from_bytes =
     (if length bytes mod 8 \<noteq> 0 then Err LengthMismatch
      else let n = length bytes div 8
           in if WORDS < n then Err LengthMismatch
              else let out = map from_bytes (as_chunks n bytes) @ replicate (WORDS - n) 0
                   in Ok \<lparr>bm_words = out, bm_bits = n * WORD_BITS,
                          bm_used = count_used (take n out)\<rparr>)"

definition bm_try_from_le_bytes :: "nat \<Rightarrow> u8 list \<Rightarrow> (BitMapError, bitmap) result" where
  "bm_try_from_le_bytes WORDS bytes = bm_try_from_bytes_with WORDS bytes of_le_bytes"

definition bm_try_from_be_bytes :: "nat \<Rightarrow> u8 list \<Rightarrow> (BitMapError, bitmap) result" where
  "bm_try_from_be_bytes WORDS bytes = bm_try_from_bytes_with WORDS bytes of_be_bytes"

text \<open>The kernel's target (riscv64) is little-endian, so \<open>from_ne_bytes\<close> is \<open>from_le_bytes\<close>.\<close>

definition bm_try_from_bytes :: "nat \<Rightarrow> u8 list \<Rightarrow> (BitMapError, bitmap) result" where
  "bm_try_from_bytes WORDS bytes = bm_try_from_bytes_with WORDS bytes of_le_bytes"

section \<open>The borrowed view\<close>

record bitmap_view =
  bv_words :: "u64 list"
  bv_bits :: nat

definition bv_new :: "u64 list \<Rightarrow> bitmap_view" where
  "bv_new words = \<lparr>bv_words = words, bv_bits = length words * WORD_BITS\<rparr>"

definition bv_new_with_capacity :: "u64 list \<Rightarrow> nat \<Rightarrow> bitmap_view option" where
  "bv_new_with_capacity words bits =
     (if bits \<le> length words * WORD_BITS
      then Some \<lparr>bv_words = words, bv_bits = bits\<rparr> else None)"

text \<open>
  A byte buffer borrowed as a view: its address and its contents.  The words are the
  little-endian reading of the bytes, as the target reads them through the cast pointer.
\<close>

definition bv_try_from_bytes :: "nat \<Rightarrow> u8 list \<Rightarrow> (BitMapError, bitmap_view) result" where
  "bv_try_from_bytes addr bytes =
     (if length bytes mod 8 \<noteq> 0 then Err LengthMismatch
      else if addr mod 8 \<noteq> 0 then Err Misaligned
      else Ok \<lparr>bv_words = map of_le_bytes (as_chunks (length bytes div 8) bytes),
               bv_bits = length bytes div 8 * WORD_BITS\<rparr>)"

definition bv_used :: "bitmap_view \<Rightarrow> nat" where
  "bv_used v = count_used (bv_words v)"

definition bv_available :: "bitmap_view \<Rightarrow> nat option" where
  "bv_available v = checked_sub (bv_bits v) (bv_used v)"

definition bv_is_full :: "bitmap_view \<Rightarrow> bool" where
  "bv_is_full v \<longleftrightarrow> bv_used v = bv_bits v"

definition bv_is_empty :: "bitmap_view \<Rightarrow> bool" where
  "bv_is_empty v \<longleftrightarrow> bv_used v = 0"

definition bv_contains :: "bitmap_view \<Rightarrow> nat \<Rightarrow> bool" where
  "bv_contains v index \<longleftrightarrow> index < bv_bits v"

definition bv_get :: "bitmap_view \<Rightarrow> nat \<Rightarrow> (BitMapError, bool) result" where
  "bv_get v index =
     (if \<not> bv_contains v index then Err OutOfRange else Ok (is_bit_set (bv_words v) index))"

definition bv_is_allocated :: "bitmap_view \<Rightarrow> nat \<Rightarrow> bool" where
  "bv_is_allocated v index \<longleftrightarrow> bv_contains v index \<and> is_bit_set (bv_words v) index"

definition bv_is_free :: "bitmap_view \<Rightarrow> nat \<Rightarrow> bool" where
  "bv_is_free v index \<longleftrightarrow> bv_contains v index \<and> \<not> bv_is_allocated v index"

definition bv_mark :: "bitmap_view \<Rightarrow> nat \<Rightarrow> bitmap_view" where
  "bv_mark v index = v\<lparr>bv_words := set_bit_in (bv_words v) index\<rparr>"

definition bv_unmark :: "bitmap_view \<Rightarrow> nat \<Rightarrow> bitmap_view" where
  "bv_unmark v index = v\<lparr>bv_words := clear_bit_in (bv_words v) index\<rparr>"

definition bv_set :: "bitmap_view \<Rightarrow> nat \<Rightarrow> (BitMapError, bitmap_view) result" where
  "bv_set v index = (if \<not> bv_contains v index then Err OutOfRange else Ok (bv_mark v index))"

definition bv_clear :: "bitmap_view \<Rightarrow> nat \<Rightarrow> (BitMapError, bitmap_view) result" where
  "bv_clear v index = (if \<not> bv_contains v index then Err OutOfRange else Ok (bv_unmark v index))"

definition bv_find_free_from :: "bitmap_view \<Rightarrow> nat \<Rightarrow> nat option" where
  "bv_find_free_from v start = scan_words (bv_words v) (bv_bits v) start True"

definition bv_find_free :: "bitmap_view \<Rightarrow> nat option" where
  "bv_find_free v = bv_find_free_from v 0"

definition bv_find_used_from :: "bitmap_view \<Rightarrow> nat \<Rightarrow> nat option" where
  "bv_find_used_from v start = scan_words (bv_words v) (bv_bits v) start False"

definition bv_find_used :: "bitmap_view \<Rightarrow> nat option" where
  "bv_find_used v = bv_find_used_from v 0"

definition bv_alloc :: "bitmap_view \<Rightarrow> (nat \<times> bitmap_view) option" where
  "bv_alloc v = (case bv_find_free v of None \<Rightarrow> None | Some index \<Rightarrow> Some (index, bv_mark v index))"

definition bv_alloc_from :: "bitmap_view \<Rightarrow> nat \<Rightarrow> (nat \<times> bitmap_view) option" where
  "bv_alloc_from v start =
     (case bv_find_free_from v start of None \<Rightarrow> None | Some index \<Rightarrow> Some (index, bv_mark v index))"

definition bv_alloc_specific :: "bitmap_view \<Rightarrow> nat \<Rightarrow> (BitMapError, bitmap_view) result" where
  "bv_alloc_specific v index =
     (if \<not> bv_contains v index then Err OutOfRange
      else if bv_is_allocated v index then Err AlreadySet else Ok (bv_mark v index))"

definition bv_free :: "bitmap_view \<Rightarrow> nat \<Rightarrow> (BitMapError, bitmap_view) result" where
  "bv_free v index =
     (if \<not> bv_contains v index then Err OutOfRange
      else if \<not> bv_is_allocated v index then Err AlreadyFree else Ok (bv_unmark v index))"

definition bv_alloc_range :: "bitmap_view \<Rightarrow> nat \<Rightarrow> (nat \<times> bitmap_view) option option" where
  "bv_alloc_range v n =
     (if n = 0 then Some None
      else case bv_available v of None \<Rightarrow> None
         | Some free \<Rightarrow>
             if free < n then Some None
             else case alloc_range_in (bv_words v) (bv_bits v) n of None \<Rightarrow> Some None
                | Some (start, words) \<Rightarrow> Some (Some (start, v\<lparr>bv_words := words\<rparr>)))"

definition bv_free_range :: "bitmap_view \<Rightarrow> nat \<Rightarrow> nat \<Rightarrow> (BitMapError, bitmap_view) result" where
  "bv_free_range v range_start range_end =
     (case free_range_in (bv_words v) (bv_bits v) range_start range_end of
        Inl e \<Rightarrow> Err e
      | Inr words \<Rightarrow> Ok (v\<lparr>bv_words := words\<rparr>))"

definition bv_reset :: "bitmap_view \<Rightarrow> bitmap_view" where
  "bv_reset v = v\<lparr>bv_words := map (\<lambda>_. 0) (bv_words v)\<rparr>"

section \<open>The iterator\<close>

record bit_iter =
  it_words :: "u64 list"
  it_bits :: nat
  it_want_free :: bool
  it_next :: nat

definition bm_iter_used :: "bitmap \<Rightarrow> bit_iter" where
  "bm_iter_used b =
     \<lparr>it_words = bm_words b, it_bits = bm_bits b, it_want_free = False, it_next = 0\<rparr>"

definition bm_iter_free :: "bitmap \<Rightarrow> bit_iter" where
  "bm_iter_free b =
     \<lparr>it_words = bm_words b, it_bits = bm_bits b, it_want_free = True, it_next = 0\<rparr>"

definition bv_iter_used :: "bitmap_view \<Rightarrow> bit_iter" where
  "bv_iter_used v =
     \<lparr>it_words = bv_words v, it_bits = bv_bits v, it_want_free = False, it_next = 0\<rparr>"

definition bv_iter_free :: "bitmap_view \<Rightarrow> bit_iter" where
  "bv_iter_free v =
     \<lparr>it_words = bv_words v, it_bits = bv_bits v, it_want_free = True, it_next = 0\<rparr>"

definition bit_iter_next :: "bit_iter \<Rightarrow> (nat \<times> bit_iter) option" where
  "bit_iter_next it =
     (case scan_words (it_words it) (it_bits it) (it_next it) (it_want_free it) of
        None \<Rightarrow> None
      | Some found \<Rightarrow> Some (found, it\<lparr>it_next := found + 1\<rparr>))"

definition bit_iter_size_hint :: "bit_iter \<Rightarrow> nat \<times> nat option" where
  "bit_iter_size_hint it = (0, Some (it_bits it - it_next it))"

text \<open>
  Draining an iterator with at most \<open>fuel\<close> calls of \<open>next\<close>; \<open>bit_iter_collect_enough\<close>
  below shows that \<open>bits + 1\<close> calls reach the end.
\<close>

fun bit_iter_collect :: "nat \<Rightarrow> bit_iter \<Rightarrow> nat list option" where
  "bit_iter_collect 0 it = None"
| "bit_iter_collect (Suc fuel) it =
     (case bit_iter_next it of
        None \<Rightarrow> Some []
      | Some (i, it') \<Rightarrow> map_option ((#) i) (bit_iter_collect fuel it'))"

end
