(* ===== verification/Index_Pool.thy ===== *)
theory Index_Pool
  imports Main
begin

text \<open>
  The contract the kernel's identifier allocators share: a pool has a finite universe of
  identifiers, a set of held ones, an operation that hands out one that is not held and one
  that takes a held one back.  The bitmap, the bitmap view and the flat id allocator each
  interpret \<open>index_pool\<close> on their own operations, and get from it the behaviour of
  sequences of operations.
\<close>

text \<open>Repeated allocation: the identifiers in the order they were handed out.\<close>

fun alloc_many :: "('s \<Rightarrow> ('i \<times> 's) option) \<Rightarrow> nat \<Rightarrow> 's \<Rightarrow> ('i list \<times> 's) option" where
  "alloc_many alloc 0 s = Some ([], s)"
| "alloc_many alloc (Suc n) s =
     (case alloc s of None \<Rightarrow> None
      | Some (i, s') \<Rightarrow>
          (case alloc_many alloc n s' of None \<Rightarrow> None | Some (is, s'') \<Rightarrow> Some (i # is, s'')))"

text \<open>Repeated release.\<close>

fun release_many :: "('s \<Rightarrow> 'i \<Rightarrow> 's option) \<Rightarrow> 'i list \<Rightarrow> 's \<Rightarrow> 's option" where
  "release_many release [] s = Some s"
| "release_many release (i # is) s =
     (case release s i of None \<Rightarrow> None | Some s' \<Rightarrow> release_many release is s')"

locale index_pool =
  fixes inv :: "'s \<Rightarrow> bool"
    and universe :: "'s \<Rightarrow> 'i set"
    and held :: "'s \<Rightarrow> 'i set"
    and alloc :: "'s \<Rightarrow> ('i \<times> 's) option"
    and release :: "'s \<Rightarrow> 'i \<Rightarrow> 's option"
  assumes finite_universe: "inv s \<Longrightarrow> finite (universe s)"
    and held_universe: "inv s \<Longrightarrow> held s \<subseteq> universe s"
    and alloc_Some: "inv s \<Longrightarrow> alloc s = Some (i, s') \<Longrightarrow>
      inv s' \<and> universe s' = universe s \<and> i \<in> universe s \<and> i \<notin> held s \<and> held s' = insert i (held s)"
    and alloc_None: "inv s \<Longrightarrow> alloc s = None \<Longrightarrow> held s = universe s"
    and release_Some: "inv s \<Longrightarrow> release s i = Some s' \<Longrightarrow>
      inv s' \<and> universe s' = universe s \<and> i \<in> held s \<and> held s' = held s - {i}"
    and release_None: "inv s \<Longrightarrow> release s i = None \<Longrightarrow> i \<notin> held s"
begin

lemma held_finite: "inv s \<Longrightarrow> finite (held s)"
  using finite_universe held_universe finite_subset by blast

lemma alloc_None_iff: "inv s \<Longrightarrow> alloc s = None \<longleftrightarrow> held s = universe s"
  using alloc_Some alloc_None by (metis option.exhaust surj_pair)

lemma alloc_many_Some:
  assumes "inv s" "alloc_many alloc n s = Some (is, s')"
  shows "inv s' \<and> universe s' = universe s \<and> length is = n \<and> distinct is \<and>
    set is \<subseteq> universe s - held s \<and> held s' = held s \<union> set is"
  using assms
proof (induction n arbitrary: s "is")
  case 0
  then show ?case by simp
next
  case (Suc n)
  then obtain i t js where t: "alloc s = Some (i, t)" "alloc_many alloc n t = Some (js, s')"
      "is = i # js"
    by (auto split: option.splits)
  from alloc_Some [OF Suc.prems(1) t(1)] Suc.IH [OF _ t(2)] show ?case by (auto simp: t(3))
qed

lemma alloc_many_None_iff:
  assumes "inv s"
  shows "alloc_many alloc n s = None \<longleftrightarrow> card (universe s) < card (held s) + n"
  using assms
proof (induction n arbitrary: s)
  case 0
  then show ?case using card_mono [OF finite_universe held_universe] by (simp add: not_less)
next
  case (Suc n)
  show ?case
  proof (cases "alloc s")
    case None
    then show ?thesis using alloc_None [OF Suc.prems] by simp
  next
    case (Some p)
    obtain i t where p: "p = (i, t)" by force
    note a = alloc_Some [OF Suc.prems Some [unfolded p]]
    then have "card (held t) = card (held s) + 1" using held_finite [OF Suc.prems] by simp
    then show ?thesis using Some p a Suc.IH [of t] by (auto split: option.splits)
  qed
qed

lemma alloc_release:
  assumes "inv s" "alloc s = Some (i, s')"
  shows "\<exists>s''. release s' i = Some s'' \<and> inv s'' \<and> held s'' = held s"
proof -
  note a = alloc_Some [OF assms]
  obtain s'' where r: "release s' i = Some s''" using a release_None by (metis insertI1 option.exhaust)
  then show ?thesis using a release_Some [of s' i s''] by auto
qed

lemma release_many_all:
  assumes "inv s" "distinct is" "set is \<subseteq> held s"
  shows "\<exists>s'. release_many release is s = Some s' \<and> inv s' \<and> universe s' = universe s \<and>
    held s' = held s - set is"
  using assms
proof (induction "is" arbitrary: s)
  case Nil
  then show ?case by simp
next
  case (Cons i "is")
  then obtain t where t: "release s i = Some t" using release_None [of s i] by auto
  have "held s - {i} - set is = held s - set (i # is)" by auto
  with release_Some [OF Cons.prems(1) t] Cons.prems Cons.IH [of t] t show ?case by fastforce
qed

lemma alloc_many_release_many:
  assumes "inv s" "alloc_many alloc n s = Some (is, s')"
  shows "\<exists>s''. release_many release is s' = Some s'' \<and> inv s'' \<and> held s'' = held s"
proof -
  note a = alloc_many_Some [OF assms]
  then obtain s'' where "release_many release is s' = Some s''" "inv s''" "held s'' = held s' - set is"
    using release_many_all [of s' "is"] by auto
  then show ?thesis using a by auto
qed

end

end
