(* ===== verification/Bitmap_Correct.thy ===== *)
theory Bitmap_Correct
  imports Bitmap Index_Pool
begin

text \<open>
  Correctness of the bitmap.  The abstraction of a word array is the set of its set bits
  (\<open>used_bits\<close>).  The word-parallel search is the linear search over the indices, the owned
  bitmap's counter is the size of the abstraction, and both bitmaps implement the
  interface \<open>index_pool\<close>.
\<close>

definition used_bits :: "u64 list \<Rightarrow> nat set" where
  "used_bits ws = {i. i < 64 * length ws \<and> is_bit_set ws i}"

section \<open>Single bits\<close>

lemma is_bit_set_iff: "is_bit_set ws i \<longleftrightarrow> bit (ws ! (i div 64)) (i mod 64)"
  unfolding is_bit_set_def WORD_BITS_def by (rule and_single_bit)

lemma div_mod_64_eq_iff: "(i::nat) div 64 = j div 64 \<Longrightarrow> i mod 64 = j mod 64 \<longleftrightarrow> i = j"
  by (metis div_mult_mod_eq)

lemma length_set_bit_in [simp]: "length (set_bit_in ws i) = length ws"
  by (simp add: set_bit_in_def)

lemma length_clear_bit_in [simp]: "length (clear_bit_in ws i) = length ws"
  by (simp add: clear_bit_in_def)

lemma is_bit_set_set_bit_in:
  assumes "i < 64 * length ws"
  shows "is_bit_set (set_bit_in ws i) j \<longleftrightarrow> j = i \<or> is_bit_set ws j"
proof -
  have "i div 64 < length ws" using assms by auto
  then show ?thesis
    by (cases "i div 64 = j div 64")
      (auto simp: is_bit_set_iff set_bit_in_def WORD_BITS_def bit_or_iff bit_exp_iff
        dest: div_mod_64_eq_iff)
qed

lemma is_bit_set_clear_bit_in:
  assumes "i < 64 * length ws"
  shows "is_bit_set (clear_bit_in ws i) j \<longleftrightarrow> j \<noteq> i \<and> is_bit_set ws j"
proof -
  have "i div 64 < length ws" using assms by auto
  moreover have "\<not> bit (w::u64) n" if "64 \<le> n" for w n
    using that bit_imp_le_length [of w n] by auto
  ultimately show ?thesis
    by (cases "i div 64 = j div 64")
      (auto simp: is_bit_set_iff clear_bit_in_def WORD_BITS_def bit_and_iff bit_not_iff
        bit_exp_iff possible_bit_word dest: div_mod_64_eq_iff)
qed

lemma bits_set_finite [simp]: "finite (used_bits ws)"
  by (simp add: used_bits_def)

lemma bits_set_bound: "used_bits ws \<subseteq> {..<64 * length ws}"
  by (auto simp: used_bits_def)

lemma bits_set_set_bit_in [simp]:
  "i < 64 * length ws \<Longrightarrow> used_bits (set_bit_in ws i) = insert i (used_bits ws)"
  by (auto simp: used_bits_def is_bit_set_set_bit_in)

lemma bits_set_clear_bit_in [simp]:
  "i < 64 * length ws \<Longrightarrow> used_bits (clear_bit_in ws i) = used_bits ws - {i}"
  by (auto simp: used_bits_def is_bit_set_clear_bit_in)

lemma bits_set_zero [simp]: "used_bits (map (\<lambda>_. 0) ws) = {}" "used_bits (replicate n 0) = {}"
  by (auto simp: used_bits_def is_bit_set_iff less_mult_imp_div_less mult.commute)

lemma length_set_all [simp]: "length (set_all ws js) = length ws"
  by (induction js arbitrary: ws) auto

lemma length_clear_all [simp]: "length (clear_all ws js) = length ws"
  by (induction js arbitrary: ws) auto

lemma bits_set_set_all:
  "(\<forall>j\<in>set js. j < 64 * length ws) \<Longrightarrow> used_bits (set_all ws js) = used_bits ws \<union> set js"
  by (induction js arbitrary: ws) auto

lemma bits_set_clear_all:
  "(\<forall>j\<in>set js. j < 64 * length ws) \<Longrightarrow> used_bits (clear_all ws js) = used_bits ws - set js"
  by (induction js arbitrary: ws) auto

lemma bits_set_Cons: "used_bits (w # ws) = {n. bit w n} \<union> (+) 64 ` used_bits ws"
proof (rule set_eqI)
  fix i
  show "i \<in> used_bits (w # ws) \<longleftrightarrow> i \<in> {n. bit w n} \<union> (+) 64 ` used_bits ws"
  proof (cases "i < 64")
    case True
    then show ?thesis by (auto simp: used_bits_def is_bit_set_iff)
  next
    case False
    then obtain m where m: "i = 64 + m" using le_Suc_ex by (metis not_less)
    have "(64 + m) div 64 = Suc (m div 64)" by simp
    then show ?thesis using bit_imp_le_length [of w i]
      by (auto simp del: div_add_self1 simp: used_bits_def is_bit_set_iff m)
  qed
qed

lemma count_used_card: "count_used ws = card (used_bits ws)"
proof (induction ws)
  case Nil
  then show ?case by (simp add: count_used_def used_bits_def)
next
  case (Cons w ws)
  have "finite {n. bit w n}" using bit_imp_le_length [of w]
    by (metis (mono_tags) bounded_nat_set_is_finite mem_Collect_eq)
  moreover have "{n. bit w n} \<inter> (+) 64 ` used_bits ws = {}"
    using bit_imp_le_length [of w] by fastforce
  moreover have "card ((+) 64 ` used_bits ws) = card (used_bits ws)"
    by (rule card_image) simp
  ultimately show ?case using Cons
    by (simp add: bits_set_Cons card_Un_disjoint count_used_def count_ones_card)
qed

section \<open>The word-parallel search\<close>

definition scan_pred :: "u64 list \<Rightarrow> nat \<Rightarrow> bool \<Rightarrow> nat \<Rightarrow> bool" where
  "scan_pred ws bits want i \<longleftrightarrow> is_bit_set ws i = (\<not> want) \<and>
     \<not> (i div 64 = length ws - 1 \<and> bits mod 64 \<noteq> 0 \<and> bits mod 64 \<le> i mod 64)"

lemma bit_scan_masked:
  "bit (scan_masked ws bits want word (low_ones k)) n \<longleftrightarrow>
     k \<le> n \<and> n < 64 \<and> scan_pred ws bits want (word * 64 + n)"
proof (cases "n < 64")
  case True
  then have "(word * 64 + n) div 64 = word" "(word * 64 + n) mod 64 = n" by simp_all
  then show ?thesis using True
    by (auto simp: scan_masked_def scan_pred_def is_bit_set_iff Let_def WORD_BITS_def
        bit_and_iff bit_or_iff bit_not_iff possible_bit_word bit_facts)
next
  case False
  then show ?thesis using bit_imp_le_length [of "scan_masked ws bits want word (low_ones k)" n] by auto
qed

lemma find_scan_word:
  fixes m :: u64
  assumes "\<And>n. bit m n \<longleftrightarrow> k \<le> n \<and> n < 64 \<and> P (base + n)" and "k < 64"
  shows "List.find P [base + k..<base + 64] = (if m = 0 then None else Some (base + trailing_zeros m))"
proof (cases "m = 0")
  case True
  then have "\<not> (k \<le> n \<and> n < 64 \<and> P (base + n))" for n using assms(1) [of n] by simp
  then have "\<not> P i" if "base + k \<le> i" "i < base + 64" for i
    using that by (metis (no_types, lifting) add_le_cancel_left add_less_cancel_left le_add_diff_inverse
        le_trans le_add1)
  then show ?thesis using True by (simp add: find_upt_None_iff)
next
  case False
  let ?t = "trailing_zeros m"
  from trailing_zeros_find [OF False]
  have t: "bit m ?t" "?t < 64" "\<And>j. j < ?t \<Longrightarrow> \<not> bit m j"
    by (auto simp: find_upt_Some_iff)
  have "\<not> P j" if "base + k \<le> j" "j < base + ?t" for j
  proof -
    have "\<not> bit m (j - base)" using that by (intro t(3)) auto
    then show ?thesis using that assms(1) [of "j - base"] t(2) by auto
  qed
  then show ?thesis using False t assms(1) [of ?t] by (auto simp: find_upt_Some_iff)
qed

lemma scan_loop_find:
  assumes "word < length ws" "k < 64"
  shows "scan_loop ws bits want word (low_ones k) =
    List.find (scan_pred ws bits want) [word * 64 + k..<64 * length ws]"
  using assms
proof (induction "length ws - word" arbitrary: word k)
  case 0
  then show ?case by simp
next
  case (Suc d)
  let ?m = "scan_masked ws bits want word (low_ones k)"
  have split: "[word * 64 + k..<64 * length ws] =
      [word * 64 + k..<word * 64 + 64] @ [(word + 1) * 64 + 0..<64 * length ws]"
    using Suc.prems upt_split [of "word * 64 + k" "word * 64 + 64" "64 * length ws"]
    by (simp add: add.commute)
  have here: "List.find (scan_pred ws bits want) [word * 64 + k..<word * 64 + 64] =
      (if ?m = 0 then None else Some (word * 64 + trailing_zeros ?m))"
    using Suc.prems by (intro find_scan_word) (auto simp: bit_scan_masked)
  have low0: "low_ones 0 = (0::u64)" by (simp add: low_ones_def)
  have rest: "scan_loop ws bits want (word + 1) 0 =
      List.find (scan_pred ws bits want) [(word + 1) * 64 + 0..<64 * length ws]"
    if "word + 1 < length ws"
    using Suc.hyps(1) [of "word + 1" 0] Suc.hyps(2) that by (simp add: low0)
  have none: "[(word + 1) * 64 + 0..<64 * length ws] = []" if "\<not> word + 1 < length ws"
    using that Suc.prems by simp
  show ?case
    unfolding split find_append here
    by (subst scan_loop.simps) (use rest none Suc.prems in \<open>auto simp: Let_def WORD_BITS_def\<close>)
qed

lemma scan_words_general:
  assumes "bits \<le> 64 * length ws" "start < bits"
  shows "scan_words ws bits start want =
    List.find (scan_pred ws bits want) [start..<64 * length ws]"
proof -
  have "start div 64 < length ws" using assms by auto
  moreover have "ws \<noteq> []" using assms by auto
  ultimately show ?thesis
    using assms scan_loop_find [of "start div 64" ws "start mod 64" bits want]
    by (simp add: scan_words_def WORD_BITS_def)
qed

lemma words_for_cases:
  obtains (multiple) q where "bits = 64 * q" "words_for bits = q"
  | (partial) q r where "bits = 64 * q + r" "0 < r" "r < 64" "words_for bits = q + 1"
proof (cases "bits mod 64 = 0")
  case True
  then show ?thesis
    by (intro multiple [of "bits div 64"]) (auto simp: words_for_def div_ceil_def WORD_BITS_def)
next
  case False
  then show ?thesis
    by (intro partial [of "bits div 64" "bits mod 64"])
      (auto simp: words_for_def div_ceil_def WORD_BITS_def)
qed

lemma words_for_bounds:
  "bits \<le> 64 * words_for bits" "64 * words_for bits < bits + 64"
  by (cases bits rule: words_for_cases; simp)+

lemma scan_pred_exact:
  assumes "length ws = words_for bits" "i < 64 * length ws"
  shows "scan_pred ws bits want i \<longleftrightarrow> i < bits \<and> is_bit_set ws i = (\<not> want)"
proof -
  define a c where "a = i div 64" and "c = i mod 64"
  then have i: "i = 64 * a + c" "c < 64" by simp_all
  have "a < length ws" using assms by (simp add: a_def less_mult_imp_div_less mult.commute)
  then have "i < bits \<longleftrightarrow> \<not> (a = length ws - 1 \<and> bits mod 64 \<noteq> 0 \<and> bits mod 64 \<le> c)"
    using assms i by (cases bits rule: words_for_cases) auto
  then show ?thesis by (auto simp: scan_pred_def a_def c_def)
qed

lemma scan_words_exact:
  assumes "length ws = words_for bits"
  shows "scan_words ws bits start want = List.find (\<lambda>i. is_bit_set ws i = (\<not> want)) [start..<bits]"
proof (cases "start < bits")
  case True
  have "scan_words ws bits start want =
      List.find (\<lambda>i. i < bits \<and> is_bit_set ws i = (\<not> want)) [start..<64 * length ws]"
    using assms True words_for_bounds [of bits]
    by (auto simp: scan_words_general scan_pred_exact intro!: find_cong_set)
  also have "[start..<64 * length ws] = [start..<bits] @ [bits..<64 * length ws]"
    using True assms words_for_bounds [of bits] by (intro upt_split) auto
  also have "List.find (\<lambda>i. i < bits \<and> is_bit_set ws i = (\<not> want)) \<dots> =
      List.find (\<lambda>i. is_bit_set ws i = (\<not> want)) [start..<bits]"
  proof -
    have "List.find (\<lambda>i. i < bits \<and> is_bit_set ws i = (\<not> want)) [bits..<64 * length ws] = None"
      by (simp add: find_upt_None_iff)
    moreover have "List.find (\<lambda>i. i < bits \<and> is_bit_set ws i = (\<not> want)) [start..<bits] =
        List.find (\<lambda>i. is_bit_set ws i = (\<not> want)) [start..<bits]"
      by (rule find_cong_set) simp
    ultimately show ?thesis by (simp add: find_append split: option.splits)
  qed
  finally show ?thesis .
next
  case False
  then show ?thesis by (simp add: scan_words_def)
qed

section \<open>Ranges\<close>

definition free_run :: "u64 list \<Rightarrow> nat \<Rightarrow> nat \<Rightarrow> bool" where
  "free_run ws s n \<longleftrightarrow> list_all (\<lambda>j. \<not> is_bit_set ws j) [s..<s + n]"

lemma free_run_iff: "free_run ws s n \<longleftrightarrow> (\<forall>j. s \<le> j \<longrightarrow> j < s + n \<longrightarrow> \<not> is_bit_set ws j)"
  by (auto simp: free_run_def list_all_iff)

definition first_free_run :: "u64 list \<Rightarrow> nat \<Rightarrow> nat \<Rightarrow> nat option" where
  "first_free_run ws bits n = List.find (\<lambda>s. s + n \<le> bits \<and> free_run ws s n) [0..<bits]"

lemma alloc_range_loop_first:
  assumes "i \<le> bits" "run_len < n" "run_len \<le> i" "0 < run_len \<Longrightarrow> run_start = i - run_len"
    and "\<And>j. i - run_len \<le> j \<Longrightarrow> j < i \<Longrightarrow> \<not> is_bit_set ws j"
    and "\<And>s. s < i - run_len \<Longrightarrow> \<not> free_run ws s n"
  shows "alloc_range_loop ws n [i..<bits] run_start run_len =
    map_option (\<lambda>s. (s, set_all ws [s..<s + n])) (first_free_run ws bits n)"
  using assms
proof (induction "bits - i" arbitrary: i run_start run_len)
  case 0
  then have "first_free_run ws bits n = None"
    by (auto simp: first_free_run_def find_upt_None_iff)
  then show ?case using 0 by simp
next
  case (Suc d)
  then have upt: "[i..<bits] = i # [Suc i..<bits]" by (simp add: upt_conv_Cons)
  have rs: "(if run_len = 0 then i else run_start) = i - run_len" using Suc.prems by simp
  consider (used) "is_bit_set ws i" | (found) "\<not> is_bit_set ws i" "run_len + 1 = n"
    | (go) "\<not> is_bit_set ws i" "run_len + 1 \<noteq> n" by blast
  then show ?case
  proof cases
    case used
    have "\<not> free_run ws s n" if "s < Suc i" for s
    proof (cases "s < i - run_len")
      case False
      then have "s \<le> i" "i < s + n" using that Suc.prems(2,3) by simp_all
      then show ?thesis using used by (auto simp: free_run_iff)
    qed (rule Suc.prems(6))
    then show ?thesis using used upt Suc.prems Suc.hyps(2)
      by (simp add: Suc.hyps(1) [of "Suc i"])
  next
    case found
    have "\<not> is_bit_set ws j" if "i - run_len \<le> j" "j < i - run_len + n" for j
      using that found Suc.prems(3,5) by (cases "j = i") auto
    then have "free_run ws (i - run_len) n" by (simp add: free_run_iff)
    then have "first_free_run ws bits n = Some (i - run_len)"
      using found Suc.hyps(2) Suc.prems(3,6) by (auto simp: first_free_run_def find_upt_Some_iff)
    then show ?thesis using found rs upt by (simp add: Let_def)
  next
    case go
    have "\<not> is_bit_set ws j" if "Suc i - (run_len + 1) \<le> j" "j < Suc i" for j
      using that go Suc.prems(5) by (cases "j = i") auto
    then show ?thesis using go rs upt Suc.prems Suc.hyps(2)
      by (simp add: Suc.hyps(1) [of "Suc i"] Let_def)
  qed
qed

lemma alloc_range_in_first:
  "alloc_range_in ws bits n =
     (if n = 0 then None
      else map_option (\<lambda>s. (s, set_all ws [s..<s + n])) (first_free_run ws bits n))"
  by (simp add: alloc_range_in_def alloc_range_loop_first)

lemma alloc_range_in_Some:
  assumes "alloc_range_in ws bits n = Some (s, ws')" "bits \<le> 64 * length ws"
  shows "0 < n" "s + n \<le> bits" "{s..<s + n} \<inter> used_bits ws = {}" "length ws' = length ws"
    "used_bits ws' = used_bits ws \<union> {s..<s + n}"
    "\<forall>t < s. \<not> free_run ws t n"
proof -
  have a: "0 < n" "first_free_run ws bits n = Some s" "ws' = set_all ws [s..<s + n]"
    using assms by (auto simp: alloc_range_in_first split: if_splits)
  then have f: "s + n \<le> bits" "free_run ws s n"
    by (auto simp: first_free_run_def find_upt_Some_iff)
  have "s' + n \<le> bits" if "s' < s" for s' using that f by simp
  then show "\<forall>t < s. \<not> free_run ws t n"
    using a(2) by (auto simp: first_free_run_def find_upt_Some_iff)
  show "0 < n" "s + n \<le> bits" "length ws' = length ws" using a f by simp_all
  show "{s..<s + n} \<inter> used_bits ws = {}" using f by (auto simp: free_run_iff used_bits_def)
  show "used_bits ws' = used_bits ws \<union> {s..<s + n}" using a f assms(2) by (simp add: bits_set_set_all)
qed

lemma alloc_range_in_None:
  assumes "alloc_range_in ws bits n = None" "0 < n" "s + n \<le> bits"
  shows "\<not> free_run ws s n"
  using assms by (auto simp: alloc_range_in_first first_free_run_def find_upt_None_iff)

lemma free_range_in_Ok:
  assumes "free_range_in ws bits s e = Ok ws'" "bits \<le> 64 * length ws"
  shows "s \<le> e" "e \<le> bits" "{s..<e} \<subseteq> used_bits ws" "used_bits ws' = used_bits ws - {s..<e}"
    "length ws' = length ws"
proof -
  have a: "s \<le> e" "e \<le> bits" "\<forall>i\<in>{s..<e}. is_bit_set ws i" "ws' = clear_all ws [s..<e]"
    using assms(1) by (auto simp: free_range_in_def list_ex_iff split: if_splits)
  then show "s \<le> e" "e \<le> bits" "length ws' = length ws" by simp_all
  show "{s..<e} \<subseteq> used_bits ws" using a assms(2) by (auto simp: used_bits_def)
  show "used_bits ws' = used_bits ws - {s..<e}" using a assms(2) by (simp add: bits_set_clear_all)
qed

section \<open>The owned bitmap\<close>

definition bm_inv :: "bitmap \<Rightarrow> bool" where
  "bm_inv b \<longleftrightarrow> bm_bits b \<le> 64 * length (bm_words b) \<and>
     used_bits (bm_words b) \<subseteq> {..<bm_bits b} \<and> bm_used b = card (used_bits (bm_words b))"

definition bm_held :: "bitmap \<Rightarrow> nat set" where
  "bm_held b = used_bits (bm_words b)"

definition bm_universe :: "bitmap \<Rightarrow> nat set" where
  "bm_universe b = {..<bm_bits b}"

lemmas bm_abs_defs = bm_inv_def bm_held_def bm_universe_def

lemma bm_is_allocated_iff: "bm_inv b \<Longrightarrow> bm_is_allocated b i \<longleftrightarrow> i \<in> bm_held b"
  by (auto simp: bm_is_allocated_def bm_contains_def bm_abs_defs used_bits_def)

lemma bm_held_subset: "bm_inv b \<Longrightarrow> bm_held b \<subseteq> bm_universe b"
  by (simp add: bm_abs_defs)

lemma bm_used_le: "bm_inv b \<Longrightarrow> bm_used b \<le> bm_bits b"
  using card_mono [of "{..<bm_bits b}" "used_bits (bm_words b)"] by (simp add: bm_inv_def)

lemma bm_full_iff: "bm_inv b \<Longrightarrow> bm_used b = bm_bits b \<longleftrightarrow> bm_held b = bm_universe b"
  using card_subset_eq [of "{..<bm_bits b}" "used_bits (bm_words b)"] by (auto simp: bm_abs_defs)

lemma bm_mark_inv [inv_intros]:
  assumes "bm_inv b" "i < bm_bits b" "i \<notin> bm_held b"
  shows "bm_inv (bm_mark b i)" "bm_held (bm_mark b i) = insert i (bm_held b)"
    "bm_bits (bm_mark b i) = bm_bits b"
  using assms by (auto simp: bm_abs_defs bm_mark_def)

lemma bm_unmark_inv [inv_intros]:
  assumes "bm_inv b" "i \<in> bm_held b"
  shows "bm_inv (bm_unmark b i)" "bm_held (bm_unmark b i) = bm_held b - {i}"
    "bm_bits (bm_unmark b i) = bm_bits b"
proof -
  have "i < 64 * length (bm_words b)" using assms by (auto simp: bm_abs_defs)
  then show "bm_inv (bm_unmark b i)" "bm_held (bm_unmark b i) = bm_held b - {i}"
      "bm_bits (bm_unmark b i) = bm_bits b"
    using assms by (auto simp: bm_abs_defs bm_unmark_def)
qed

text \<open>
  The search from index 0 is guarded by \<open>used \<noteq> bits\<close>, so some free index lies below
  \<open>bits\<close> and is met before any reserved bit, however many words the array has.
\<close>

lemma bm_find_free_least:
  assumes "bm_inv b"
  shows "bm_find_free b = List.find (bm_is_free b) [0..<bm_bits b]"
proof (cases "bm_used b = bm_bits b")
  case True
  then have "bm_held b = bm_universe b" using bm_full_iff assms by blast
  then have "\<not> bm_is_free b i" for i
    by (simp add: bm_is_free_def bm_contains_def bm_is_allocated_iff assms bm_universe_def)
  then have "List.find (bm_is_free b) [0..<bm_bits b] = None" by (simp add: find_None_iff)
  then show ?thesis using True by (simp add: bm_find_free_def bm_find_free_from_def)
next
  case False
  let ?P = "scan_pred (bm_words b) (bm_bits b) True"
  have len: "bm_bits b \<le> 64 * length (bm_words b)" using assms by (simp add: bm_inv_def)
  have same: "?P i \<longleftrightarrow> bm_is_free b i" if "i < bm_bits b" for i
  proof -
    have "\<not> (i div 64 = length (bm_words b) - 1 \<and> bm_bits b mod 64 \<noteq> 0 \<and> bm_bits b mod 64 \<le> i mod 64)"
    proof
      assume h: "i div 64 = length (bm_words b) - 1 \<and> bm_bits b mod 64 \<noteq> 0 \<and> bm_bits b mod 64 \<le> i mod 64"
      have e: "i = 64 * (i div 64) + i mod 64" "bm_bits b = 64 * (bm_bits b div 64) + bm_bits b mod 64"
        by simp_all
      have "bm_bits b div 64 < length (bm_words b)" using e(2) h len by linarith
      then have "bm_bits b div 64 \<le> i div 64" using h by linarith
      then show False using e h that by linarith
    qed
    then show ?thesis using that
      by (auto simp: scan_pred_def bm_is_free_def bm_contains_def bm_is_allocated_def)
  qed
  obtain i where i: "List.find (bm_is_free b) [0..<bm_bits b] = Some i"
  proof (cases "List.find (bm_is_free b) [0..<bm_bits b]")
    case None
    then have "bm_held b = bm_universe b" using assms bm_held_subset [OF assms]
      by (auto simp: find_upt_None_iff bm_is_free_def bm_contains_def bm_is_allocated_iff bm_universe_def)
    then show ?thesis using False assms by (simp add: bm_full_iff)
  qed
  have "List.find ?P [0..<bm_bits b] = Some i"
    using i find_cong_set [of "[0..<bm_bits b]" ?P "bm_is_free b"] same by simp
  moreover have "[0..<64 * length (bm_words b)] =
      [0..<bm_bits b] @ [bm_bits b..<64 * length (bm_words b)]"
    using len by (intro upt_split) auto
  moreover have "0 < bm_bits b" using i by (auto simp: find_upt_Some_iff)
  ultimately show ?thesis using i False len
    by (simp add: bm_find_free_def bm_find_free_from_def scan_words_general find_append)
qed

lemma bm_alloc_Some:
  assumes "bm_inv b" "bm_alloc b = Some (i, b')"
  shows "bm_inv b'" "bm_bits b' = bm_bits b" "i < bm_bits b" "i \<notin> bm_held b"
    "bm_held b' = insert i (bm_held b)" "\<forall>j<i. j \<in> bm_held b"
proof -
  have f: "bm_find_free b = Some i" and b': "b' = bm_mark b i"
    using assms(2) by (auto simp: bm_alloc_def split: option.splits)
  have i: "i < bm_bits b" "bm_is_free b i" "\<forall>j<i. \<not> bm_is_free b j"
    using f by (auto simp: bm_find_free_least [OF assms(1)] find_upt_Some_iff)
  then have n: "i \<notin> bm_held b" by (simp add: bm_is_free_def bm_is_allocated_iff assms(1))
  show "i < bm_bits b" "i \<notin> bm_held b" by fact+
  show "bm_inv b'" "bm_bits b' = bm_bits b" "bm_held b' = insert i (bm_held b)"
    using bm_mark_inv [OF assms(1) i(1) n] by (simp_all add: b')
  show "\<forall>j<i. j \<in> bm_held b"
    using i by (auto simp: bm_is_free_def bm_contains_def bm_is_allocated_iff assms(1))
qed

lemma bm_alloc_None:
  assumes "bm_inv b" "bm_alloc b = None"
  shows "bm_held b = bm_universe b"
  using assms bm_held_subset [OF assms(1)]
  by (auto simp: bm_alloc_def bm_find_free_least find_upt_None_iff bm_is_free_def bm_contains_def
      bm_is_allocated_iff bm_universe_def split: option.splits)

definition ok_opt :: "('e, 'a) result \<Rightarrow> 'a option" where
  "ok_opt r = (case r of Inl _ \<Rightarrow> None | Inr a \<Rightarrow> Some a)"

interpretation bm_pool: index_pool bm_inv bm_universe bm_held bm_alloc
  "\<lambda>b i. ok_opt (bm_free b i)"
proof
  fix b b' :: bitmap and i :: nat
  assume inv: "bm_inv b"
  show "finite (bm_universe b)" by (simp add: bm_universe_def)
  show "bm_held b \<subseteq> bm_universe b" by (rule bm_held_subset [OF inv])
  show "bm_held b = bm_universe b" if "bm_alloc b = None" by (rule bm_alloc_None [OF inv that])
  show "bm_inv b' \<and> bm_universe b' = bm_universe b \<and> i \<in> bm_universe b \<and> i \<notin> bm_held b \<and>
      bm_held b' = insert i (bm_held b)" if "bm_alloc b = Some (i, b')"
    using bm_alloc_Some [OF inv that] by (simp add: bm_universe_def)
  show "bm_inv b' \<and> bm_universe b' = bm_universe b \<and> i \<in> bm_held b \<and> bm_held b' = bm_held b - {i}"
    if "ok_opt (bm_free b i) = Some b'"
    using that inv bm_unmark_inv [OF inv, of i]
    by (auto simp: ok_opt_def bm_free_def bm_is_allocated_iff bm_universe_def split: if_splits)
  show "i \<notin> bm_held b" if "ok_opt (bm_free b i) = None"
    using that inv bm_held_subset [OF inv]
    by (auto simp: ok_opt_def bm_free_def bm_is_allocated_iff bm_contains_def bm_universe_def
        split: if_splits)
qed

lemma bm_alloc_from_exact:
  assumes "bm_inv b" "length (bm_words b) = words_for (bm_bits b)"
  shows "bm_find_free_from b start = List.find (bm_is_free b) [start..<bm_bits b]"
proof -
  have c: "List.find (\<lambda>i. \<not> is_bit_set (bm_words b) i) [start..<bm_bits b] =
      List.find (bm_is_free b) [start..<bm_bits b]"
    by (rule find_cong_set) (simp add: bm_is_free_def bm_is_allocated_def bm_contains_def)
  show ?thesis
  proof (cases "bm_used b = bm_bits b")
    case True
    then have "\<not> bm_is_free b i" for i
      using bm_full_iff [OF assms(1)]
      by (simp add: bm_is_free_def bm_contains_def bm_is_allocated_iff assms(1) bm_universe_def)
    then have "List.find (bm_is_free b) [start..<bm_bits b] = None" by (simp add: find_None_iff)
    then show ?thesis using True by (simp add: bm_find_free_from_def)
  qed (simp add: bm_find_free_from_def scan_words_exact assms(2) c)
qed

lemma bm_alloc_range_Some:
  assumes "bm_inv b" "bm_alloc_range b n = Some (Some (s, b'))"
  shows "bm_inv b'" "bm_bits b' = bm_bits b" "s + n \<le> bm_bits b" "{s..<s + n} \<inter> bm_held b = {}"
    "bm_held b' = bm_held b \<union> {s..<s + n}" "\<forall>t < s. \<not> free_run (bm_words b) t n"
proof -
  obtain ws where a: "alloc_range_in (bm_words b) (bm_bits b) n = Some (s, ws)"
    and b': "b' = b\<lparr>bm_words := ws, bm_used := bm_used b + n\<rparr>"
    using assms(2) by (auto simp: bm_alloc_range_def split: if_splits option.splits)
  have len: "bm_bits b \<le> 64 * length (bm_words b)" using assms(1) by (simp add: bm_inv_def)
  note r = alloc_range_in_Some [OF a len]
  show "s + n \<le> bm_bits b" "{s..<s + n} \<inter> bm_held b = {}" "\<forall>t < s. \<not> free_run (bm_words b) t n"
    using r by (simp_all add: bm_held_def)
  show "bm_bits b' = bm_bits b" "bm_held b' = bm_held b \<union> {s..<s + n}"
    using r by (simp_all add: b' bm_held_def)
  have "card (used_bits ws) = bm_used b + n"
    using r assms(1) by (simp add: card_Un_disjoint Int_commute bm_inv_def)
  then show "bm_inv b'" using r assms(1) by (auto simp: b' bm_inv_def)
qed

lemma bm_available_Some: "bm_inv b \<Longrightarrow> bm_available b = Some (bm_bits b - bm_used b)"
  by (simp add: bm_available_def checked_sub_def bm_used_le)

lemma bm_alloc_range_None:
  assumes "bm_inv b" "0 < n" "bm_alloc_range b n = Some None" "s + n \<le> bm_bits b"
  shows "{s..<s + n} \<inter> bm_held b \<noteq> {}"
proof (cases "bm_bits b - bm_used b < n")
  case True
  show ?thesis
  proof
    assume d: "{s..<s + n} \<inter> bm_held b = {}"
    then have "bm_held b \<subseteq> {..<bm_bits b} - {s..<s + n}" using assms(1) by (auto simp: bm_abs_defs)
    then have "bm_used b \<le> card ({..<bm_bits b} - {s..<s + n})"
      using assms(1) by (simp add: bm_abs_defs card_mono)
    also have "\<dots> = bm_bits b - n"
      using assms(4) by (subst card_Diff_subset) auto
    finally show False using True assms(2,4) by simp
  qed
next
  case False
  then have "alloc_range_in (bm_words b) (bm_bits b) n = None"
    using assms by (auto simp: bm_alloc_range_def bm_available_Some split: option.splits)
  from alloc_range_in_None [OF this assms(2,4)] show ?thesis
    using assms(1,4) by (auto simp: free_run_iff bm_abs_defs used_bits_def)
qed

lemma bm_alloc_range_no_panic: "bm_inv b \<Longrightarrow> bm_alloc_range b n \<noteq> None"
  by (auto simp: bm_alloc_range_def bm_available_Some split: option.splits)

lemma bm_free_range_Ok:
  assumes "bm_inv b" "bm_free_range b s e = Ok b'"
  shows "bm_inv b'" "{s..<e} \<subseteq> bm_held b" "bm_held b' = bm_held b - {s..<e}" "bm_bits b' = bm_bits b"
proof -
  obtain ws where a: "free_range_in (bm_words b) (bm_bits b) s e = Ok ws"
    and b': "b' = b\<lparr>bm_words := ws, bm_used := bm_used b - (e - s)\<rparr>"
    using assms(2) by (auto simp: bm_free_range_def split: sum.splits)
  have len: "bm_bits b \<le> 64 * length (bm_words b)" using assms(1) by (simp add: bm_inv_def)
  note r = free_range_in_Ok [OF a len]
  show "{s..<e} \<subseteq> bm_held b" "bm_held b' = bm_held b - {s..<e}" "bm_bits b' = bm_bits b"
    using r by (simp_all add: bm_held_def b')
  have "card (used_bits ws) = bm_used b - (e - s)"
    using r assms(1) by (simp add: card_Diff_subset bm_inv_def)
  then show "bm_inv b'" using r assms(1) by (auto simp: b' bm_inv_def)
qed

lemma bm_free_range_held:
  assumes "bm_inv b" "s \<le> e" "{s..<e} \<subseteq> bm_held b" "e \<le> bm_bits b"
  shows "\<exists>b'. bm_free_range b s e = Ok b'"
  using assms by (auto simp: bm_free_range_def free_range_in_def list_ex_iff bm_held_def used_bits_def
      split: sum.splits)

section \<open>The view\<close>

definition bv_inv :: "bitmap_view \<Rightarrow> bool" where
  "bv_inv v \<longleftrightarrow> length (bv_words v) = words_for (bv_bits v)"

definition bv_held :: "bitmap_view \<Rightarrow> nat set" where
  "bv_held v = used_bits (bv_words v) \<inter> {..<bv_bits v}"

definition bv_universe :: "bitmap_view \<Rightarrow> nat set" where
  "bv_universe v = {..<bv_bits v}"

lemmas bv_abs_defs = bv_inv_def bv_held_def bv_universe_def

lemma bv_len: "bv_inv v \<Longrightarrow> bv_bits v \<le> 64 * length (bv_words v)"
  using words_for_bounds(1) [of "bv_bits v"] by (simp add: bv_inv_def)

lemma bv_is_allocated_iff: "bv_inv v \<Longrightarrow> bv_is_allocated v i \<longleftrightarrow> i \<in> bv_held v"
  using bv_len [of v] by (auto simp: bv_is_allocated_def bv_contains_def bv_held_def used_bits_def)

lemma bv_mark_inv [inv_intros]:
  assumes "bv_inv v" "i < bv_bits v"
  shows "bv_inv (bv_mark v i)" "bv_held (bv_mark v i) = insert i (bv_held v)"
    "bv_bits (bv_mark v i) = bv_bits v"
  using assms bv_len [of v] by (auto simp: bv_abs_defs bv_mark_def)

lemma bv_unmark_inv [inv_intros]:
  assumes "bv_inv v" "i < bv_bits v"
  shows "bv_inv (bv_unmark v i)" "bv_held (bv_unmark v i) = bv_held v - {i}"
    "bv_bits (bv_unmark v i) = bv_bits v"
  using assms bv_len [of v] by (auto simp: bv_abs_defs bv_unmark_def)

lemma bv_find_free_from_iff:
  assumes "bv_inv v"
  shows "bv_find_free_from v start = List.find (bv_is_free v) [start..<bv_bits v]"
proof -
  have "List.find (\<lambda>i. \<not> is_bit_set (bv_words v) i) [start..<bv_bits v] =
      List.find (bv_is_free v) [start..<bv_bits v]"
    by (rule find_cong_set) (simp add: bv_is_free_def bv_is_allocated_def bv_contains_def)
  then show ?thesis using assms by (simp add: bv_find_free_from_def scan_words_exact bv_inv_def)
qed

lemmas bv_free_simps = bv_is_free_def bv_contains_def bv_is_allocated_iff

interpretation bv_pool: index_pool bv_inv bv_universe bv_held bv_alloc
  "\<lambda>v i. ok_opt (bv_free v i)"
proof
  fix v v' :: bitmap_view and i :: nat
  assume inv: "bv_inv v"
  show "finite (bv_universe v)" by (simp add: bv_universe_def)
  show "bv_held v \<subseteq> bv_universe v" by (auto simp: bv_held_def bv_universe_def)
  show "bv_held v = bv_universe v" if "bv_alloc v = None"
    using that inv
    by (auto simp: bv_alloc_def bv_find_free_def bv_find_free_from_iff find_upt_None_iff bv_free_simps
        bv_universe_def split: option.splits) (auto simp: bv_held_def)
  show "bv_inv v' \<and> bv_universe v' = bv_universe v \<and> i \<in> bv_universe v \<and> i \<notin> bv_held v \<and>
      bv_held v' = insert i (bv_held v)" if "bv_alloc v = Some (i, v')"
    using that inv bv_mark_inv [OF inv, of i]
    by (auto simp: bv_alloc_def bv_find_free_def bv_find_free_from_iff find_upt_Some_iff bv_free_simps
        bv_universe_def split: option.splits)
  show "bv_inv v' \<and> bv_universe v' = bv_universe v \<and> i \<in> bv_held v \<and> bv_held v' = bv_held v - {i}"
    if "ok_opt (bv_free v i) = Some v'"
    using that inv bv_unmark_inv [OF inv, of i]
    by (auto simp: ok_opt_def bv_free_def bv_is_allocated_iff bv_universe_def bv_contains_def
        split: if_splits)
  show "i \<notin> bv_held v" if "ok_opt (bv_free v i) = None"
    using that inv
    by (auto simp: ok_opt_def bv_free_def bv_is_allocated_iff bv_contains_def bv_held_def
        split: if_splits)
qed

section \<open>The iterator\<close>

lemma filter_upt_find:
  "filter P [a..<b] = (case List.find P [a..<b] of None \<Rightarrow> [] | Some i \<Rightarrow> i # filter P [Suc i..<b])"
proof (induction "b - a" arbitrary: a)
  case 0
  then show ?case by simp
next
  case (Suc d)
  then have "[a..<b] = a # [Suc a..<b]" by (simp add: upt_conv_Cons)
  then show ?case using Suc by simp
qed

lemma bit_iter_collect_enough:
  assumes "length (it_words it) = words_for (it_bits it)" "it_bits it < fuel + it_next it" "0 < fuel"
  shows "bit_iter_collect fuel it =
    Some (filter (\<lambda>i. is_bit_set (it_words it) i = (\<not> it_want_free it)) [it_next it..<it_bits it])"
  using assms
proof (induction fuel arbitrary: it)
  case 0
  then show ?case by simp
next
  case (Suc fuel)
  let ?P = "\<lambda>i. is_bit_set (it_words it) i = (\<not> it_want_free it)"
  show ?case
  proof (cases "List.find ?P [it_next it..<it_bits it]")
    case None
    then show ?thesis using Suc.prems
      by (subst filter_upt_find) (simp add: bit_iter_next_def scan_words_exact)
  next
    case (Some i)
    then have "it_next it \<le> i" "i < it_bits it" by (simp_all add: find_upt_Some_iff)
    then show ?thesis using Suc.prems Some
      by (subst filter_upt_find) (simp add: bit_iter_next_def scan_words_exact Suc.IH)
  qed
qed

section \<open>Conversions from bytes\<close>

lemma length_as_chunks [simp]: "length (as_chunks n bs) = n"
  by (induction n arbitrary: bs) auto

lemma nth_as_chunks: "k < n \<Longrightarrow> as_chunks n bs ! k = take 8 (drop (8 * k) bs)"
  by (induction n arbitrary: bs k) (auto simp: nth_Cons' algebra_simps)

lemma bits_set_append_zero: "used_bits (ws @ replicate n 0) = used_bits ws"
proof (rule set_eqI)
  fix i
  have "is_bit_set (ws @ replicate n 0) i \<longleftrightarrow> is_bit_set ws i" if "i < 64 * length ws"
    using that by (simp add: is_bit_set_iff nth_append less_mult_imp_div_less mult.commute)
  moreover have "\<not> is_bit_set (ws @ replicate n 0) i" if "64 * length ws \<le> i" "i < 64 * (length ws + n)"
  proof -
    have "\<not> i div 64 < length ws" "i div 64 - length ws < n" using that by auto
    then show ?thesis by (simp add: is_bit_set_iff nth_append)
  qed
  ultimately show "i \<in> used_bits (ws @ replicate n 0) \<longleftrightarrow> i \<in> used_bits ws"
    by (cases "i < 64 * length ws") (auto simp: used_bits_def)
qed

lemma bits_set_le_chunks:
  assumes "length bs = 8 * n"
  shows "used_bits (map of_le_bytes (as_chunks n bs)) = {i. i < 8 * length bs \<and> bit (bs ! (i div 8)) (i mod 8)}"
proof (rule set_eqI)
  fix i
  show "i \<in> used_bits (map of_le_bytes (as_chunks n bs)) \<longleftrightarrow>
      i \<in> {i. i < 8 * length bs \<and> bit (bs ! (i div 8)) (i mod 8)}"
  proof (cases "i < 64 * n")
    case True
    then have k: "i div 64 < n" by auto
    have "i div 8 = (8 * (8 * (i div 64)) + i mod 64) div 8" by simp
    also have "\<dots> = 8 * (i div 64) + i mod 64 div 8" by (rule div_mult_self4) simp
    finally have e: "8 * (i div 64) + i mod 64 div 8 = i div 8" by (rule sym)
    have m: "i mod 64 mod 8 = i mod 8" by (simp add: mod_mod_cancel)
    have "8 * (i div 64) + 8 \<le> length bs" using k assms by linarith
    then have "take 8 (drop (8 * (i div 64)) bs) ! (i mod 64 div 8) = bs ! (i div 8)"
      and "min (length bs - 8 * (i div 64)) 8 = 8"
      using e by simp_all
    then show ?thesis using True k m assms
      by (simp add: used_bits_def is_bit_set_iff bit_of_le_bytes nth_as_chunks)
  next
    case False
    then show ?thesis using assms by (simp add: used_bits_def)
  qed
qed

section \<open>Every operation of the owned bitmap\<close>

inductive bm_step :: "bitmap \<Rightarrow> bitmap \<Rightarrow> bool" where
  step_set: "bm_set b i = Ok b' \<Longrightarrow> bm_step b b'"
| step_clear: "bm_clear b i = Ok b' \<Longrightarrow> bm_step b b'"
| step_alloc: "bm_alloc b = Some (i, b') \<Longrightarrow> bm_step b b'"
| step_alloc_from: "bm_alloc_from b start = Some (i, b') \<Longrightarrow> bm_step b b'"
| step_alloc_specific: "bm_alloc_specific b i = Ok b' \<Longrightarrow> bm_step b b'"
| step_free: "bm_free b i = Ok b' \<Longrightarrow> bm_step b b'"
| step_alloc_range: "bm_alloc_range b n = Some (Some (i, b')) \<Longrightarrow> bm_step b b'"
| step_free_range: "bm_free_range b s e = Ok b' \<Longrightarrow> bm_step b b'"
| step_reset: "bm_step b (bm_reset b)"

definition bm_exact :: "bitmap \<Rightarrow> bool" where
  "bm_exact b \<longleftrightarrow> bm_inv b \<and> length (bm_words b) = words_for (bm_bits b)"

lemma bm_bits_mark [simp]: "bm_bits (bm_mark b i) = bm_bits b" "bm_bits (bm_unmark b i) = bm_bits b"
  by (simp_all add: bm_mark_def bm_unmark_def)

lemma bm_exact_is_allocated: "bm_exact b \<Longrightarrow> bm_is_allocated b i \<longleftrightarrow> i \<in> bm_held b"
  by (simp add: bm_exact_def bm_is_allocated_iff)

lemma bm_exact_mark: "bm_exact b \<Longrightarrow> i < bm_bits b \<Longrightarrow> i \<notin> bm_held b \<Longrightarrow> bm_exact (bm_mark b i)"
  using bm_mark_inv [of b i] by (simp add: bm_exact_def) (simp add: bm_mark_def)

lemma bm_exact_unmark: "bm_exact b \<Longrightarrow> i \<in> bm_held b \<Longrightarrow> bm_exact (bm_unmark b i)"
  using bm_unmark_inv [of b i] by (simp add: bm_exact_def) (simp add: bm_unmark_def)

lemma bm_alloc_from_Some:
  assumes "bm_exact b" "bm_alloc_from b start = Some (i, b')"
  shows "b' = bm_mark b i" "start \<le> i" "i < bm_bits b" "i \<notin> bm_held b"
    "\<forall>j. start \<le> j \<longrightarrow> j < i \<longrightarrow> j \<in> bm_held b"
proof -
  have inv: "bm_inv b" using assms(1) by (simp add: bm_exact_def)
  have "b' = bm_mark b i" and f: "List.find (bm_is_free b) [start..<bm_bits b] = Some i"
    using assms by (auto simp: bm_alloc_from_def bm_alloc_from_exact bm_exact_def split: option.splits)
  then show "b' = bm_mark b i" "start \<le> i" "i < bm_bits b" "i \<notin> bm_held b"
      "\<forall>j. start \<le> j \<longrightarrow> j < i \<longrightarrow> j \<in> bm_held b"
    by (auto simp: find_upt_Some_iff bm_is_free_def bm_contains_def bm_is_allocated_iff inv)
qed

lemma bm_alloc_mark:
  assumes "bm_inv b" "bm_alloc b = Some (i, b')"
  shows "b' = bm_mark b i" "i < bm_bits b" "i \<notin> bm_held b"
  using assms bm_alloc_Some [OF assms] by (auto simp: bm_alloc_def split: option.splits)

lemma bm_step_exact: "bm_step b b' \<Longrightarrow> bm_exact b \<Longrightarrow> bm_exact b' \<and> bm_bits b' = bm_bits b"
proof (induction rule: bm_step.induct)
  case (step_alloc b i b')
  then show ?case using bm_alloc_mark [of b i b'] bm_exact_mark [of b i]
    by (auto simp: bm_exact_def bm_mark_def)
next
  case (step_alloc_from b start i b')
  then show ?case using bm_alloc_from_Some [of b start i b'] bm_exact_mark [of b i]
    by (auto simp: bm_mark_def)
next
  case (step_alloc_range b n i b')
  then obtain ws where "alloc_range_in (bm_words b) (bm_bits b) n = Some (i, ws)"
    "b' = b\<lparr>bm_words := ws, bm_used := bm_used b + n\<rparr>"
    by (auto simp: bm_alloc_range_def split: if_splits option.splits)
  then show ?case using step_alloc_range bm_alloc_range_Some [of b n i b']
      alloc_range_in_Some [of "bm_words b" "bm_bits b" n i ws]
    by (auto simp: bm_exact_def bm_inv_def)
next
  case (step_free_range b s e b')
  then obtain ws where "free_range_in (bm_words b) (bm_bits b) s e = Ok ws"
    "b' = b\<lparr>bm_words := ws, bm_used := bm_used b - (e - s)\<rparr>"
    by (auto simp: bm_free_range_def split: sum.splits)
  then show ?case using step_free_range bm_free_range_Ok [of b s e b']
      free_range_in_Ok [of "bm_words b" "bm_bits b" s e ws]
    by (auto simp: bm_exact_def bm_inv_def)
next
  case (step_reset b)
  then show ?case by (simp add: bm_exact_def bm_reset_def bm_inv_def)
qed (auto simp: bm_set_def bm_clear_def bm_alloc_specific_def bm_free_def bm_contains_def
    bm_exact_is_allocated bm_exact_mark bm_exact_unmark split: if_splits)

lemma bm_new_inv: "bm_inv (bm_new n)" "bm_held (bm_new n) = {}" "bm_bits (bm_new n) = 64 * n"
  "bm_used (bm_new n) = 0"
  by (simp_all add: bm_new_def bm_inv_def bm_held_def WORD_BITS_def)

section \<open>Properties\<close>

text \<open>The word-parallel search \<open>scan_words\<close> (masking the words, counting trailing zeros) returns
  exactly what a linear search over the bit indices from \<open>start\<close> up to \<open>bits\<close> returns, for both
  polarities, when the array has just the words the bits need.\<close>

theorem scan_words_linear:
  assumes "length words = words_for bits"
  shows "scan_words words bits start want_free =
    List.find (\<lambda>i. is_bit_set words i = (\<not> want_free)) [start..<bits]"
  by (rule scan_words_exact [OF assms])

theorem scan_words_linear_witness:
  "scan_words [NOT 0, 5] 70 3 True = Some 65 \<and> length [NOT 0 :: u64, 5] = words_for 70"
proof -
  have l: "length [NOT 0 :: u64, 5] = words_for 70" by code_simp
  have "List.find (\<lambda>i. is_bit_set [NOT 0, 5] i = (\<not> True)) [3..<70] = Some 65" by code_simp
  then show ?thesis using scan_words_linear [OF l, of 3 True] l by simp
qed

text \<open>C20: Whatever sequence of operations runs on a bitmap created with the words its bits need
  (set, clear, alloc, alloc_from, alloc_specific, free, alloc_range, free_range, reset), the
  counter equals the number of set bits, no reserved bit is ever set and the capacity is the
  initial one.\<close>

theorem bm_reachable_invariant:
  assumes "bm_new_with_capacity (words_for bits) bits = Some b0" "bm_step\<^sup>*\<^sup>* b0 b"
  shows "bm_bits b = bits \<and> bm_used b = count_used (bm_words b) \<and>
    (\<forall>i. bits \<le> i \<longrightarrow> i < 64 * length (bm_words b) \<longrightarrow> \<not> is_bit_set (bm_words b) i)"
proof -
  have "bm_exact b0" "bm_bits b0 = bits"
    using assms(1) by (auto simp: bm_new_with_capacity_def bm_exact_def bm_inv_def WORD_BITS_def split: if_splits)
  from assms(2) this have "bm_exact b \<and> bm_bits b = bits"
    by (induction rule: rtranclp_induct) (auto dest: bm_step_exact)
  then show ?thesis by (auto simp: bm_exact_def bm_inv_def count_used_card used_bits_def)
qed

theorem bm_reachable_invariant_witness:
  "\<exists>b0 b. bm_new_with_capacity (words_for 70) 70 = Some b0 \<and> bm_step\<^sup>*\<^sup>* b0 b \<and>
     bm_used b = 2 \<and> bm_bits b = 70 \<and> bm_used b = count_used (bm_words b)"
proof -
  define b0 :: bitmap where "b0 = \<lparr>bm_words = [0, 0], bm_bits = 70, bm_used = 0\<rparr>"
  define b1 :: bitmap where "b1 = \<lparr>bm_words = [0, 32], bm_bits = 70, bm_used = 1\<rparr>"
  define b2 :: bitmap where "b2 = \<lparr>bm_words = [1, 32], bm_bits = 70, bm_used = 2\<rparr>"
  have n: "bm_new_with_capacity (words_for 70) 70 = Some b0"
    unfolding b0_def by code_simp
  have "bm_set b0 69 = Ok b1" unfolding b0_def b1_def by code_simp
  moreover have "bm_alloc b1 = Some (0, b2)" unfolding b1_def b2_def by code_simp
  ultimately have "bm_step b0 b1" "bm_step b1 b2" by (auto intro: step_set step_alloc)
  then have s: "bm_step\<^sup>*\<^sup>* b0 b2" by (rule converse_rtranclp_into_rtranclp [OF _ r_into_rtranclp])
  have "bm_used b2 = 2" by (simp add: b2_def)
  then show ?thesis using bm_reachable_invariant [OF n s] n s by blast
qed

text \<open>First fit: \<open>alloc\<close> on a well-formed bitmap takes the least free index, sets exactly that bit,
  keeps the invariant, and fails only when every usable bit is set.\<close>

theorem bm_alloc_first_fit:
  assumes "bm_inv b"
  shows "case bm_alloc b of
      None \<Rightarrow> bm_held b = {..<bm_bits b}
    | Some (i, b') \<Rightarrow> bm_inv b' \<and> bm_bits b' = bm_bits b \<and> i < bm_bits b \<and>
        {..<i} \<subseteq> bm_held b \<and> i \<notin> bm_held b \<and> bm_held b' = insert i (bm_held b)"
proof (cases "bm_alloc b")
  case None
  then show ?thesis using bm_alloc_None [OF assms] by (simp add: bm_universe_def)
next
  case (Some p)
  then show ?thesis using bm_alloc_Some [OF assms, of "fst p" "snd p"] by (cases p) auto
qed

theorem bm_alloc_first_fit_witness:
  "bm_inv (bm_new 2) \<and> (\<exists>b'. bm_alloc (bm_new 2) = Some (0, b') \<and> bm_held b' = {0})"
proof -
  note inv = bm_new_inv(1) [of 2] and h = bm_new_inv(2) [of 2]
  have a: "map_option fst (bm_alloc (bm_new 2)) = Some 0" by code_simp
  show ?thesis using bm_alloc_first_fit [OF inv] inv h a by (auto split: option.splits)
qed

text \<open>C25: A series of \<open>n\<close> allocations on a well-formed bitmap succeeds exactly when \<open>n\<close> bits are
  available; it hands out \<open>n\<close> distinct indices that were free, and giving them all back with
  \<open>free\<close> succeeds and restores the set of held indices.\<close>

theorem bm_alloc_many_distinct:
  assumes "bm_inv b"
  shows "(alloc_many bm_alloc n b = None \<longleftrightarrow> bm_bits b < bm_used b + n) \<and>
    (\<forall>is b'. alloc_many bm_alloc n b = Some (is, b') \<longrightarrow>
      length is = n \<and> distinct is \<and> set is \<inter> bm_held b = {} \<and> bm_held b' = bm_held b \<union> set is \<and>
      (\<exists>b''. release_many (\<lambda>b i. ok_opt (bm_free b i)) is b' = Some b'' \<and> bm_held b'' = bm_held b))"
proof -
  have "card (bm_universe b) = bm_bits b" "card (bm_held b) = bm_used b"
    using assms by (auto simp: bm_abs_defs)
  then have "alloc_many bm_alloc n b = None \<longleftrightarrow> bm_bits b < bm_used b + n"
    using bm_pool.alloc_many_None_iff [OF assms, of n] by simp
  moreover have "length is = n \<and> distinct is \<and> set is \<inter> bm_held b = {} \<and> bm_held b' = bm_held b \<union> set is \<and>
      (\<exists>b''. release_many (\<lambda>b i. ok_opt (bm_free b i)) is b' = Some b'' \<and> bm_held b'' = bm_held b)"
    if "alloc_many bm_alloc n b = Some (is, b')" for "is" b'
    using bm_pool.alloc_many_Some [OF assms that] bm_pool.alloc_many_release_many [OF assms that] by auto
  ultimately show ?thesis by blast
qed

theorem bm_alloc_many_distinct_witness:
  "bm_inv (bm_new 1) \<and> alloc_many bm_alloc 65 (bm_new 1) = None \<and>
   (\<exists>is b'. alloc_many bm_alloc 2 (bm_new 1) = Some (is, b') \<and> distinct is \<and> length is = 2)"
proof -
  note inv = bm_new_inv(1) [of 1]
  have c: "bm_bits (bm_new 1) = 64" "bm_used (bm_new 1) = 0" by (simp_all add: bm_new_inv)
  have "alloc_many bm_alloc 65 (bm_new 1) = None"
    using bm_alloc_many_distinct [OF inv, THEN conjunct1, of 65] c by simp
  moreover have "alloc_many bm_alloc 2 (bm_new 1) \<noteq> None"
    using bm_alloc_many_distinct [OF inv, THEN conjunct1, of 2] c by simp
  then obtain "is" b' where a: "alloc_many bm_alloc 2 (bm_new 1) = Some (is, b')" by auto
  have "distinct is \<and> length is = 2"
    using bm_alloc_many_distinct [OF inv, THEN conjunct2, rule_format, OF a] by blast
  ultimately show ?thesis using inv a by blast
qed

text \<open>\<open>alloc_range\<close> on a well-formed bitmap never panics; it takes the leftmost run of \<open>n\<close> free bits,
  sets exactly that run and adjusts the counter, so that freeing the run gives back the previous
  contents; it fails only when no run of \<open>n\<close> free bits exists.\<close>

theorem bm_alloc_range_leftmost:
  assumes "bm_inv b" "0 < n"
  shows "case bm_alloc_range b n of
      None \<Rightarrow> False
    | Some None \<Rightarrow> \<forall>s. s + n \<le> bm_bits b \<longrightarrow> {s..<s + n} \<inter> bm_held b \<noteq> {}
    | Some (Some (s, b')) \<Rightarrow> bm_inv b' \<and> s + n \<le> bm_bits b \<and> {s..<s + n} \<inter> bm_held b = {} \<and>
        (\<forall>t < s. {t..<t + n} \<inter> bm_held b \<noteq> {}) \<and> bm_held b' = bm_held b \<union> {s..<s + n} \<and>
        (\<exists>b''. bm_free_range b' s (s + n) = Ok b'' \<and> bm_inv b'' \<and> bm_held b'' = bm_held b)"
proof (cases "bm_alloc_range b n")
  case None
  then show ?thesis using bm_alloc_range_no_panic assms by blast
next
  case (Some r)
  show ?thesis
  proof (cases r)
    case None
    then show ?thesis using Some bm_alloc_range_None [OF assms] by simp
  next
    case r: (Some p)
    obtain s b' where p: "p = (s, b')" by force
    note a = bm_alloc_range_Some [OF assms(1) Some [unfolded r p]]
    have "{t..<t + n} \<inter> bm_held b \<noteq> {}" if "t < s" for t
    proof -
      have "\<not> free_run (bm_words b) t n" using a(6) that by blast
      then show ?thesis using a(3) that assms(1) by (force simp: free_run_iff bm_abs_defs used_bits_def)
    qed
    moreover obtain b'' where "bm_free_range b' s (s + n) = Ok b''"
      using bm_free_range_held [OF a(1), of s "s + n"] a by auto
    moreover have "bm_inv b'' \<and> bm_held b'' = bm_held b"
      using bm_free_range_Ok [OF a(1) calculation(2)] a(4,5) by auto
    ultimately show ?thesis using Some r p a by auto
  qed
qed

theorem bm_alloc_range_leftmost_witness:
  "\<exists>b'. bm_alloc_range (bm_new 1) 3 = Some (Some (0, b')) \<and> bm_held b' = {0..<3}"
proof -
  note inv = bm_new_inv(1) [of 1] and h = bm_new_inv(2) [of 1]
  have "map_option (map_option fst) (bm_alloc_range (bm_new 1) 3) = Some (Some 0)" by code_simp
  then obtain b' where a: "bm_alloc_range (bm_new 1) 3 = Some (Some (0, b'))" by auto
  then have "bm_held b' = bm_held (bm_new 1) \<union> {0..<0 + 3}"
    using bm_alloc_range_leftmost [OF inv, of 3] unfolding a by simp
  then show ?thesis using a h by simp
qed

text \<open>C26: A bitmap created over more words than its bits need hands out reserved bits: when the usable
  bits from \<open>start\<close> on are all taken, a bit below \<open>start\<close> is free and a whole further word follows,
  \<open>alloc_from start\<close> returns the index \<open>bits\<close>, which is out of range, and the counter then counts a
  bit outside the bitmap.\<close>

theorem bm_alloc_from_reserved:
  assumes "bm_inv b" "start < bm_bits b" "{start..<bm_bits b} \<subseteq> bm_held b"
    and "bm_used b < bm_bits b" "bm_bits b < 64 * (length (bm_words b) - 1)"
  shows "bm_alloc_from b start = Some (bm_bits b, bm_mark b (bm_bits b)) \<and>
    \<not> bm_contains b (bm_bits b) \<and> \<not> bm_inv (bm_mark b (bm_bits b))"
proof -
  let ?n = "bm_bits b" and ?ws = "bm_words b"
  have len: "?n < 64 * length ?ws" using assms(5) by auto
  have "\<not> is_bit_set ?ws ?n" using assms(1) len by (auto simp: bm_inv_def used_bits_def)
  moreover have "?n div 64 \<noteq> length ?ws - 1" using assms(5) by auto
  ultimately have here: "scan_pred ?ws ?n True ?n" by (simp add: scan_pred_def)
  have "\<not> scan_pred ?ws ?n True j" if "start \<le> j" "j < ?n" for j
    using that assms(3) by (auto simp: scan_pred_def bm_held_def used_bits_def)
  then have "scan_words ?ws ?n start True = Some ?n"
    using here assms(2) len by (simp add: scan_words_general find_upt_Some_iff)
  moreover have "\<not> bm_inv (bm_mark b ?n)" using len by (auto simp: bm_inv_def bm_mark_def)
  ultimately show ?thesis
    using assms(4) by (simp add: bm_alloc_from_def bm_find_free_from_def bm_contains_def)
qed

theorem bm_alloc_from_reserved_witness:
  "\<exists>b0 b. bm_new_with_capacity 3 10 = Some b0 \<and> bm_set b0 9 = Ok b \<and>
     (\<exists>b'. bm_alloc_from b 9 = Some (10, b')) \<and> \<not> bm_contains b 10"
proof -
  let ?b = "\<lparr>bm_words = [512, 0, 0], bm_bits = 10, bm_used = 1\<rparr>"
  have n: "bm_new_with_capacity 3 10 = Some \<lparr>bm_words = [0, 0, 0], bm_bits = 10, bm_used = 0\<rparr>"
    by code_simp
  have s: "bm_set \<lparr>bm_words = [0, 0, 0], bm_bits = 10, bm_used = 0\<rparr> 9 = Ok ?b" by code_simp
  have "bm_inv \<lparr>bm_words = [0, 0, 0], bm_bits = 10, bm_used = 0\<rparr>"
    using bits_set_zero(2) [of 3] by (simp add: bm_inv_def numeral_3_eq_3)
  moreover have h0: "bm_held \<lparr>bm_words = [0, 0, 0], bm_bits = 10, bm_used = 0\<rparr> = {}"
    using bits_set_zero(2) [of 3] by (simp add: bm_held_def numeral_3_eq_3)
  moreover have b: "?b = bm_mark \<lparr>bm_words = [0, 0, 0], bm_bits = 10, bm_used = 0\<rparr> 9" by code_simp
  ultimately have "bm_inv ?b" "bm_held ?b = {9}"
    using bm_mark_inv [of "\<lparr>bm_words = [0, 0, 0], bm_bits = 10, bm_used = 0\<rparr>" 9] by simp_all
  then have "bm_alloc_from ?b 9 = Some (bm_bits ?b, bm_mark ?b (bm_bits ?b)) \<and> \<not> bm_contains ?b (bm_bits ?b)"
    using bm_alloc_from_reserved [of ?b 9] by (simp add: atLeastLessThan_iff subset_iff)
  then have "bm_alloc_from ?b 9 = Some (10, bm_mark ?b 10)" "\<not> bm_contains ?b 10" by simp_all
  then show ?thesis using n s by blast
qed

text \<open>On a bitmap with the words its bits need, draining \<open>iter_free\<close> and \<open>iter_used\<close> ends within
  \<open>bits + 1\<close> calls of \<open>next\<close> and yields, in ascending order, exactly the free and the used indices.\<close>

theorem bm_iter_complete:
  assumes "length (bm_words b) = words_for (bm_bits b)"
  shows "bit_iter_collect (bm_bits b + 1) (bm_iter_free b) = Some (filter (bm_is_free b) [0..<bm_bits b]) \<and>
    bit_iter_collect (bm_bits b + 1) (bm_iter_used b) = Some (filter (bm_is_allocated b) [0..<bm_bits b])"
proof -
  have "filter (\<lambda>i. \<not> is_bit_set (bm_words b) i) [0..<bm_bits b] = filter (bm_is_free b) [0..<bm_bits b]"
    "filter (is_bit_set (bm_words b)) [0..<bm_bits b] = filter (bm_is_allocated b) [0..<bm_bits b]"
    by (auto simp: bm_is_free_def bm_is_allocated_def bm_contains_def intro: filter_cong)
  then show ?thesis
    using assms bit_iter_collect_enough [of "bm_iter_free b" "bm_bits b + 1"]
      bit_iter_collect_enough [of "bm_iter_used b" "bm_bits b + 1"]
    by (simp del: bit_iter_collect.simps add: bm_iter_free_def bm_iter_used_def)
qed

theorem bm_iter_complete_witness:
  "bit_iter_collect 71 (bm_iter_used \<lparr>bm_words = [6, 33], bm_bits = 70, bm_used = 4\<rparr>) = Some [1, 2, 64, 69]"
proof -
  let ?b = "\<lparr>bm_words = [6, 33], bm_bits = 70, bm_used = 4\<rparr>"
  have "length (bm_words ?b) = words_for (bm_bits ?b)" by code_simp
  moreover have "filter (bm_is_allocated ?b) [0..<70] = [1, 2, 64, 69]" by code_simp
  ultimately show ?thesis using bm_iter_complete [of ?b]
    by (simp del: bit_iter_collect.simps)
qed

text \<open>\<open>try_from_le_bytes\<close> rejects exactly the byte strings that are no whole number of words or do not
  fit; otherwise bit \<open>i\<close> of the bitmap is bit \<open>i mod 8\<close> of byte \<open>i div 8\<close>, the counter counts them and the
  invariant holds.\<close>

theorem bm_from_le_bytes_bits:
  "case bm_try_from_le_bytes WORDS bytes of
      Inl e \<Rightarrow> e = LengthMismatch \<and> (length bytes mod 8 \<noteq> 0 \<or> 8 * WORDS < length bytes)
    | Inr b \<Rightarrow> bm_inv b \<and> length (bm_words b) = WORDS \<and> bm_bits b = 8 * length bytes \<and>
        (\<forall>i. bm_is_allocated b i \<longleftrightarrow> i < 8 * length bytes \<and> bit (bytes ! (i div 8)) (i mod 8))"
proof (cases "length bytes mod 8 = 0 \<and> length bytes div 8 \<le> WORDS")
  case False
  then have "length bytes mod 8 \<noteq> 0 \<or> 8 * WORDS < length bytes" by auto
  then show ?thesis using False
    by (auto simp: bm_try_from_le_bytes_def bm_try_from_bytes_with_def Let_def)
next
  case True
  define n where "n = length bytes div 8"
  then have n: "length bytes = 8 * n" "n \<le> WORDS" using True by auto
  let ?ws = "map of_le_bytes (as_chunks n bytes) :: u64 list"
  let ?b = "\<lparr>bm_words = ?ws @ replicate (WORDS - n) 0, bm_bits = 64 * n, bm_used = count_used ?ws\<rparr>"
  have r: "bm_try_from_le_bytes WORDS bytes = Ok ?b"
    using n by (simp add: bm_try_from_le_bytes_def bm_try_from_bytes_with_def Let_def WORD_BITS_def)
  have inv: "bm_inv ?b"
    using n bits_set_bound [of ?ws] by (simp add: bm_inv_def bits_set_append_zero count_used_card)
  have "bm_held ?b = {i. i < 8 * length bytes \<and> bit (bytes ! (i div 8)) (i mod 8)}"
    using n by (simp add: bm_held_def bits_set_append_zero bits_set_le_chunks)
  then show ?thesis using r inv n by (auto simp: bm_is_allocated_iff)
qed

theorem bm_from_le_bytes_bits_witness:
  "case bm_try_from_le_bytes 1 [5, 0, 0, 0, 0, 0, 0, 1] of Inl e \<Rightarrow> False
     | Inr b \<Rightarrow> bm_inv b \<and> bm_bits b = 64 \<and> bm_is_allocated b 56"
proof -
  have "\<exists>b. bm_try_from_le_bytes 1 [5, 0, 0, 0, 0, 0, 0, 1] = Ok b"
    by (simp add: bm_try_from_le_bytes_def bm_try_from_bytes_with_def Let_def)
  moreover have "bit ([5, 0, 0, 0, 0, 0, 0, 1 :: u8] ! (56 div 8)) (56 mod 8)" by simp
  ultimately show ?thesis using bm_from_le_bytes_bits [of "[5, 0, 0, 0, 0, 0, 0, 1]" 1] by auto
qed

end
