(* ===== verification/Btree_Map.thy ===== *)
theory Btree_Map
  imports Prelude
begin

text \<open>
  The standard library's \<open>BTreeMap\<close> as the kernel uses it: an association list whose keys are
  strictly increasing.  \<open>iter\<close> is the list itself; the range queries
  \<open>range(..k).next_back()\<close>, \<open>range(..=k).next_back()\<close> and \<open>range(k..).next()\<close> are
  \<open>bt_prev\<close>, \<open>bt_prev_le\<close> and \<open>bt_next_ge\<close>.  The locale \<open>key_map\<close> is the contract of a map from
  keys to values that the clients rely on.
\<close>

type_synonym ('k, 'v) btree = "('k \<times> 'v) list"

definition bt_get :: "('k, 'v) btree \<Rightarrow> 'k \<Rightarrow> 'v option" where
  "bt_get m k = map_of m k"

fun bt_insert :: "('k::linorder) \<Rightarrow> 'v \<Rightarrow> ('k, 'v) btree \<Rightarrow> ('k, 'v) btree" where
  "bt_insert k v [] = [(k, v)]"
| "bt_insert k v ((a, b) # m) =
     (if k < a then (k, v) # (a, b) # m else if k = a then (k, v) # m else (a, b) # bt_insert k v m)"

fun bt_remove :: "('k::linorder) \<Rightarrow> ('k, 'v) btree \<Rightarrow> ('k, 'v) btree" where
  "bt_remove k [] = []"
| "bt_remove k ((a, b) # m) = (if k = a then m else (a, b) # bt_remove k m)"

definition bt_prev :: "('k::linorder) \<Rightarrow> ('k, 'v) btree \<Rightarrow> ('k \<times> 'v) option" where
  "bt_prev k m = (let xs = takeWhile (\<lambda>(a, _). a < k) m in if xs = [] then None else Some (last xs))"

definition bt_prev_le :: "('k::linorder) \<Rightarrow> ('k, 'v) btree \<Rightarrow> ('k \<times> 'v) option" where
  "bt_prev_le k m = (let xs = takeWhile (\<lambda>(a, _). a \<le> k) m in if xs = [] then None else Some (last xs))"

definition bt_next_ge :: "('k::linorder) \<Rightarrow> ('k, 'v) btree \<Rightarrow> ('k \<times> 'v) option" where
  "bt_next_ge k m = (case dropWhile (\<lambda>(a, _). a < k) m of [] \<Rightarrow> None | x # _ \<Rightarrow> Some x)"

definition bt_inv :: "('k::linorder, 'v) btree \<Rightarrow> bool" where
  "bt_inv m \<longleftrightarrow> sorted_wrt (<) (map fst m)"

section \<open>The map contract\<close>

locale key_map =
  fixes inv :: "'m \<Rightarrow> bool"
    and lookup :: "'m \<Rightarrow> 'k \<Rightarrow> 'v option"
    and insert :: "'k \<Rightarrow> 'v \<Rightarrow> 'm \<Rightarrow> 'm"
    and remove :: "'k \<Rightarrow> 'm \<Rightarrow> 'm"
    and empty :: 'm
  assumes empty_inv: "inv empty"
    and insert_inv: "inv m \<Longrightarrow> inv (insert k v m)"
    and remove_inv: "inv m \<Longrightarrow> inv (remove k m)"
    and lookup_empty: "lookup empty k = None"
    and lookup_insert: "inv m \<Longrightarrow> lookup (insert k v m) j = (if j = k then Some v else lookup m j)"
    and lookup_remove: "inv m \<Longrightarrow> lookup (remove k m) j = (if j = k then None else lookup m j)"
begin

lemma fold_insert_inv: "inv m \<Longrightarrow> inv (fold (\<lambda>(k, v). insert k v) kvs m)"
  by (induction kvs arbitrary: m) (auto simp: insert_inv)

lemma lookup_fold_insert:
  "inv m \<Longrightarrow> lookup (fold (\<lambda>(k, v). insert k v) kvs m) j =
     (case map_of (rev kvs) j of None \<Rightarrow> lookup m j | Some v \<Rightarrow> Some v)"
proof (induction kvs arbitrary: m)
  case Nil
  then show ?case by simp
next
  case (Cons kv kvs)
  obtain k v where kv: "kv = (k, v)" by force
  show ?case using Cons by (auto simp: kv insert_inv lookup_insert map_add_def split: option.splits)
qed

lemma lookup_insert_remove:
  "inv m \<Longrightarrow> lookup m k = None \<Longrightarrow> lookup (remove k (insert k v m)) = lookup m"
  by (auto simp: lookup_remove lookup_insert insert_inv fun_eq_iff)

end

section \<open>Sorted association lists\<close>

lemma bt_inv_Nil [simp]: "bt_inv []"
  by (simp add: bt_inv_def)

lemma bt_inv_Cons [simp]:
  "bt_inv ((a, b) # m) \<longleftrightarrow> bt_inv m \<and> (\<forall>x\<in>fst ` set m. a < x)"
  by (auto simp: bt_inv_def)

lemma bt_inv_append:
  "bt_inv (xs @ ys) \<longleftrightarrow> bt_inv xs \<and> bt_inv ys \<and> (\<forall>x\<in>fst ` set xs. \<forall>y\<in>fst ` set ys. x < y)"
  by (auto simp: bt_inv_def sorted_wrt_append)

lemma bt_inv_distinct: "bt_inv m \<Longrightarrow> distinct (map fst m)"
  by (auto simp: bt_inv_def strict_sorted_iff)

lemma bt_get_iff: "bt_inv m \<Longrightarrow> bt_get m k = Some v \<longleftrightarrow> (k, v) \<in> set m"
  by (simp add: bt_get_def bt_inv_distinct)

lemma bt_get_None_iff: "bt_get m k = None \<longleftrightarrow> k \<notin> fst ` set m"
  by (simp add: bt_get_def map_of_eq_None_iff)

lemma keys_bt_insert: "fst ` set (bt_insert k v m) = insert k (fst ` set m)"
  by (induction k v m rule: bt_insert.induct) auto

lemma bt_insert_inv: "bt_inv m \<Longrightarrow> bt_inv (bt_insert k v m)"
  by (induction k v m rule: bt_insert.induct) (auto simp: keys_bt_insert)

lemma set_bt_remove: "bt_inv m \<Longrightarrow> set (bt_remove k m) = {x \<in> set m. fst x \<noteq> k}"
proof (induction k m rule: bt_remove.induct)
  case (2 k a b m)
  then have "\<forall>x\<in>set m. a < fst x" by simp
  then have "{x \<in> set m. fst x \<noteq> a} = set m" by auto
  then show ?case using 2 by (cases "k = a") auto
qed simp

lemma bt_remove_inv: "bt_inv m \<Longrightarrow> bt_inv (bt_remove k m)"
  by (induction k m rule: bt_remove.induct) (auto simp: set_bt_remove)

lemma bt_get_insert: "bt_get (bt_insert k v m) j = (if j = k then Some v else bt_get m j)"
  by (induction k v m rule: bt_insert.induct) (auto simp: bt_get_def)

lemma bt_get_remove: "bt_inv m \<Longrightarrow> bt_get (bt_remove k m) j = (if j = k then None else bt_get m j)"
proof (induction k m rule: bt_remove.induct)
  case (2 k a b m)
  then show ?case using bt_get_None_iff [of m k] by (auto simp: bt_get_def)
qed (simp add: bt_get_def)

lemma set_bt_insert:
  "bt_inv m \<Longrightarrow> set (bt_insert k v m) = insert (k, v) {x \<in> set m. fst x \<noteq> k}"
proof (induction k v m rule: bt_insert.induct)
  case (2 k v a b m)
  then have "\<forall>x\<in>set m. a < fst x" by simp
  then have "{x \<in> set m. fst x \<noteq> a} = set m" "k < a \<Longrightarrow> {x \<in> set m. fst x \<noteq> k} = set m" by auto
  with 2 show ?case by (cases k a rule: linorder_cases) (simp_all, auto)
qed simp

interpretation bt_map: key_map bt_inv bt_get bt_insert bt_remove "[]"
  by unfold_locales (simp_all add: bt_insert_inv bt_remove_inv bt_get_insert bt_get_remove,
      simp add: bt_get_def)

subsection \<open>Positions\<close>

lemma bt_insert_mid:
  assumes "\<forall>x\<in>fst ` set xs. x < k" "\<forall>y\<in>fst ` set ys. k < y"
  shows "bt_insert k v (xs @ ys) = xs @ (k, v) # ys"
  using assms
proof (induction xs)
  case Nil
  then show ?case by (cases ys) auto
qed auto

lemma bt_insert_replace:
  assumes "\<forall>x\<in>fst ` set xs. x < k"
  shows "bt_insert k v (xs @ (k, w) # ys) = xs @ (k, v) # ys"
  using assms by (induction xs) auto

lemma bt_remove_mid: "k \<notin> fst ` set xs \<Longrightarrow> bt_remove k (xs @ (k, v) # ys) = xs @ ys"
  by (induction xs) auto

lemma bt_remove_absent: "k \<notin> fst ` set m \<Longrightarrow> bt_remove k m = m"
  by (induction m) auto

lemma takeWhile_prefix:
  assumes "\<forall>x\<in>set xs. P x" "\<forall>y\<in>set ys. \<not> P y"
  shows "takeWhile P (xs @ ys) = xs" "dropWhile P (xs @ ys) = ys"
proof -
  have "takeWhile P ys = []" "dropWhile P ys = ys" using assms(2) by (cases ys; auto)+
  then show "takeWhile P (xs @ ys) = xs" "dropWhile P (xs @ ys) = ys" using assms(1)
    by (simp_all add: takeWhile_append2 dropWhile_append2)
qed

lemma bt_prev_append:
  assumes "\<forall>x\<in>fst ` set xs. x < k" "\<forall>y\<in>fst ` set ys. k \<le> y"
  shows "bt_prev k (xs @ ys) = (if xs = [] then None else Some (last xs))"
proof -
  have "takeWhile (\<lambda>(a, _). a < k) (xs @ ys) = xs"
    using assms by (intro takeWhile_prefix(1)) (auto simp: split_beta)
  then show ?thesis by (simp add: bt_prev_def)
qed

lemma bt_prev_le_append:
  assumes "\<forall>x\<in>fst ` set xs. x \<le> k" "\<forall>y\<in>fst ` set ys. k < y"
  shows "bt_prev_le k (xs @ ys) = (if xs = [] then None else Some (last xs))"
proof -
  have "takeWhile (\<lambda>(a, _). a \<le> k) (xs @ ys) = xs"
    using assms by (intro takeWhile_prefix(1)) (auto simp: split_beta)
  then show ?thesis by (simp add: bt_prev_le_def)
qed

lemma bt_next_ge_append:
  assumes "\<forall>x\<in>fst ` set xs. x < k" "\<forall>y\<in>fst ` set ys. k \<le> y"
  shows "bt_next_ge k (xs @ ys) = (if ys = [] then None else Some (hd ys))"
proof -
  have "dropWhile (\<lambda>(a, _). a < k) (xs @ ys) = ys"
    using assms by (intro takeWhile_prefix(2)) (auto simp: split_beta)
  then show ?thesis by (auto simp: bt_next_ge_def split: list.splits)
qed

lemma bt_split:
  assumes "bt_inv m"
  obtains xs ys where "m = xs @ ys" "\<forall>x\<in>fst ` set xs. x < k" "\<forall>y\<in>fst ` set ys. k \<le> y"
proof -
  let ?xs = "takeWhile (\<lambda>(a, _). a < k) m" and ?ys = "dropWhile (\<lambda>(a, _). a < k) m"
  have "\<forall>x\<in>fst ` set ?xs. x < k" by (auto dest: set_takeWhileD)
  moreover have "\<forall>y\<in>fst ` set ?ys. k \<le> y"
  proof (cases ?ys)
    case (Cons y zs)
    then have "k \<le> fst y" using hd_dropWhile [of "\<lambda>(a, _). a < k" m] by (auto simp: split_beta)
    have "bt_inv ?ys" using assms bt_inv_append [of ?xs ?ys] by simp
    then have "fst y < fst z" if "z \<in> set zs" for z
      using that unfolding Cons by (cases y) auto
    then have "k \<le> fst z" if "z \<in> set (y # zs)" for z
      using that \<open>k \<le> fst y\<close> order.trans less_imp_le by (metis set_ConsD)
    then show ?thesis unfolding Cons by blast
  next
    case Nil
    then show ?thesis by (simp only: Nil) simp
  qed
  ultimately show ?thesis by (intro that [of ?xs ?ys]) (simp_all only: takeWhile_dropWhile_id)
qed

end
