(* ===== verification/Id_Alloc.thy ===== *)
theory Id_Alloc
  imports Btree_Map
begin

text \<open>
  The crate \<open>athera-id-alloc\<close> (crates/athera-id-alloc/src/lib.rs): an allocator of identifiers
  over a table of free ranges (\<open>FlatAlloc\<close>) and the two-level allocator built on it
  (\<open>IdAlloc\<close>), which reserves aligned blocks of \<open>2 ^ N\<close> identifiers as majors.

  The trait \<open>Id\<close> is implemented for the unsigned integers; an identifier is a natural number below
  \<open>2 ^ w\<close>, where \<open>w\<close> (\<open>T::BITS\<close>) is an argument of the operations that use \<open>next\<close> or \<open>from_bits\<close>,
  and \<open>N\<close> is the constant parameter \<open>MINOR_BITS\<close>.  Bit computations are on 128 bit words, as in the
  code.  \<open>None\<close> as the result of \<open>fa_alloc_at\<close>, \<open>ia_alloc_at\<close> and \<open>ia_alloc_major\<close> is the panic of an
  \<open>expect\<close>.
\<close>

section \<open>Identifiers\<close>

type_synonym u128 = "128 word"

definition id_next :: "nat \<Rightarrow> nat \<Rightarrow> nat option" where
  "id_next w n = (if n + 1 < 2 ^ w then Some (n + 1) else None)"

definition id_prev :: "nat \<Rightarrow> nat option" where
  "id_prev n = checked_sub n 1"

definition distance_to :: "nat \<Rightarrow> nat \<Rightarrow> nat" where
  "distance_to n other = other - n"

definition to_bits :: "nat \<Rightarrow> u128" where
  "to_bits n = of_nat n"

definition from_bits :: "nat \<Rightarrow> u128 \<Rightarrow> nat" where
  "from_bits w b = unat b mod 2 ^ w"

datatype IdAllocError =
  IdOutOfRange | AlreadyAllocated | IdAlreadyFree | EmptyRange | RangeBusy | NotAligned | MajorNotFound

definition low_mask :: "nat \<Rightarrow> u128" where
  "low_mask n = (if n = 0 then 0 else if 128 \<le> n then NOT 0 else push_bit n 1 - 1)"

definition block_size :: "nat \<Rightarrow> u128" where
  "block_size n = (if n = 0 then 1 else if 128 \<le> n then 0 else push_bit n 1)"

section \<open>The free-range table\<close>

type_synonym ranges = "(nat, nat) btree"

definition insert_free_range :: "nat \<Rightarrow> ranges \<Rightarrow> nat \<Rightarrow> ranges" where
  "insert_free_range w ranges n =
     (let new_start = n;
          new_end = (case id_next w n of None \<Rightarrow> n | Some m \<Rightarrow> m);
          (new_start, ranges) =
            (case bt_prev n ranges of
               Some (s, e) \<Rightarrow> if e = n then (s, bt_remove s ranges) else (new_start, ranges)
             | None \<Rightarrow> (new_start, ranges));
          (new_end, ranges) =
            (case id_next w n of
               None \<Rightarrow> (new_end, ranges)
             | Some next \<Rightarrow>
                 (case bt_get ranges next of
                    None \<Rightarrow> (new_end, ranges)
                  | Some e \<Rightarrow> (e, bt_remove next ranges)))
      in bt_insert new_start new_end ranges)"

record flat_alloc =
  fa_start :: nat
  fa_end :: nat
  fa_inuse :: nat
  fa_ranges :: ranges

definition fa_new :: "nat \<Rightarrow> nat \<Rightarrow> flat_alloc" where
  "fa_new range_start range_end =
     \<lparr>fa_start = range_start, fa_end = range_end, fa_inuse = 0,
      fa_ranges = (if range_start < range_end then bt_insert range_start range_end [] else [])\<rparr>"

definition fa_contains :: "flat_alloc \<Rightarrow> nat \<Rightarrow> bool" where
  "fa_contains f i \<longleftrightarrow> fa_start f \<le> i \<and> i < fa_end f"

definition fa_size :: "flat_alloc \<Rightarrow> nat" where
  "fa_size f = distance_to (fa_start f) (fa_end f)"

definition fa_available :: "flat_alloc \<Rightarrow> nat" where
  "fa_available f = sum_list (map (\<lambda>(s, e). distance_to s e) (fa_ranges f))"

fun fa_is_allocated_loop :: "ranges \<Rightarrow> nat \<Rightarrow> bool" where
  "fa_is_allocated_loop [] i = True"
| "fa_is_allocated_loop ((start, rend) # rs) i =
     (if start \<le> i \<and> i < rend then False
      else if i < start then True
      else fa_is_allocated_loop rs i)"

definition fa_is_allocated :: "flat_alloc \<Rightarrow> nat \<Rightarrow> bool" where
  "fa_is_allocated f i = (if \<not> fa_contains f i then False else fa_is_allocated_loop (fa_ranges f) i)"

fun find_aligned_block_loop :: "nat \<Rightarrow> ranges \<Rightarrow> u128 \<Rightarrow> u128 \<Rightarrow> nat option" where
  "find_aligned_block_loop w [] lmask block = None"
| "find_aligned_block_loop w ((s, e) # rs) lmask block =
     (let aligned = (to_bits s + lmask) AND NOT lmask
      in if aligned + block \<le> to_bits e then Some (from_bits w aligned)
         else find_aligned_block_loop w rs lmask block)"

definition fa_find_aligned_block :: "nat \<Rightarrow> flat_alloc \<Rightarrow> nat \<Rightarrow> nat option" where
  "fa_find_aligned_block w f n =
     (if block_size n = 0 then None
      else find_aligned_block_loop w (fa_ranges f) (low_mask n) (block_size n))"

definition fa_alloc :: "nat \<Rightarrow> flat_alloc \<Rightarrow> (nat \<times> flat_alloc) option" where
  "fa_alloc w f =
     (if fa_available f = 0 then None
      else case fa_ranges f of [] \<Rightarrow> None
         | (i, rend) # rs \<Rightarrow>
             let ranges = (case id_next w i of None \<Rightarrow> rs
                           | Some next \<Rightarrow> if next < rend then bt_insert next rend rs else rs)
             in Some (i, f\<lparr>fa_inuse := fa_inuse f + 1, fa_ranges := ranges\<rparr>))"

definition fa_alloc_at :: "nat \<Rightarrow> flat_alloc \<Rightarrow> nat \<Rightarrow> (IdAllocError, flat_alloc) result option" where
  "fa_alloc_at w f i =
     (if \<not> fa_contains f i then Some (Err IdOutOfRange)
      else if fa_is_allocated f i then Some (Err AlreadyAllocated)
      else case bt_prev_le i (fa_ranges f) of None \<Rightarrow> None
         | Some (start, rend) \<Rightarrow>
             let ranges = bt_remove start (fa_ranges f);
                 ranges = (if start < i then bt_insert start i ranges else ranges);
                 ranges = (case id_next w i of None \<Rightarrow> ranges
                           | Some next \<Rightarrow> if next < rend then bt_insert next rend ranges else ranges)
             in Some (Ok (f\<lparr>fa_inuse := fa_inuse f + 1, fa_ranges := ranges\<rparr>)))"

definition fa_dealloc :: "nat \<Rightarrow> flat_alloc \<Rightarrow> nat \<Rightarrow> (IdAllocError, flat_alloc) result" where
  "fa_dealloc w f i =
     (if \<not> fa_contains f i then Err IdOutOfRange
      else if \<not> fa_is_allocated f i then Err IdAlreadyFree
      else Ok (f\<lparr>fa_ranges := insert_free_range w (fa_ranges f) i, fa_inuse := fa_inuse f - 1\<rparr>))"

definition fa_carve :: "flat_alloc \<Rightarrow> nat \<Rightarrow> nat \<Rightarrow> (IdAllocError, flat_alloc) result" where
  "fa_carve f range_start range_end =
     (if range_end \<le> range_start then Err EmptyRange
      else if range_start < fa_start f \<or> fa_end f < range_end then Err IdOutOfRange
      else case bt_prev_le range_start (fa_ranges f) of None \<Rightarrow> Err RangeBusy
         | Some (fs, fe) \<Rightarrow>
             if fe < range_end then Err RangeBusy
             else let ranges = bt_remove fs (fa_ranges f);
                      ranges = (if fs < range_start then bt_insert fs range_start ranges else ranges);
                      ranges = (if range_end < fe then bt_insert range_end fe ranges else ranges)
                  in Ok (f\<lparr>fa_ranges := ranges\<rparr>))"

definition fa_return_range :: "flat_alloc \<Rightarrow> nat \<Rightarrow> nat \<Rightarrow> flat_alloc" where
  "fa_return_range f range_start range_end =
     (if range_end \<le> range_start then f
      else let ranges = fa_ranges f;
               (new_start, ranges) =
                 (case bt_prev range_start ranges of
                    Some (s, e) \<Rightarrow> if e = range_start then (s, bt_remove s ranges) else (range_start, ranges)
                  | None \<Rightarrow> (range_start, ranges));
               (new_end, ranges) =
                 (case bt_get ranges range_end of
                    None \<Rightarrow> (range_end, ranges)
                  | Some e \<Rightarrow> (e, bt_remove range_end ranges))
           in f\<lparr>fa_ranges := bt_insert new_start new_end ranges\<rparr>)"

definition fa_reset :: "flat_alloc \<Rightarrow> nat \<Rightarrow> nat \<Rightarrow> flat_alloc" where
  "fa_reset f range_start range_end =
     f\<lparr>fa_start := range_start, fa_end := range_end, fa_inuse := 0,
       fa_ranges := (if range_start < range_end then bt_insert range_start range_end [] else [])\<rparr>"

section \<open>The two-level allocator\<close>

text \<open>A major slot of the code has the one field \<open>inner\<close>; the slot is its inner allocator.\<close>

record id_alloc =
  ia_flat :: flat_alloc
  ia_majors :: "(nat, flat_alloc) btree"

definition ia_new :: id_alloc where
  "ia_new = \<lparr>ia_flat = fa_new 0 0, ia_majors = []\<rparr>"

definition ia_validate_range :: "nat \<Rightarrow> nat \<Rightarrow> nat \<Rightarrow> nat \<Rightarrow> (IdAllocError, unit) result" where
  "ia_validate_range w N range_start range_end =
     (if w \<le> N then Err IdOutOfRange
      else if to_bits range_start AND low_mask N \<noteq> 0 then Err NotAligned
      else Ok ())"

definition ia_from_range :: "nat \<Rightarrow> nat \<Rightarrow> nat \<Rightarrow> nat \<Rightarrow> (IdAllocError, id_alloc) result" where
  "ia_from_range w N range_start range_end =
     (case ia_validate_range w N range_start range_end of Inl e \<Rightarrow> Err e
      | Inr _ \<Rightarrow> Ok \<lparr>ia_flat = fa_new range_start range_end, ia_majors = []\<rparr>)"

definition ia_init :: "nat \<Rightarrow> nat \<Rightarrow> id_alloc \<Rightarrow> nat \<Rightarrow> nat \<Rightarrow> (IdAllocError, id_alloc) result" where
  "ia_init w N a range_start range_end =
     (case ia_validate_range w N range_start range_end of Inl e \<Rightarrow> Err e
      | Inr _ \<Rightarrow> Ok (a\<lparr>ia_flat := fa_reset (ia_flat a) range_start range_end, ia_majors := []\<rparr>))"

definition ia_block_end :: "nat \<Rightarrow> nat \<Rightarrow> nat \<Rightarrow> nat" where
  "ia_block_end w N base = from_bits w (to_bits base + block_size N)"

definition ia_token_base :: "nat \<Rightarrow> nat \<Rightarrow> nat \<Rightarrow> nat" where
  "ia_token_base w N i = from_bits w (to_bits i AND NOT (low_mask N))"

definition ia_size :: "id_alloc \<Rightarrow> nat" where
  "ia_size a = fa_size (ia_flat a)"

definition ia_used :: "id_alloc \<Rightarrow> nat" where
  "ia_used a = fa_inuse (ia_flat a) + sum_list (map (\<lambda>(_, s). fa_inuse s) (ia_majors a))"

definition ia_available :: "id_alloc \<Rightarrow> nat" where
  "ia_available a = fa_available (ia_flat a) + sum_list (map (\<lambda>(_, s). fa_available s) (ia_majors a))"

definition ia_is_full :: "id_alloc \<Rightarrow> bool" where
  "ia_is_full a \<longleftrightarrow> ia_available a = 0"

definition ia_is_empty :: "id_alloc \<Rightarrow> bool" where
  "ia_is_empty a \<longleftrightarrow> ia_used a = 0"

definition ia_contains :: "id_alloc \<Rightarrow> nat \<Rightarrow> bool" where
  "ia_contains a i = fa_contains (ia_flat a) i"

definition ia_is_allocated :: "nat \<Rightarrow> nat \<Rightarrow> id_alloc \<Rightarrow> nat \<Rightarrow> bool" where
  "ia_is_allocated w N a i =
     (if \<not> fa_contains (ia_flat a) i then False
      else case bt_get (ia_majors a) (ia_token_base w N i) of
          Some slot \<Rightarrow> fa_is_allocated slot i
        | None \<Rightarrow> fa_is_allocated (ia_flat a) i)"

definition ia_reset :: "id_alloc \<Rightarrow> id_alloc" where
  "ia_reset a =
     a\<lparr>ia_flat := fa_reset (ia_flat a) (fa_start (ia_flat a)) (fa_end (ia_flat a)), ia_majors := []\<rparr>"

definition ia_alloc :: "nat \<Rightarrow> id_alloc \<Rightarrow> (nat \<times> id_alloc) option" where
  "ia_alloc w a =
     (case fa_alloc w (ia_flat a) of None \<Rightarrow> None | Some (i, f) \<Rightarrow> Some (i, a\<lparr>ia_flat := f\<rparr>))"

definition ia_alloc_at :: "nat \<Rightarrow> nat \<Rightarrow> id_alloc \<Rightarrow> nat \<Rightarrow> (IdAllocError, id_alloc) result option" where
  "ia_alloc_at w N a i =
     (if \<not> fa_contains (ia_flat a) i then Some (Err IdOutOfRange)
      else let base = ia_token_base w N i
           in case bt_get (ia_majors a) base of
                Some slot \<Rightarrow>
                  map_option (map_sum id (\<lambda>s. a\<lparr>ia_majors := bt_insert base s (ia_majors a)\<rparr>))
                    (fa_alloc_at w slot i)
              | None \<Rightarrow>
                  map_option (map_sum id (\<lambda>f. a\<lparr>ia_flat := f\<rparr>)) (fa_alloc_at w (ia_flat a) i))"

definition ia_dealloc :: "nat \<Rightarrow> nat \<Rightarrow> id_alloc \<Rightarrow> nat \<Rightarrow> (IdAllocError, id_alloc) result" where
  "ia_dealloc w N a i =
     (if \<not> fa_contains (ia_flat a) i then Err IdOutOfRange
      else let base = ia_token_base w N i
           in case bt_get (ia_majors a) base of
                Some slot \<Rightarrow>
                  map_sum id (\<lambda>s. a\<lparr>ia_majors := bt_insert base s (ia_majors a)\<rparr>) (fa_dealloc w slot i)
              | None \<Rightarrow> map_sum id (\<lambda>f. a\<lparr>ia_flat := f\<rparr>) (fa_dealloc w (ia_flat a) i))"

definition ia_alloc_major :: "nat \<Rightarrow> nat \<Rightarrow> id_alloc \<Rightarrow> (nat \<times> id_alloc) option option" where
  "ia_alloc_major w N a =
     (case fa_find_aligned_block w (ia_flat a) N of None \<Rightarrow> Some None
      | Some base \<Rightarrow>
          let rend = ia_block_end w N base
          in case fa_carve (ia_flat a) base rend of Inl _ \<Rightarrow> None
             | Inr f \<Rightarrow>
                 Some (Some (base, a\<lparr>ia_flat := f,
                   ia_majors := bt_insert base (fa_new base rend) (ia_majors a)\<rparr>)))"

definition ia_alloc_major_at :: "nat \<Rightarrow> nat \<Rightarrow> id_alloc \<Rightarrow> nat \<Rightarrow> (IdAllocError, nat \<times> id_alloc) result" where
  "ia_alloc_major_at w N a base =
     (if to_bits base AND low_mask N \<noteq> 0 then Err NotAligned
      else if \<not> fa_contains (ia_flat a) base then Err IdOutOfRange
      else let end_bits = to_bits base + block_size N
           in if end_bits = 0 \<or> to_bits (fa_end (ia_flat a)) < end_bits then Err IdOutOfRange
              else if bt_get (ia_majors a) base \<noteq> None then Err AlreadyAllocated
              else let rend = from_bits w end_bits
                   in case fa_carve (ia_flat a) base rend of Inl e \<Rightarrow> Err e
                      | Inr f \<Rightarrow>
                          Ok (base, a\<lparr>ia_flat := f,
                            ia_majors := bt_insert base (fa_new base rend) (ia_majors a)\<rparr>))"

definition ia_alloc_minor :: "nat \<Rightarrow> id_alloc \<Rightarrow> nat \<Rightarrow> (nat \<times> id_alloc) option" where
  "ia_alloc_minor w a major =
     (case bt_get (ia_majors a) major of None \<Rightarrow> None
      | Some slot \<Rightarrow>
          (case fa_alloc w slot of None \<Rightarrow> None
           | Some (i, s) \<Rightarrow> Some (i, a\<lparr>ia_majors := bt_insert major s (ia_majors a)\<rparr>)))"

definition ia_dealloc_major :: "nat \<Rightarrow> nat \<Rightarrow> id_alloc \<Rightarrow> nat \<Rightarrow> (IdAllocError, id_alloc) result" where
  "ia_dealloc_major w N a base =
     (case bt_get (ia_majors a) base of None \<Rightarrow> Err MajorNotFound
      | Some _ \<Rightarrow>
          Ok (a\<lparr>ia_majors := bt_remove base (ia_majors a),
                ia_flat := fa_return_range (ia_flat a) base (ia_block_end w N base)\<rparr>))"

end
