(* ===== verification/Id_Alloc_Correct.thy ===== *)
theory Id_Alloc_Correct
  imports Id_Alloc Index_Pool
begin

text \<open>
  Correctness of the id allocator.  A range table is well formed (\<open>ranges_wf\<close>) when its ranges
  are non-empty, inside the bounds, sorted and separated by at least one taken identifier, i.e.
  fully coalesced; its abstraction is the set \<open>free_ids\<close>.  Adding and removing a range act on that
  set as union and difference, which gives the contract of \<open>FlatAlloc\<close>; the two-level
  allocator keeps the flat table and the blocks of the majors disjoint.
\<close>

fun ranges_wf :: "nat \<Rightarrow> nat \<Rightarrow> ranges \<Rightarrow> bool" where
  "ranges_wf lo hi [] = True"
| "ranges_wf lo hi ((s, e) # m) = (lo \<le> s \<and> s < e \<and> e \<le> hi \<and> ranges_wf (Suc e) hi m)"

fun upper :: "nat \<Rightarrow> ranges \<Rightarrow> nat" where
  "upper lo [] = lo"
| "upper lo ((s, e) # m) = upper (Suc e) m"

definition free_ids :: "ranges \<Rightarrow> nat set" where
  "free_ids m = (\<Union>(s, e)\<in>set m. {s..<e})"

section \<open>Range tables\<close>

lemma free_ids_simps [simp]:
  "free_ids [] = {}" "free_ids ((s, e) # m) = {s..<e} \<union> free_ids m"
  "free_ids (xs @ ys) = free_ids xs \<union> free_ids ys"
  by (auto simp: free_ids_def)

lemma mem_free_ids: "i \<in> free_ids m \<longleftrightarrow> (\<exists>s e. (s, e) \<in> set m \<and> s \<le> i \<and> i < e)"
  by (force simp: free_ids_def)

lemma free_idsI: "(s, e) \<in> set m \<Longrightarrow> s \<le> i \<Longrightarrow> i < e \<Longrightarrow> i \<in> free_ids m"
  by (auto simp: mem_free_ids)

lemma finite_free_ids [simp]: "finite (free_ids m)"
  by (auto simp: free_ids_def)

lemma ranges_wf_append:
  "ranges_wf lo hi (xs @ ys) \<longleftrightarrow> ranges_wf lo hi xs \<and> ranges_wf (upper lo xs) hi ys"
  by (induction xs arbitrary: lo) auto

lemma upper_append [simp]: "upper lo (xs @ ys) = upper (upper lo xs) ys"
  by (induction xs arbitrary: lo) auto

lemma ranges_wf_mono: "ranges_wf lo hi m \<Longrightarrow> lo' \<le> lo \<Longrightarrow> ranges_wf lo' hi m"
  by (cases m) auto

lemma upper_ge: "ranges_wf lo hi m \<Longrightarrow> lo \<le> upper lo m"
  by (induction lo hi m rule: ranges_wf.induct) auto

lemma ranges_wf_mem:
  "ranges_wf lo hi m \<Longrightarrow> (s, e) \<in> set m \<Longrightarrow> lo \<le> s \<and> s < e \<and> e \<le> hi \<and> Suc e \<le> upper lo m"
proof (induction lo hi m rule: ranges_wf.induct)
  case (2 lo hi s' e' m)
  then show ?case using upper_ge [of "Suc e'" hi m] by auto
qed simp

lemma ranges_wf_bt_inv: "ranges_wf lo hi m \<Longrightarrow> bt_inv m"
proof (induction lo hi m rule: ranges_wf.induct)
  case (2 lo hi s e m)
  have "s < fst x" if "x \<in> set m" for x
    using 2 that ranges_wf_mem [of "Suc e" hi m "fst x" "snd x"] by simp
  then show ?case using 2 by simp
qed simp

lemma free_ids_bounds: "ranges_wf lo hi m \<Longrightarrow> free_ids m \<subseteq> {lo..<hi}"
  by (force simp: free_ids_def dest: ranges_wf_mem)

lemma free_ids_upper: "ranges_wf lo hi m \<Longrightarrow> x \<in> free_ids m \<Longrightarrow> Suc x < upper lo m"
  by (force simp: free_ids_def dest: ranges_wf_mem)

lemma card_free_ids:
  "ranges_wf lo hi m \<Longrightarrow> card (free_ids m) = sum_list (map (\<lambda>(s, e). e - s) m)"
proof (induction lo hi m rule: ranges_wf.induct)
  case (2 lo hi s e m)
  have "{s..<e} \<inter> free_ids m = {}" using 2 free_ids_bounds [of "Suc e" hi m] by auto
  then show ?case using 2 by (simp add: card_Un_disjoint)
qed simp

lemma is_allocated_loop_iff:
  "ranges_wf lo hi m \<Longrightarrow> fa_is_allocated_loop m i \<longleftrightarrow> i \<notin> free_ids m"
proof (induction m i arbitrary: lo rule: fa_is_allocated_loop.induct)
  case (2 s e m i)
  then show ?case using free_ids_bounds [of "Suc e" hi m] by auto
qed simp

lemma range_of_free:
  assumes "i \<in> free_ids m"
  obtains xs s e ys where "m = xs @ (s, e) # ys" "s \<le> i" "i < e"
  using assms by (auto simp: free_ids_def dest: split_list)

lemma split_at_taken:
  assumes "ranges_wf lo hi m" "{a..<b} \<inter> free_ids m = {}" "a < b"
  obtains xs ys where "m = xs @ ys" "\<forall>(s, e)\<in>set xs. e \<le> a" "\<forall>(s, e)\<in>set ys. b \<le> s"
proof -
  obtain xs ys where xy: "m = xs @ ys" "\<forall>x\<in>fst ` set xs. x < a" "\<forall>y\<in>fst ` set ys. a \<le> y"
    using bt_split [OF ranges_wf_bt_inv [OF assms(1)]] by metis
  have "e \<le> a" if "(s, e) \<in> set xs" for s e
  proof (rule ccontr)
    assume "\<not> e \<le> a"
    moreover have "s < a" using xy(2) that by force
    ultimately have "a \<in> free_ids m" by (intro free_idsI [of s e]) (use that xy(1) in auto)
    then show False using assms(2,3) by (auto simp: disjoint_iff)
  qed
  moreover have "b \<le> s" if "(s, e) \<in> set ys" for s e
  proof (rule ccontr)
    assume "\<not> b \<le> s"
    moreover have "a \<le> s" using xy(3) that by force
    moreover have "s < e" using ranges_wf_mem [OF assms(1)] that xy(1) by auto
    ultimately have "s \<in> {a..<b}" "s \<in> free_ids m" using that xy(1) by (auto intro: free_idsI)
    then show False using assms(2) by auto
  qed
  ultimately show ?thesis using that xy(1) by blast
qed

subsection \<open>Taking a range out\<close>

definition cut_range :: "nat \<Rightarrow> nat \<Rightarrow> nat \<Rightarrow> nat \<Rightarrow> ranges" where
  "cut_range s e a b = (if s < a then [(s, a)] else []) @ (if b < e then [(b, e)] else [])"

lemma cut_range_ops:
  assumes "ranges_wf lo hi (xs @ (s, e) # ys)" "s \<le> a" "a < b" "b \<le> e"
  shows "(let rs = bt_remove s (xs @ (s, e) # ys);
              rs = (if s < a then bt_insert s a rs else rs)
          in if b < e then bt_insert b e rs else rs) = xs @ cut_range s e a b @ ys"
proof -
  have w: "ranges_wf lo hi xs" "upper lo xs \<le> s" "ranges_wf (Suc e) hi ys"
    using assms(1) by (auto simp: ranges_wf_append)
  have xs: "\<forall>x\<in>fst ` set xs. x < s" using w(2) ranges_wf_mem [OF w(1)] by fastforce
  have ys: "\<forall>y\<in>fst ` set ys. e < y" using ranges_wf_mem [OF w(3)] by fastforce
  have r: "bt_remove s (xs @ (s, e) # ys) = xs @ ys" using xs by (intro bt_remove_mid) auto
  have i1: "bt_insert s a (xs @ ys) = xs @ (s, a) # ys"
    using xs ys assms by (intro bt_insert_mid) fastforce+
  have i2: "bt_insert b e (xs @ (s, a) # ys) = xs @ (s, a) # (b, e) # ys" if "b < e"
    using xs ys assms that bt_insert_mid [of "xs @ [(s, a)]" b ys e] by fastforce
  have i3: "bt_insert b e (xs @ ys) = xs @ (b, e) # ys" if "b < e"
    using xs ys assms that by (intro bt_insert_mid) fastforce+
  show ?thesis using r i1 i2 i3 by (simp add: Let_def cut_range_def)
qed

lemma cut_range_wf:
  assumes "ranges_wf lo hi (xs @ (s, e) # ys)" "s \<le> a" "a < b" "b \<le> e"
  shows "ranges_wf lo hi (xs @ cut_range s e a b @ ys)"
    "free_ids (xs @ cut_range s e a b @ ys) = free_ids (xs @ (s, e) # ys) - {a..<b}"
proof -
  have w: "ranges_wf lo hi xs" "upper lo xs \<le> s" "e \<le> hi" "ranges_wf (Suc e) hi ys"
    using assms(1) by (auto simp: ranges_wf_append)
  have "upper (upper lo xs) (cut_range s e a b) \<le> Suc e" using w assms by (auto simp: cut_range_def)
  then show "ranges_wf lo hi (xs @ cut_range s e a b @ ys)"
    using w assms ranges_wf_mono [OF w(4)] by (auto simp: ranges_wf_append cut_range_def)
  have "free_ids xs \<inter> {a..<b} = {}" using free_ids_upper [OF w(1)] w(2) assms(2) by fastforce
  moreover have "free_ids ys \<inter> {a..<b} = {}" using free_ids_bounds [OF w(4)] assms(4) by auto
  moreover have "free_ids (cut_range s e a b) = {s..<e} - {a..<b}"
    using assms(2-4) by (auto simp: cut_range_def)
  ultimately show "free_ids (xs @ cut_range s e a b @ ys) = free_ids (xs @ (s, e) # ys) - {a..<b}"
    by (simp add: Un_Diff Diff_triv)
qed

lemma prev_le_in_range:
  assumes "ranges_wf lo hi (xs @ (s, e) # ys)" "s \<le> a" "a < e"
  shows "bt_prev_le a (xs @ (s, e) # ys) = Some (s, e)"
proof -
  have w: "ranges_wf lo hi xs" "upper lo xs \<le> s" "ranges_wf (Suc e) hi ys"
    using assms(1) by (auto simp: ranges_wf_append)
  have xs: "\<forall>x\<in>fst ` set xs. x < s" using w(2) ranges_wf_mem [OF w(1)] by fastforce
  have ys: "\<forall>y\<in>fst ` set ys. e < y" using ranges_wf_mem [OF w(3)] by fastforce
  have "bt_prev_le a ((xs @ [(s, e)]) @ ys) = Some (last (xs @ [(s, e)]))"
    using xs ys assms by (subst bt_prev_le_append) fastforce+
  then show ?thesis by simp
qed

subsection \<open>Giving a range back\<close>

lemma bt_get_append_key:
  "\<forall>x\<in>fst ` set xs. x < (k::'k::linorder) \<Longrightarrow> bt_get (xs @ ys) k = bt_get ys k"
  by (induction xs) (auto simp: bt_get_def)

lemma ranges_wf_snoc_below:
  assumes "ranges_wf lo hi xs" "\<forall>(s, e)\<in>set xs. e < a" "lo \<le> a"
  shows "upper lo xs \<le> a"
  using assms by (induction lo hi xs rule: ranges_wf.induct) auto

lemma ranges_wf_above:
  assumes "ranges_wf lo hi ys" "\<forall>(s, e)\<in>set ys. b < s"
  shows "ranges_wf (Suc b) hi ys"
  using assms by (cases ys) auto

text \<open>The effect of \<open>return_range\<close> and \<open>insert_free_range\<close> on a table split around the range.\<close>

definition merge_left :: "ranges \<Rightarrow> nat \<Rightarrow> ranges \<times> nat" where
  "merge_left xs a = (if xs \<noteq> [] \<and> snd (last xs) = a then (butlast xs, fst (last xs)) else (xs, a))"

definition merge_right :: "nat \<Rightarrow> ranges \<Rightarrow> nat \<times> ranges" where
  "merge_right b ys = (case ys of (s, e) # zs \<Rightarrow> if s = b then (e, zs) else (b, ys) | [] \<Rightarrow> (b, ys))"

definition add_range :: "ranges \<Rightarrow> nat \<Rightarrow> nat \<Rightarrow> ranges" where
  "add_range m a b =
     (let (ns, m1) = (case bt_prev a m of
             Some (s, e) \<Rightarrow> if e = a then (s, bt_remove s m) else (a, m)
           | None \<Rightarrow> (a, m));
          (ne, m2) = (case bt_get m1 b of None \<Rightarrow> (b, m1) | Some e \<Rightarrow> (e, bt_remove b m1))
      in bt_insert ns ne m2)"

lemma add_range_merge:
  assumes "ranges_wf lo hi (xs @ ys)" "a < b"
    and "\<forall>(s, e)\<in>set xs. e \<le> a" "\<forall>(s, e)\<in>set ys. b \<le> s"
    and l: "merge_left xs a = (xs', ns)" and r: "merge_right b ys = (ne, ys')"
  shows "add_range (xs @ ys) a b = xs' @ (ns, ne) # ys'"
proof -
  have w: "ranges_wf lo hi xs" "ranges_wf (upper lo xs) hi ys" using assms(1) by (auto simp: ranges_wf_append)
  have s: "bt_inv (xs @ ys)" by (rule ranges_wf_bt_inv [OF assms(1)])
  have xs: "\<forall>x\<in>fst ` set xs. x < a" using assms(3) ranges_wf_mem [OF w(1)] by fastforce
  have ys: "\<forall>y\<in>fst ` set ys. b \<le> y" using assms(4) by auto
  have prev: "bt_prev a (xs @ ys) = (if xs = [] then None else Some (last xs))"
    using xs ys assms(2) by (intro bt_prev_append) fastforce+
  have left: "(case bt_prev a (xs @ ys) of
        Some (s, e) \<Rightarrow> if e = a then (s, bt_remove s (xs @ ys)) else (a, xs @ ys)
      | None \<Rightarrow> (a, xs @ ys)) = (ns, xs' @ ys)"
  proof (cases "xs \<noteq> [] \<and> snd (last xs) = a")
    case True
    then obtain s zs where z: "xs = zs @ [(s, a)]" by (metis append_butlast_last_id prod.collapse)
    have "s \<notin> fst ` set zs" using s by (auto simp: z bt_inv_append)
    then show ?thesis using l prev bt_remove_mid [of s zs a ys] by (auto simp: z merge_left_def)
  next
    case False
    then show ?thesis using l prev by (auto simp: merge_left_def split: prod.splits)
  qed
  have xs': "\<forall>x\<in>fst ` set xs'. x < ns" "ns \<le> a"
  proof -
    show "\<forall>x\<in>fst ` set xs'. x < ns"
    proof (cases "xs \<noteq> [] \<and> snd (last xs) = a")
      case True
      then obtain s zs where z: "xs = zs @ [(s, a)]" by (metis append_butlast_last_id prod.collapse)
      then show ?thesis using l s by (auto simp: merge_left_def bt_inv_append)
    next
      case False
      then have "xs' = xs" "ns = a" using l by (auto simp: merge_left_def)
      then show ?thesis using xs by simp
    qed
    show "ns \<le> a" using l xs by (auto simp: merge_left_def less_imp_le split: if_splits)
  qed
  then have xb: "\<forall>x\<in>fst ` set xs'. x < b" using assms(2) by fastforce
  have right: "(case bt_get (xs' @ ys) b of None \<Rightarrow> (b, xs' @ ys) | Some e \<Rightarrow> (e, bt_remove b (xs' @ ys)))
      = (ne, xs' @ ys')"
  proof (cases ys)
    case Nil
    then show ?thesis using r xb bt_get_append_key [of xs' b "[]"]
      by (auto simp: merge_right_def bt_get_def)
  next
    case (Cons y zs)
    obtain s e where y: "y = (s, e)" by force
    have z: "\<forall>z\<in>fst ` set zs. s < z" using s by (auto simp: Cons y bt_inv_append)
    show ?thesis
    proof (cases "s = b")
      case True
      then have "bt_get (xs' @ ys) b = Some e" using xb
        by (simp add: bt_get_append_key Cons y) (simp add: bt_get_def)
      moreover have "b \<notin> fst ` set xs'" using xb by auto
      ultimately show ?thesis using True r bt_remove_mid [of b xs' e zs]
        by (simp add: merge_right_def Cons y)
    next
      case False
      then have "bt_get ys b = None" using z ys by (force simp: bt_get_None_iff Cons y)
      then show ?thesis using False r xb by (auto simp: bt_get_append_key merge_right_def Cons y)
    qed
  qed
  have "\<forall>y\<in>fst ` set ys'. ns < y"
    using r ys xs'(2) assms(2) by (auto simp: merge_right_def split: list.splits if_splits) fastforce+
  then show ?thesis unfolding add_range_def Let_def left using right xs'(1)
    by (simp add: bt_insert_mid)
qed

lemma merge_wf:
  assumes "ranges_wf lo hi (xs @ ys)" "lo \<le> a" "a < b" "b \<le> hi"
    and "\<forall>(s, e)\<in>set xs. e \<le> a" "\<forall>(s, e)\<in>set ys. b \<le> s"
    and l: "merge_left xs a = (xs', ns)" and r: "merge_right b ys = (ne, ys')"
  shows "ranges_wf lo hi (xs' @ (ns, ne) # ys')"
    "free_ids (xs' @ (ns, ne) # ys') = free_ids (xs @ ys) \<union> {a..<b}"
proof -
  have w: "ranges_wf lo hi xs" "ranges_wf (upper lo xs) hi ys" using assms(1) by (auto simp: ranges_wf_append)
  have L: "ranges_wf lo hi xs' \<and> upper lo xs' \<le> ns \<and> ns \<le> a \<and> free_ids xs = free_ids xs' \<union> {ns..<a}"
  proof (cases "xs \<noteq> [] \<and> snd (last xs) = a")
    case True
    then obtain s zs where z: "xs = zs @ [(s, a)]" by (metis append_butlast_last_id prod.collapse)
    then show ?thesis using l w(1) by (auto simp: merge_left_def ranges_wf_append)
  next
    case False
    then have e: "xs' = xs" "ns = a" using l by (auto simp: merge_left_def)
    have "e < a" if se: "(s, e) \<in> set xs" for s e
    proof (rule ccontr)
      assume "\<not> e < a"
      then have ea: "e = a" using assms(5) se by auto
      obtain us vs where u: "xs = us @ (s, e) # vs" using se by (auto dest: split_list)
      have "vs \<noteq> []" using False u ea by auto
      then obtain s' e' vs' where "vs = (s', e') # vs'" by (metis list.exhaust prod.exhaust)
      then show False using u ea w(1) assms(5) by (auto simp: ranges_wf_append)
    qed
    then have "upper lo xs \<le> a" using assms(2) by (intro ranges_wf_snoc_below [OF w(1)]) auto
    then show ?thesis using e w(1) by auto
  qed
  have R: "b \<le> ne \<and> ne \<le> hi \<and> ranges_wf (Suc ne) hi ys' \<and> free_ids ys = {b..<ne} \<union> free_ids ys'"
  proof (cases ys)
    case Nil
    then show ?thesis using r assms(4) by (auto simp: merge_right_def)
  next
    case (Cons y zs)
    then show ?thesis using r w(2) assms(4,6) by (cases y) (auto simp: merge_right_def split: if_splits)
  qed
  show "ranges_wf lo hi (xs' @ (ns, ne) # ys')" using L R assms(3) by (auto simp: ranges_wf_append)
  show "free_ids (xs' @ (ns, ne) # ys') = free_ids (xs @ ys) \<union> {a..<b}"
    using L R assms(3) by auto
qed

lemma add_range_wf:
  assumes "ranges_wf lo hi m" "lo \<le> a" "a < b" "b \<le> hi" "{a..<b} \<inter> free_ids m = {}"
  shows "ranges_wf lo hi (add_range m a b)" "free_ids (add_range m a b) = free_ids m \<union> {a..<b}"
proof -
  obtain xs ys where m: "m = xs @ ys" and xs: "\<forall>(s, e)\<in>set xs. e \<le> a" and ys: "\<forall>(s, e)\<in>set ys. b \<le> s"
    using split_at_taken [OF assms(1,5,3)] by metis
  obtain xs' ns ne ys' where l: "merge_left xs a = (xs', ns)" and r: "merge_right b ys = (ne, ys')"
    by force
  note add_range_merge [OF assms(1) [unfolded m] assms(3) xs ys l r]
    merge_wf [OF assms(1) [unfolded m] assms(2-4) xs ys l r]
  then show "ranges_wf lo hi (add_range m a b)" "free_ids (add_range m a b) = free_ids m \<union> {a..<b}"
    by (simp_all add: m)
qed

lemma insert_free_range_add: "Suc n < 2 ^ w \<Longrightarrow> insert_free_range w m n = add_range m n (Suc n)"
  by (simp add: insert_free_range_def add_range_def id_next_def Let_def split: option.splits prod.splits)

lemma fa_return_range_add: "a < b \<Longrightarrow> fa_return_range f a b = f\<lparr>fa_ranges := add_range (fa_ranges f) a b\<rparr>"
  by (simp add: fa_return_range_def add_range_def Let_def split: option.splits prod.splits)

section \<open>The flat allocator\<close>

text \<open>\<open>C\<close> is the set of identifiers carved out for majors: neither free nor counted as in use.\<close>

definition fa_inv :: "nat \<Rightarrow> nat set \<Rightarrow> flat_alloc \<Rightarrow> bool" where
  "fa_inv w C f \<longleftrightarrow> fa_end f < 2 ^ w \<and> ranges_wf (fa_start f) (fa_end f) (fa_ranges f) \<and>
     C \<subseteq> {fa_start f..<fa_end f} \<and> C \<inter> free_ids (fa_ranges f) = {} \<and>
     fa_inuse f + card C + card (free_ids (fa_ranges f)) = fa_end f - fa_start f"

definition fa_free :: "flat_alloc \<Rightarrow> nat set" where
  "fa_free f = free_ids (fa_ranges f)"

definition fa_universe :: "flat_alloc \<Rightarrow> nat set" where
  "fa_universe f = {fa_start f..<fa_end f}"

definition fa_held :: "flat_alloc \<Rightarrow> nat set" where
  "fa_held f = fa_universe f - fa_free f"

lemmas fa_abs_defs = fa_free_def fa_universe_def fa_held_def

lemma fa_available_card: "fa_inv w C f \<Longrightarrow> fa_available f = card (fa_free f)"
  using card_free_ids [of "fa_start f" "fa_end f" "fa_ranges f"]
  by (simp add: fa_inv_def fa_available_def distance_to_def fa_free_def)

lemma fa_total: "fa_inv w {} f \<Longrightarrow> fa_inuse f + fa_available f = card (fa_universe f)"
  using fa_available_card [of w "{}" f] by (simp add: fa_inv_def fa_universe_def fa_free_def)

lemma fa_is_allocated_iff: "fa_inv w C f \<Longrightarrow> fa_is_allocated f i \<longleftrightarrow> i \<in> fa_held f"
  by (auto simp: fa_inv_def fa_is_allocated_def fa_contains_def is_allocated_loop_iff fa_abs_defs)

lemma fa_free_universe: "fa_inv w C f \<Longrightarrow> fa_free f \<subseteq> fa_universe f"
  by (auto simp: fa_inv_def fa_abs_defs dest: free_ids_bounds)

lemma fa_finite: "finite (fa_free f)" "finite (fa_universe f)" "finite (fa_held f)"
  by (simp_all add: fa_abs_defs)

lemma fa_new_inv [inv_intros]: "e < 2 ^ w \<Longrightarrow> fa_inv w {} (fa_new s e)"
  by (simp add: fa_inv_def fa_new_def)

lemma fa_new_free: "fa_free (fa_new s e) = {s..<e}" "fa_universe (fa_new s e) = {s..<e}"
  "fa_start (fa_new s e) = s" "fa_end (fa_new s e) = e" "fa_inuse (fa_new s e) = 0"
  by (simp_all add: fa_abs_defs fa_new_def)

lemma fa_inuse_card:
  assumes "fa_inv w C f"
  shows "fa_inuse f = card (fa_held f - C)"
proof -
  have "card (fa_held f - C) = card (fa_universe f - (fa_free f \<union> C))"
    by (simp add: fa_held_def Diff_eq Int_assoc)
  also have "\<dots> = card (fa_universe f) - card (fa_free f \<union> C)"
    using assms fa_free_universe [OF assms] by (intro card_Diff_subset)
      (auto simp: fa_inv_def fa_universe_def fa_finite intro: finite_subset)
  also have "card (fa_free f \<union> C) = card (fa_free f) + card C"
    using assms by (intro card_Un_disjoint) (auto simp: fa_inv_def fa_finite fa_free_def intro: finite_subset)
  finally show ?thesis using assms by (auto simp: fa_inv_def fa_universe_def fa_free_def)
qed

text \<open>Replacing the table of a well-formed allocator by one with a range less or a range more.\<close>

lemma fa_inv_take:
  assumes "fa_inv w C f" "ranges_wf (fa_start f) (fa_end f) m" "free_ids m = fa_free f - R" "R \<subseteq> fa_free f"
  shows "D \<inter> C = {} \<Longrightarrow> D \<subseteq> R \<Longrightarrow> n = fa_inuse f + card (R - D) \<Longrightarrow>
    fa_inv w (C \<union> D) (f\<lparr>fa_ranges := m, fa_inuse := n\<rparr>)"
proof -
  assume D: "D \<inter> C = {}" "D \<subseteq> R" and n: "n = fa_inuse f + card (R - D)"
  have fin: "finite R" "finite D" "finite C"
    using assms(1,4) D(2) fa_finite(1) [of f] by (auto simp: fa_inv_def dest: finite_subset)
  have "card (fa_free f - R) = card (fa_free f) - card R" using assms(4) fin by (intro card_Diff_subset)
  moreover have "card R \<le> card (fa_free f)" using assms(4) by (intro card_mono) (simp_all add: fa_finite)
  moreover have "card (R - D) + card D = card R" using D fin by (simp add: card_Diff_subset card_mono)
  moreover have "card (C \<union> D) = card C + card D" using D fin by (intro card_Un_disjoint) auto
  ultimately show ?thesis
    using assms D n fa_free_universe [OF assms(1)]
    by (auto simp: fa_inv_def fa_free_def fa_universe_def)
qed

lemma fa_id_next: "fa_inv w C f \<Longrightarrow> i \<in> fa_universe f \<Longrightarrow> id_next w i = Some (Suc i)"
  by (auto simp: fa_inv_def fa_universe_def id_next_def)

lemma fa_alloc_Some:
  assumes "fa_inv w C f" "fa_alloc w f = Some (i, f')"
  shows "fa_inv w C f'" "fa_universe f' = fa_universe f" "i \<in> fa_free f" "\<forall>j\<in>fa_free f. i \<le> j"
    "fa_free f' = fa_free f - {i}" "fa_start f' = fa_start f" "fa_end f' = fa_end f"
proof -
  obtain e rs where r: "fa_ranges f = (i, e) # rs"
    using assms(2) by (auto simp: fa_alloc_def Let_def split: list.splits if_splits)
  have w: "ranges_wf (fa_start f) (fa_end f) ([] @ (i, e) # rs)" using assms(1) r by (simp add: fa_inv_def)
  have "i \<in> fa_universe f" using w by (auto simp: fa_universe_def)
  note n = fa_id_next [OF assms(1) this]
  note c = cut_range_ops [OF w, of i "Suc i"] cut_range_wf [OF w, of i "Suc i"]
  let ?m = "cut_range i e i (Suc i) @ rs"
  have f': "f' = f\<lparr>fa_ranges := ?m, fa_inuse := fa_inuse f + 1\<rparr>"
    using assms(2) w r n c(1) by (auto simp: fa_alloc_def Let_def split: if_splits)
  show i: "i \<in> fa_free f" using w r by (simp add: fa_free_def)
  show "\<forall>j\<in>fa_free f. i \<le> j" using free_ids_bounds [of i "fa_end f" "fa_ranges f"] w r
    by (auto simp: fa_free_def)
  have m: "ranges_wf (fa_start f) (fa_end f) ?m" "free_ids ?m = fa_free f - {i}"
    using c(2,3) w r by (simp_all add: fa_free_def atLeastLessThanSuc)
  show "fa_inv w C f'" using fa_inv_take [OF assms(1) m, of "{}" "fa_inuse f + 1"] i f' by simp
  show "fa_universe f' = fa_universe f" "fa_free f' = fa_free f - {i}"
      "fa_start f' = fa_start f" "fa_end f' = fa_end f"
    using m(2) by (simp_all add: f' fa_abs_defs)
qed

lemma fa_alloc_None: "fa_inv w C f \<Longrightarrow> fa_alloc w f = None \<Longrightarrow> fa_free f = {}"
  using fa_available_card [of w C f] fa_finite(1) [of f]
  by (auto simp: fa_alloc_def fa_free_def Let_def split: list.splits if_splits option.splits)

lemma fa_alloc_at_errors:
  assumes "fa_inv w C f"
  shows "i \<notin> fa_universe f \<Longrightarrow> fa_alloc_at w f i = Some (Err IdOutOfRange)"
    "i \<in> fa_held f \<Longrightarrow> fa_alloc_at w f i = Some (Err AlreadyAllocated)"
  using fa_is_allocated_iff [OF assms]
  by (auto simp: fa_alloc_at_def fa_contains_def fa_universe_def fa_held_def)

lemma fa_alloc_at_Ok:
  assumes "fa_inv w C f" "i \<in> fa_free f"
  shows "\<exists>f'. fa_alloc_at w f i = Some (Ok f') \<and> fa_inv w C f' \<and> fa_free f' = fa_free f - {i} \<and>
    fa_start f' = fa_start f \<and> fa_end f' = fa_end f"
proof -
  obtain xs s e ys where r: "fa_ranges f = xs @ (s, e) # ys" and se: "s \<le> i" "i < e"
    using range_of_free assms(2) unfolding fa_free_def by metis
  have w: "ranges_wf (fa_start f) (fa_end f) (xs @ (s, e) # ys)" using assms(1) r by (simp add: fa_inv_def)
  have u: "i \<in> fa_universe f" using fa_free_universe [OF assms(1)] assms(2) by auto
  have a: "\<not> fa_is_allocated f i" using assms fa_is_allocated_iff by (auto simp: fa_held_def)
  let ?m = "xs @ cut_range s e i (Suc i) @ ys"
  have o: "fa_alloc_at w f i = Some (Ok (f\<lparr>fa_ranges := ?m, fa_inuse := fa_inuse f + 1\<rparr>))"
    using u a prev_le_in_range [OF w se] cut_range_ops [OF w se(1), of "Suc i"] se fa_id_next [OF assms(1) u]
    by (simp add: fa_alloc_at_def fa_contains_def fa_universe_def r Let_def split: if_splits)
  have m: "ranges_wf (fa_start f) (fa_end f) ?m" "free_ids ?m = fa_free f - {i}"
    using cut_range_wf [OF w se(1), of "Suc i"] se r by (simp_all add: fa_free_def atLeastLessThanSuc)
  then show ?thesis
    using o fa_inv_take [OF assms(1) m, of "{}" "fa_inuse f + 1"] assms(2) by (simp add: fa_free_def)
qed

lemma fa_inv_give:
  assumes "fa_inv w C f" "ranges_wf (fa_start f) (fa_end f) m" "free_ids m = fa_free f \<union> R"
    and "R \<inter> fa_free f = {}" "D \<subseteq> R" "D \<subseteq> C" "R - D \<subseteq> fa_universe f - C" "n = fa_inuse f - card (R - D)"
  shows "fa_inv w (C - D) (f\<lparr>fa_ranges := m, fa_inuse := n\<rparr>)"
proof -
  have "finite C" "finite D" "finite (R - D)"
    using assms(1,6,7) by (auto simp: fa_inv_def fa_universe_def dest: finite_subset)
  then have fin: "finite C" "finite D" "finite R" by (simp_all add: finite_Diff2)
  have "R - D \<subseteq> fa_held f - C" using assms(4,7) by (auto simp: fa_held_def)
  then have "card (R - D) \<le> fa_inuse f"
    unfolding fa_inuse_card [OF assms(1)] by (intro card_mono) (simp_all add: fa_finite)
  moreover have "card (fa_free f \<union> R) = card (fa_free f) + card R"
    using assms(4) fin by (intro card_Un_disjoint) (auto simp: fa_finite)
  moreover have "card (R - D) + card D = card R" using assms(5) fin by (simp add: card_Diff_subset card_mono)
  moreover have "card (C - D) + card D = card C" using assms(6) fin by (simp add: card_Diff_subset card_mono)
  ultimately show ?thesis using assms by (auto simp: fa_inv_def fa_free_def)
qed

lemma fa_dealloc_errors:
  assumes "fa_inv w C f"
  shows "i \<notin> fa_universe f \<Longrightarrow> fa_dealloc w f i = Err IdOutOfRange"
    "i \<in> fa_free f \<Longrightarrow> fa_dealloc w f i = Err IdAlreadyFree"
  using fa_is_allocated_iff [OF assms] fa_free_universe [OF assms]
  by (auto simp: fa_dealloc_def fa_contains_def fa_universe_def fa_held_def)

lemma fa_dealloc_Ok:
  assumes "fa_inv w C f" "i \<in> fa_held f" "i \<notin> C"
  shows "\<exists>f'. fa_dealloc w f i = Ok f' \<and> fa_inv w C f' \<and> fa_free f' = insert i (fa_free f) \<and>
    fa_start f' = fa_start f \<and> fa_end f' = fa_end f"
proof -
  let ?m = "add_range (fa_ranges f) i (Suc i)"
  have u: "i \<in> fa_universe f" "i \<notin> fa_free f" using assms(2) by (auto simp: fa_held_def)
  then have "Suc i < 2 ^ w" using assms(1) by (auto simp: fa_inv_def fa_universe_def)
  then have o: "fa_dealloc w f i = Ok (f\<lparr>fa_ranges := ?m, fa_inuse := fa_inuse f - 1\<rparr>)"
    using u assms fa_is_allocated_iff [OF assms(1)]
    by (simp add: fa_dealloc_def insert_free_range_add fa_contains_def fa_universe_def)
  have m: "ranges_wf (fa_start f) (fa_end f) ?m" "free_ids ?m = fa_free f \<union> {i}"
    using add_range_wf [of "fa_start f" "fa_end f" "fa_ranges f" i "Suc i"] u assms(1)
    by (auto simp: fa_inv_def fa_universe_def fa_free_def)
  have "fa_inv w C (f\<lparr>fa_ranges := ?m, fa_inuse := fa_inuse f - 1\<rparr>)"
    using fa_inv_give [OF assms(1) m, of "{}"] u assms(3) by simp
  then show ?thesis using o m by (simp add: fa_free_def)
qed

lemma fa_carve_Ok:
  assumes "fa_inv w C f" "fa_carve f a b = Ok f'"
  shows "fa_inv w (C \<union> {a..<b}) f'" "a < b" "{a..<b} \<subseteq> fa_free f" "fa_free f' = fa_free f - {a..<b}"
    "fa_start f' = fa_start f" "fa_end f' = fa_end f" "fa_inuse f' = fa_inuse f"
proof -
  obtain fs fe where p: "bt_prev_le a (fa_ranges f) = Some (fs, fe)" and ab: "a < b" "b \<le> fe"
    using assms(2) by (auto simp: fa_carve_def split: if_splits option.splits)
  have "(fs, fe) \<in> set (fa_ranges f)" "fs \<le> a"
    using p by (auto simp: bt_prev_le_def Let_def split: if_splits)
      (metis (no_types, lifting) last_in_set set_takeWhileD, metis (mono_tags, lifting) case_prod_conv last_in_set set_takeWhileD)
  then obtain xs ys where r: "fa_ranges f = xs @ (fs, fe) # ys" and fs: "fs \<le> a" by (auto dest: split_list)
  have w: "ranges_wf (fa_start f) (fa_end f) (xs @ (fs, fe) # ys)" using assms(1) r by (simp add: fa_inv_def)
  let ?m = "xs @ cut_range fs fe a b @ ys"
  have f': "f' = f\<lparr>fa_ranges := ?m\<rparr>"
    using assms(2) p ab cut_range_ops [OF w fs ab] by (simp add: fa_carve_def r Let_def split: if_splits)
  note m = cut_range_wf [OF w fs ab]
  show "a < b" by fact
  show R: "{a..<b} \<subseteq> fa_free f" using fs ab by (auto simp: fa_free_def r)
  have D: "{a..<b} \<inter> C = {}" using R assms(1) by (auto simp: fa_inv_def fa_free_def)
  have "fa_inv w (C \<union> {a..<b}) (f\<lparr>fa_ranges := ?m, fa_inuse := fa_inuse f\<rparr>)"
    using fa_inv_take [OF assms(1) m(1) _ R D order_refl] m(2) by (simp add: fa_free_def r)
  then show "fa_inv w (C \<union> {a..<b}) f'" by (simp add: f')
  show "fa_free f' = fa_free f - {a..<b}" using m(2) by (simp add: f' fa_free_def r)
  show "fa_start f' = fa_start f" "fa_end f' = fa_end f" "fa_inuse f' = fa_inuse f" by (simp_all add: f')
qed

lemma fa_carve_free:
  assumes "fa_inv w C f" "a < b" "{a..<b} \<subseteq> fa_free f"
  shows "\<exists>f'. fa_carve f a b = Ok f'"
proof -
  have "a \<in> fa_free f" using assms(2,3) by auto
  then obtain xs s e ys where r: "fa_ranges f = xs @ (s, e) # ys" and se: "s \<le> a" "a < e"
    using range_of_free unfolding fa_free_def by metis
  have w: "ranges_wf (fa_start f) (fa_end f) (xs @ (s, e) # ys)" using assms(1) r by (simp add: fa_inv_def)
  have "b \<le> e"
  proof (rule ccontr)
    assume "\<not> b \<le> e"
    then have "e \<in> fa_free f" using assms(3) se by auto
    moreover have "e \<notin> free_ids xs" using free_ids_upper [of "fa_start f" "fa_end f" xs e] w
      by (auto simp: ranges_wf_append)
    moreover have "e \<notin> free_ids ys" using free_ids_bounds [of "Suc e" "fa_end f" ys] w
      by (auto simp: ranges_wf_append)
    ultimately show False by (simp add: fa_free_def r)
  qed
  moreover have "fa_start f \<le> a" "b \<le> fa_end f"
    using interval_bounds [OF assms(2,3)] fa_free_universe [OF assms(1)] by (auto simp: fa_universe_def)
  ultimately show ?thesis using assms(2) prev_le_in_range [OF w se] by (simp add: fa_carve_def r Let_def)
qed

lemma fa_return_range_inv:
  assumes "fa_inv w C f" "a < b" "{a..<b} \<subseteq> C"
  shows "fa_inv w (C - {a..<b}) (fa_return_range f a b)"
    "fa_free (fa_return_range f a b) = fa_free f \<union> {a..<b}"
    "fa_start (fa_return_range f a b) = fa_start f" "fa_end (fa_return_range f a b) = fa_end f"
proof -
  let ?m = "add_range (fa_ranges f) a b"
  have d: "{a..<b} \<inter> fa_free f = {}" using assms(1,3) by (auto simp: fa_inv_def fa_free_def)
  have u: "fa_start f \<le> a" "b \<le> fa_end f"
    using interval_bounds [OF assms(2,3)] assms(1) by (auto simp: fa_inv_def)
  have m: "ranges_wf (fa_start f) (fa_end f) ?m" "free_ids ?m = fa_free f \<union> {a..<b}"
    using add_range_wf [of "fa_start f" "fa_end f" "fa_ranges f" a b] u assms(1,2) d
    by (auto simp: fa_inv_def fa_free_def)
  have "fa_inv w (C - {a..<b}) (f\<lparr>fa_ranges := ?m, fa_inuse := fa_inuse f\<rparr>)"
    using fa_inv_give [OF assms(1) m d order_refl assms(3)] by simp
  then show "fa_inv w (C - {a..<b}) (fa_return_range f a b)"
    "fa_free (fa_return_range f a b) = fa_free f \<union> {a..<b}"
    "fa_start (fa_return_range f a b) = fa_start f" "fa_end (fa_return_range f a b) = fa_end f"
    using m(2) by (simp_all add: fa_return_range_add assms(2) fa_free_def)
qed

definition fa_dealloc_opt :: "nat \<Rightarrow> flat_alloc \<Rightarrow> nat \<Rightarrow> flat_alloc option" where
  "fa_dealloc_opt w f i = (case fa_dealloc w f i of Inl _ \<Rightarrow> None | Inr f' \<Rightarrow> Some f')"

interpretation fa_pool: index_pool "fa_inv w {}" fa_universe fa_held "fa_alloc w" "fa_dealloc_opt w" for w
proof
  fix f f' :: flat_alloc and i :: nat
  assume inv: "fa_inv w {} f"
  show "finite (fa_universe f)" by (rule fa_finite)
  show "fa_held f \<subseteq> fa_universe f" by (auto simp: fa_held_def)
  show "fa_inv w {} f' \<and> fa_universe f' = fa_universe f \<and> i \<in> fa_universe f \<and> i \<notin> fa_held f \<and>
      fa_held f' = insert i (fa_held f)" if "fa_alloc w f = Some (i, f')"
    using fa_alloc_Some [OF inv that] fa_free_universe [OF inv] by (auto simp: fa_held_def)
  show "fa_held f = fa_universe f" if "fa_alloc w f = None"
    using fa_alloc_None [OF inv that] by (simp add: fa_held_def)
  show "fa_inv w {} f' \<and> fa_universe f' = fa_universe f \<and> i \<in> fa_held f \<and> fa_held f' = fa_held f - {i}"
    if r: "fa_dealloc_opt w f i = Some f'"
  proof -
    have "i \<in> fa_held f"
      using r fa_dealloc_errors [OF inv, of i] by (cases "i \<in> fa_universe f") (auto simp: fa_dealloc_opt_def fa_held_def)
    moreover from this obtain g where g: "fa_dealloc w f i = Ok g" "fa_inv w {} g"
        "fa_free g = insert i (fa_free f)" "fa_start g = fa_start f" "fa_end g = fa_end f"
      using fa_dealloc_Ok [OF inv, of i] by auto
    moreover have "f' = g" using r g(1) by (simp add: fa_dealloc_opt_def)
    ultimately show ?thesis by (auto simp: fa_held_def fa_universe_def)
  qed
  show "i \<notin> fa_held f" if "fa_dealloc_opt w f i = None"
    using that fa_dealloc_Ok [OF inv, of i] by (auto simp: fa_dealloc_opt_def)
qed

section \<open>Bit computations\<close>

lemma low_mask_mask: "n < 128 \<Longrightarrow> low_mask n = mask n"
  by (simp add: low_mask_def mask_eq_decr_exp)

lemma unat_to_bits: "i < 2 ^ w \<Longrightarrow> w \<le> 64 \<Longrightarrow> unat (to_bits i) = i"
proof -
  assume "i < 2 ^ w" "w \<le> 64"
  then have "i < 2 ^ 64" using power_increasing [of w 64 "2::nat"] by simp
  then show ?thesis by (simp add: to_bits_def unat_of_nat_small)
qed

lemma unat_block_size: "n < 128 \<Longrightarrow> unat (block_size n) = 2 ^ n"
  by (simp add: block_size_def unat_pow2)

lemma pow_le_64: "w \<le> 64 \<Longrightarrow> (2::nat) ^ w \<le> 18446744073709551616"
  using power_increasing [of w 64 "2::nat"] by simp

lemma token_base_eq:
  assumes "i < 2 ^ w" "w \<le> 64" "N < w"
  shows "ia_token_base w N i = i div 2 ^ N * 2 ^ N"
proof -
  have "unat (to_bits i AND NOT (mask N)) = i div 2 ^ N * 2 ^ N"
    using assms by (simp add: unat_and_not_mask unat_to_bits)
  moreover have "i div 2 ^ N * 2 ^ N < 2 ^ w" using assms(1) by (rule le_less_trans [rotated]) simp
  ultimately show ?thesis using assms(2,3) by (simp add: ia_token_base_def from_bits_def low_mask_mask)
qed

lemma unat_to_bits_add:
  assumes "b < 2 ^ w" "N < w" "w \<le> 64"
  shows "unat (to_bits b + block_size N) = b + 2 ^ N"
proof -
  have "(2::nat) ^ N \<le> 2 ^ w" using assms by (intro power_increasing) auto
  then have "b + 2 ^ N < 340282366920938463463374607431768211456" using assms(1) pow_le_64 [OF assms(3)] by linarith
  then have "unat (to_bits b) + unat (block_size N) < 2 ^ LENGTH(128)"
    using assms by (simp add: unat_to_bits unat_block_size)
  then show ?thesis using assms by (subst unat_add_small) (simp_all add: unat_to_bits unat_block_size)
qed

lemma block_end_eq: "b + 2 ^ N < 2 ^ w \<Longrightarrow> N < w \<Longrightarrow> w \<le> 64 \<Longrightarrow> ia_block_end w N b = b + 2 ^ N"
  using unat_to_bits_add [of b w N] by (simp add: ia_block_end_def from_bits_def)

lemma not_aligned_iff:
  "i < 2 ^ w \<Longrightarrow> w \<le> 64 \<Longrightarrow> N < w \<Longrightarrow> to_bits i AND low_mask N \<noteq> 0 \<longleftrightarrow> \<not> 2 ^ N dvd i"
  by (simp add: low_mask_mask and_mask_eq_0_iff unat_to_bits)

definition align_up_pow :: "nat \<Rightarrow> nat \<Rightarrow> nat" where
  "align_up_pow N s = (s + 2 ^ N - 1) div 2 ^ N * 2 ^ N"

lemma pos_pow: "0 < (2::nat) ^ N"
  by simp

lemma align_up_pow_least: "2 ^ N dvd b \<Longrightarrow> s \<le> b \<Longrightarrow> align_up_pow N s \<le> b"
proof -
  assume "2 ^ N dvd b" "s \<le> b"
  then obtain k where k: "b = 2 ^ N * k" by (auto simp: dvd_def)
  have "(s + 2 ^ N - 1) div 2 ^ N < Suc k"
  proof (rule less_mult_imp_div_less)
    show "s + 2 ^ N - 1 < Suc k * 2 ^ N" 
      using \<open>s \<le> b\<close> k pos_pow [of N] by (simp only: mult_Suc mult.commute [of k])
  qed
  then show ?thesis by (simp add: align_up_pow_def k mult.commute)
qed

lemma align_up_pow_ge: "s \<le> align_up_pow N s" "2 ^ N dvd align_up_pow N s"
proof -
  have "s + 2 ^ N - 1 < 2 ^ N + (s + 2 ^ N - 1) div 2 ^ N * 2 ^ N" by (rule dividend_less_div_times) simp
  then show "s \<le> align_up_pow N s" by (simp add: align_up_pow_def)
  show "2 ^ N dvd align_up_pow N s" by (simp add: align_up_pow_def)
qed

lemma find_aligned_step:
  assumes "s < 2 ^ w" "e < 2 ^ w" "N < w" "w \<le> 64"
  shows "((to_bits s + low_mask N) AND NOT (low_mask N)) + block_size N \<le> to_bits e \<longleftrightarrow>
      align_up_pow N s + 2 ^ N \<le> e"
    and "unat ((to_bits s + low_mask N) AND NOT (low_mask N)) = align_up_pow N s"
proof -
  have p: "(2::nat) ^ N \<le> 2 ^ w" using assms by (intro power_increasing) auto
  have m: "unat (mask N :: u128) = 2 ^ N - 1" using assms by (simp add: unat_mask_small)
  have "s + (2 ^ N - 1) < 340282366920938463463374607431768211456"
    using assms(1) p pow_le_64 [OF assms(4)] by linarith
  then have "unat (to_bits s) + unat (mask N :: u128) < 2 ^ LENGTH(128)"
    using assms by (simp add: m unat_to_bits)
  then have "unat (to_bits s + mask N) = s + 2 ^ N - 1"
    using assms pos_pow [of N] by (subst unat_add_small) (simp_all add: m unat_to_bits)
  then show a: "unat ((to_bits s + low_mask N) AND NOT (low_mask N)) = align_up_pow N s"
    using assms by (simp add: low_mask_mask unat_and_not_mask align_up_pow_def)
  have "align_up_pow N s < s + 2 ^ N"
    using div_times_less_eq_dividend [of "s + 2 ^ N - 1" "2 ^ N"] pos_pow [of N]
    unfolding align_up_pow_def by linarith
  then have "align_up_pow N s + 2 ^ N < 340282366920938463463374607431768211456"
    using assms(1) p pow_le_64 [OF assms(4)] by linarith
  then have "unat (((to_bits s + low_mask N) AND NOT (low_mask N)) + block_size N) = align_up_pow N s + 2 ^ N"
    using assms a by (subst unat_add_small) (simp_all add: unat_block_size)
  then show "((to_bits s + low_mask N) AND NOT (low_mask N)) + block_size N \<le> to_bits e \<longleftrightarrow>
      align_up_pow N s + 2 ^ N \<le> e"
    using assms by (simp add: word_le_nat_alt unat_to_bits)
qed

lemma find_aligned_block_Some:
  assumes "ranges_wf lo hi m" "hi < 2 ^ w" "N < w" "w \<le> 64"
    and "find_aligned_block_loop w m (low_mask N) (block_size N) = Some b"
  shows "2 ^ N dvd b \<and> {b..<b + 2 ^ N} \<subseteq> free_ids m \<and> b + 2 ^ N \<le> hi"
  using assms(1,5)
proof (induction m arbitrary: lo)
  case (Cons p m)
  obtain s e where p: "p = (s, e)" by force
  have se: "s < 2 ^ w" "e < 2 ^ w" "e \<le> hi" using Cons.prems(1) assms(2) by (auto simp: p)
  note f = find_aligned_step [OF se(1,2) assms(3,4)]
  show ?case
  proof (cases "align_up_pow N s + 2 ^ N \<le> e")
    case True
    then have "b = align_up_pow N s" using Cons.prems(2) f se by (auto simp: p Let_def from_bits_def)
    then show ?thesis using True se align_up_pow_ge [of s N] align_up_pow_ge(2) [of N s]
      by (auto simp: p)
  next
    case False
    then show ?thesis using Cons f by (auto simp: p Let_def)
  qed
qed simp

lemma find_aligned_block_None:
  assumes "ranges_wf lo hi m" "hi < 2 ^ w" "N < w" "w \<le> 64"
    and "find_aligned_block_loop w m (low_mask N) (block_size N) = None" "2 ^ N dvd b"
  shows "\<not> {b..<b + 2 ^ N} \<subseteq> free_ids m"
proof
  assume sub: "{b..<b + 2 ^ N} \<subseteq> free_ids m"
  then have "b \<in> free_ids m" by auto
  then obtain xs s e ys where r: "m = xs @ (s, e) # ys" and se: "s \<le> b" "b < e" by (rule range_of_free)
  have be: "b + 2 ^ N \<le> e"
  proof (rule ccontr)
    assume "\<not> b + 2 ^ N \<le> e"
    then have "e \<in> free_ids m" using sub se by auto
    moreover have "e \<notin> free_ids xs" using free_ids_upper [of lo hi xs e] assms(1) r
      by (auto simp: ranges_wf_append)
    moreover have "e \<notin> free_ids ys" using free_ids_bounds [of "Suc e" hi ys] assms(1) r
      by (auto simp: ranges_wf_append)
    ultimately show False by (simp add: r)
  qed
  have "e < 2 ^ w" "s < 2 ^ w" using ranges_wf_mem [OF assms(1), of s e] assms(2) r by auto
  note f = find_aligned_step [OF this(2,1) assms(3,4)]
  have a: "align_up_pow N s + 2 ^ N \<le> e" using align_up_pow_least [OF assms(6) se(1)] be by simp
  have "find_aligned_block_loop w (xs @ (s, e) # ys) (low_mask N) (block_size N) \<noteq> None" for xs
    using f(1) a by (induction xs) (auto simp: Let_def)
  then show False using assms(5) unfolding r by blast
qed

section \<open>The two-level allocator\<close>

definition block :: "nat \<Rightarrow> nat \<Rightarrow> nat set" where
  "block N b = {b..<b + 2 ^ N}"

definition ia_blocks :: "nat \<Rightarrow> id_alloc \<Rightarrow> nat set" where
  "ia_blocks N a = (\<Union>b\<in>fst ` set (ia_majors a). block N b)"

definition ia_inv :: "nat \<Rightarrow> nat \<Rightarrow> id_alloc \<Rightarrow> bool" where
  "ia_inv w N a \<longleftrightarrow> N < w \<and> w \<le> 64 \<and> 2 ^ N dvd fa_start (ia_flat a) \<and> bt_inv (ia_majors a) \<and>
     fa_inv w (ia_blocks N a) (ia_flat a) \<and>
     (\<forall>(b, s)\<in>set (ia_majors a).
        2 ^ N dvd b \<and> fa_start s = b \<and> fa_end s = b + 2 ^ N \<and> fa_inv w {} s)"

lemma block_disjoint:
  assumes "2 ^ N dvd b" "2 ^ N dvd c" "b \<noteq> c"
  shows "block N b \<inter> block N c = {}"
proof (rule ccontr)
  assume "block N b \<inter> block N c \<noteq> {}"
  then obtain i where "i \<in> block N b" "i \<in> block N c" by auto
  then have "i div 2 ^ N * 2 ^ N = b" "i div 2 ^ N * 2 ^ N = c"
    using assms by (simp_all add: round_down_eq_iff block_def)
  then show False using assms(3) by simp
qed

lemma ia_token_base_iff:
  assumes "ia_inv w N a" "i \<in> fa_universe (ia_flat a)" "2 ^ N dvd b"
  shows "ia_token_base w N i = b \<longleftrightarrow> i \<in> block N b"
  using assms by (simp add: ia_inv_def fa_inv_def fa_universe_def token_base_eq round_down_eq_iff block_def)

lemma ia_major_slot:
  assumes "ia_inv w N a" "bt_get (ia_majors a) b = Some s"
  shows "2 ^ N dvd b" "fa_start s = b" "fa_end s = b + 2 ^ N" "fa_inv w {} s" "fa_universe s = block N b"
    "block N b \<subseteq> ia_blocks N a" "(b, s) \<in> set (ia_majors a)"
proof -
  have m: "(b, s) \<in> set (ia_majors a)" using assms by (simp add: ia_inv_def bt_get_iff)
  then show "2 ^ N dvd b" "fa_start s = b" "fa_end s = b + 2 ^ N" "fa_inv w {} s" "fa_universe s = block N b"
    using assms(1) by (auto simp: ia_inv_def fa_universe_def block_def)
  show "block N b \<subseteq> ia_blocks N a" using m by (force simp: ia_blocks_def)
  show "(b, s) \<in> set (ia_majors a)" by fact
qed

lemma ia_block_slot:
  assumes "ia_inv w N a" "i \<in> ia_blocks N a"
  obtains b s where "bt_get (ia_majors a) b = Some s" "i \<in> block N b" "ia_token_base w N i = b"
proof -
  obtain b s where m: "(b, s) \<in> set (ia_majors a)" "i \<in> block N b" using assms(2) by (auto simp: ia_blocks_def)
  moreover have "i \<in> fa_universe (ia_flat a)" using assms by (auto simp: ia_inv_def fa_inv_def fa_universe_def)
  moreover have "bt_get (ia_majors a) b = Some s" using m(1) assms(1) by (simp add: ia_inv_def bt_get_iff)
  ultimately show ?thesis using that ia_major_slot(1) [OF assms(1)] ia_token_base_iff [OF assms(1)] by metis
qed

lemma ia_no_slot:
  assumes "ia_inv w N a" "i \<in> fa_universe (ia_flat a)" "i \<notin> ia_blocks N a"
  shows "bt_get (ia_majors a) (ia_token_base w N i) = None"
proof (rule ccontr)
  assume "bt_get (ia_majors a) (ia_token_base w N i) \<noteq> None"
  then obtain s where s: "bt_get (ia_majors a) (ia_token_base w N i) = Some s" by auto
  note m = ia_major_slot [OF assms(1) s]
  have "i \<in> block N (ia_token_base w N i)" using ia_token_base_iff [OF assms(1,2) m(1)] by simp
  then show False using m(6) assms(3) by auto
qed

definition ia_held :: "nat \<Rightarrow> nat \<Rightarrow> id_alloc \<Rightarrow> nat set" where
  "ia_held w N a = {i. ia_is_allocated w N a i}"

lemma ia_held_slot:
  assumes "ia_inv w N a" "bt_get (ia_majors a) b = Some s" "i \<in> block N b"
  shows "i \<in> ia_held w N a \<longleftrightarrow> i \<in> fa_held s"
proof -
  note m = ia_major_slot [OF assms(1,2)]
  have u: "i \<in> fa_universe (ia_flat a)"
    using m(6) assms(1,3) by (auto simp: ia_inv_def fa_inv_def fa_universe_def)
  have "ia_token_base w N i = b" using ia_token_base_iff [OF assms(1) u m(1)] assms(3) by simp
  then show ?thesis using u assms(2) fa_is_allocated_iff [OF m(4)]
    by (simp add: ia_held_def ia_is_allocated_def fa_contains_def fa_universe_def)
qed

lemma ia_held_flat:
  assumes "ia_inv w N a" "i \<notin> ia_blocks N a"
  shows "i \<in> ia_held w N a \<longleftrightarrow> i \<in> fa_held (ia_flat a)"
proof (cases "i \<in> fa_universe (ia_flat a)")
  case True
  have "fa_inv w (ia_blocks N a) (ia_flat a)" using assms(1) by (simp add: ia_inv_def)
  then show ?thesis using True ia_no_slot [OF assms(1) True assms(2)]
    by (simp add: ia_held_def ia_is_allocated_def fa_contains_def fa_universe_def fa_is_allocated_iff)
next
  case False
  then show ?thesis
    by (auto simp: ia_held_def ia_is_allocated_def fa_contains_def fa_universe_def fa_held_def)
qed

lemma ia_update_flat:
  assumes "ia_inv w N a" "fa_inv w (ia_blocks N a) f" "fa_start f = fa_start (ia_flat a)"
    "fa_end f = fa_end (ia_flat a)"
  shows "ia_inv w N (a\<lparr>ia_flat := f\<rparr>)" "ia_blocks N (a\<lparr>ia_flat := f\<rparr>) = ia_blocks N a"
    "i \<in> ia_held w N (a\<lparr>ia_flat := f\<rparr>) \<longleftrightarrow> (if i \<in> ia_blocks N a then i \<in> ia_held w N a else i \<in> fa_held f)"
proof -
  show b: "ia_blocks N (a\<lparr>ia_flat := f\<rparr>) = ia_blocks N a" by (simp add: ia_blocks_def)
  show inv: "ia_inv w N (a\<lparr>ia_flat := f\<rparr>)" using assms b by (simp add: ia_inv_def)
  show "i \<in> ia_held w N (a\<lparr>ia_flat := f\<rparr>) \<longleftrightarrow> (if i \<in> ia_blocks N a then i \<in> ia_held w N a else i \<in> fa_held f)"
  proof (cases "i \<in> ia_blocks N a")
    case True
    obtain c s where "bt_get (ia_majors a) c = Some s" "i \<in> block N c"
      using ia_block_slot [OF assms(1) True] by metis
    then show ?thesis using True ia_held_slot [OF assms(1), of c s i] ia_held_slot [OF inv, of c s i] by simp
  next
    case False
    then show ?thesis using ia_held_flat [OF inv, of i] b by simp
  qed
qed

lemma ia_update_slot:
  assumes "ia_inv w N a" "bt_get (ia_majors a) b = Some s" "fa_inv w {} s'" "fa_start s' = fa_start s"
    "fa_end s' = fa_end s"
  defines "a' \<equiv> a\<lparr>ia_majors := bt_insert b s' (ia_majors a)\<rparr>"
  shows "ia_inv w N a'" "ia_blocks N a' = ia_blocks N a"
    "i \<in> ia_held w N a' \<longleftrightarrow> (if i \<in> block N b then i \<in> fa_held s' else i \<in> ia_held w N a)"
proof -
  note m = ia_major_slot [OF assms(1,2)]
  have bt: "bt_inv (ia_majors a)" using assms(1) by (simp add: ia_inv_def)
  have k: "fst ` set (bt_insert b s' (ia_majors a)) = fst ` set (ia_majors a)"
    using m(7) by (force simp: keys_bt_insert)
  then show bl: "ia_blocks N a' = ia_blocks N a" by (simp add: ia_blocks_def a'_def)
  have "2 ^ N dvd c \<and> fa_start t = c \<and> fa_end t = c + 2 ^ N \<and> fa_inv w {} t"
    if "(c, t) \<in> set (bt_insert b s' (ia_majors a))" for c t
    using that m assms(1,3-5) by (auto simp: set_bt_insert bt ia_inv_def)
  then show inv: "ia_inv w N a'"
    using assms(1) bl bt_insert_inv [OF bt, of b s'] by (auto simp: ia_inv_def a'_def)
  have g: "bt_get (ia_majors a') c = (if c = b then Some s' else bt_get (ia_majors a) c)" for c
    by (simp add: a'_def bt_get_insert)
  show "i \<in> ia_held w N a' \<longleftrightarrow> (if i \<in> block N b then i \<in> fa_held s' else i \<in> ia_held w N a)"
  proof (cases "i \<in> ia_blocks N a")
    case True
    obtain c t where c: "bt_get (ia_majors a) c = Some t" "i \<in> block N c"
      using ia_block_slot [OF assms(1) True] by metis
    have "c = b \<longleftrightarrow> i \<in> block N b"
      using c(2) block_disjoint [OF m(1) ia_major_slot(1) [OF assms(1) c(1)]] by auto
    then show ?thesis using c g ia_held_slot [OF assms(1) c] ia_held_slot [OF inv, of c] by auto
  next
    case False
    then have "i \<notin> block N b" using m(6) by auto
    then show ?thesis using False bl ia_held_flat [OF assms(1) False] ia_held_flat [OF inv, of i]
      by (simp add: a'_def)
  qed
qed

subsection \<open>Counting\<close>

lemma ia_held_union:
  assumes "ia_inv w N a"
  shows "ia_held w N a = (fa_held (ia_flat a) - ia_blocks N a) \<union> (\<Union>(b, s)\<in>set (ia_majors a). fa_held s)"
proof -
  have slot: "fa_held s \<subseteq> block N b \<and> block N b \<subseteq> ia_blocks N a \<and> bt_get (ia_majors a) b = Some s"
    if "(b, s) \<in> set (ia_majors a)" for b s
  proof -
    have g: "bt_get (ia_majors a) b = Some s" using that assms by (simp add: ia_inv_def bt_get_iff)
    then show ?thesis using ia_major_slot [OF assms g] by (auto simp: fa_held_def)
  qed
  show ?thesis
  proof (rule set_eqI)
    fix i
    show "i \<in> ia_held w N a \<longleftrightarrow>
        i \<in> (fa_held (ia_flat a) - ia_blocks N a) \<union> (\<Union>(b, s)\<in>set (ia_majors a). fa_held s)"
    proof (cases "i \<in> ia_blocks N a")
      case True
      obtain c t where c: "bt_get (ia_majors a) c = Some t" "i \<in> block N c"
        using ia_block_slot [OF assms True] by metis
      have "s = t" if "(b, s) \<in> set (ia_majors a)" "i \<in> fa_held s" for b s
        using that slot [OF that(1)] c ia_major_slot(1) [OF assms] block_disjoint [of N b c] by force
      then show ?thesis using True c ia_held_slot [OF assms c] ia_major_slot(7) [OF assms c(1)] by auto
    next
      case False
      then show ?thesis using ia_held_flat [OF assms False] slot by fastforce
    qed
  qed
qed

lemma ia_majors_sum:
  assumes "ia_inv w N a" "\<And>s. g s \<subseteq> fa_universe s"
  shows "sum_list (map (\<lambda>(_, s). card (g s)) (ia_majors a)) = card (\<Union>(b, s)\<in>set (ia_majors a). g s)"
proof (rule sum_list_card_Union)
  have bt: "bt_inv (ia_majors a)" using assms(1) by (simp add: ia_inv_def)
  show "distinct (map fst (ia_majors a))" by (rule bt_inv_distinct [OF bt])
  show "finite (g s)" for s using assms(2) by (rule finite_subset) (rule fa_finite)
  show "g s \<inter> g t = {}" if "(b, s) \<in> set (ia_majors a)" "(c, t) \<in> set (ia_majors a)" "b \<noteq> c" for b s c t
  proof -
    have "bt_get (ia_majors a) b = Some s" "bt_get (ia_majors a) c = Some t"
      using that bt by (simp_all add: bt_get_iff)
    then show ?thesis using ia_major_slot(1,5) [OF assms(1)] block_disjoint [of N b c] that(3) assms(2)
      by blast
  qed
qed

lemma ia_used_card:
  assumes "ia_inv w N a"
  shows "ia_used a = card (ia_held w N a)"
proof -
  let ?U = "\<Union>(b, s)\<in>set (ia_majors a). fa_held s"
  have slots: "\<forall>(b, s)\<in>set (ia_majors a). fa_inv w {} s \<and> fa_universe s \<subseteq> ia_blocks N a"
    using assms by (force simp: ia_inv_def ia_blocks_def fa_universe_def block_def)
  have "map (\<lambda>(_, s). fa_inuse s) (ia_majors a) = map (\<lambda>(_, s). card (fa_held s)) (ia_majors a)"
    using slots by (auto simp: fa_inuse_card)
  then have "sum_list (map (\<lambda>(_, s). fa_inuse s) (ia_majors a)) = card ?U"
    using ia_majors_sum [OF assms, of fa_held] by (simp only: fa_held_def Diff_subset)
  then have "ia_used a = card (fa_held (ia_flat a) - ia_blocks N a) + card ?U"
    using assms by (simp add: ia_used_def fa_inuse_card [of w "ia_blocks N a"] ia_inv_def)
  also have "\<dots> = card ((fa_held (ia_flat a) - ia_blocks N a) \<union> ?U)"
    using slots by (intro card_Un_disjoint [symmetric]) (fastforce simp: fa_finite fa_held_def)+
  finally show ?thesis by (simp add: ia_held_union [OF assms])
qed

lemma ia_blocks_universe:
  assumes "ia_inv w N a"
  shows "ia_blocks N a = (\<Union>(b, s)\<in>set (ia_majors a). fa_universe s)"
  using assms by (force simp: ia_inv_def ia_blocks_def fa_universe_def block_def)

lemma ia_total:
  assumes "ia_inv w N a"
  shows "ia_used a + ia_available a = ia_size a"
proof -
  have slots: "\<forall>(b, s)\<in>set (ia_majors a). fa_inuse s + fa_available s = card (fa_universe s)"
    using assms by (auto simp: ia_inv_def fa_total)
  have "sum_list (map (\<lambda>(_, s). fa_inuse s) m) + sum_list (map (\<lambda>(_, s). fa_available s) m) =
      sum_list (map (\<lambda>(_, s). card (fa_universe s)) m)"
    if "\<forall>(b, s)\<in>set m. fa_inuse s + fa_available s = card (fa_universe s)" for m :: "(nat, flat_alloc) btree"
    using that by (induction m) auto
  from this [OF slots]
  have "sum_list (map (\<lambda>(_, s). fa_inuse s) (ia_majors a)) + sum_list (map (\<lambda>(_, s). fa_available s) (ia_majors a))
      = card (ia_blocks N a)"
    using ia_majors_sum [OF assms, of fa_universe] ia_blocks_universe [OF assms] by simp
  moreover have "fa_inuse (ia_flat a) + card (ia_blocks N a) + fa_available (ia_flat a) = ia_size a"
    using assms fa_available_card [of w "ia_blocks N a" "ia_flat a"]
    by (simp add: ia_inv_def fa_inv_def fa_free_def ia_size_def fa_size_def distance_to_def)
  ultimately show ?thesis by (simp add: ia_used_def ia_available_def)
qed

subsection \<open>Operations\<close>

lemma ia_flat_inv: "ia_inv w N a \<Longrightarrow> fa_inv w (ia_blocks N a) (ia_flat a)"
  by (simp add: ia_inv_def)

lemma ia_free_not_blocks: "ia_inv w N a \<Longrightarrow> i \<in> fa_free (ia_flat a) \<Longrightarrow> i \<notin> ia_blocks N a"
  by (auto simp: ia_inv_def fa_inv_def fa_free_def)

lemma ia_free_not_held: "ia_inv w N a \<Longrightarrow> i \<in> fa_free (ia_flat a) \<Longrightarrow> i \<notin> ia_held w N a"
  using ia_free_not_blocks ia_held_flat by (auto simp: fa_held_def)

lemma ia_held_universe: "ia_held w N a \<subseteq> fa_universe (ia_flat a)"
  by (auto simp: ia_held_def ia_is_allocated_def fa_contains_def fa_universe_def split: if_splits)

lemma ia_alloc_Some:
  assumes "ia_inv w N a" "ia_alloc w a = Some (i, a')"
  shows "ia_inv w N a'" "ia_blocks N a' = ia_blocks N a" "i \<in> fa_universe (ia_flat a)" "i \<notin> ia_blocks N a"
    "i \<notin> ia_held w N a" "ia_held w N a' = insert i (ia_held w N a)"
    "\<forall>j\<in>fa_universe (ia_flat a). j < i \<longrightarrow> j \<in> ia_held w N a \<or> j \<in> ia_blocks N a" "ia_size a' = ia_size a"
proof -
  obtain f where f: "fa_alloc w (ia_flat a) = Some (i, f)" and a': "a' = a\<lparr>ia_flat := f\<rparr>"
    using assms(2) by (auto simp: ia_alloc_def split: option.splits)
  note r = fa_alloc_Some [OF ia_flat_inv [OF assms(1)] f]
  note u = ia_update_flat [OF assms(1) r(1,6,7)]
  show "ia_inv w N a'" "ia_blocks N a' = ia_blocks N a" using u by (simp_all add: a')
  show "i \<in> fa_universe (ia_flat a)" using r(3) fa_free_universe [OF ia_flat_inv [OF assms(1)]] by auto
  show nb: "i \<notin> ia_blocks N a" and nh: "i \<notin> ia_held w N a"
    using r(3) ia_free_not_blocks ia_free_not_held assms(1) by auto
  show "ia_held w N a' = insert i (ia_held w N a)"
    using u(3) nb r(2,3,5) ia_held_flat [OF assms(1)] \<open>i \<in> fa_universe (ia_flat a)\<close>
    by (auto simp: a' fa_held_def split: if_splits)
  show "\<forall>j\<in>fa_universe (ia_flat a). j < i \<longrightarrow> j \<in> ia_held w N a \<or> j \<in> ia_blocks N a"
    using r(4) ia_held_flat [OF assms(1)] by (fastforce simp: fa_held_def)
  show "ia_size a' = ia_size a" using r(6,7) by (simp add: a' ia_size_def fa_size_def)
qed

lemma ia_alloc_None:
  assumes "ia_inv w N a" "ia_alloc w a = None"
  shows "fa_universe (ia_flat a) \<subseteq> ia_held w N a \<union> ia_blocks N a"
proof -
  have "fa_free (ia_flat a) = {}"
    using assms fa_alloc_None [OF ia_flat_inv [OF assms(1)]] by (auto simp: ia_alloc_def split: option.splits)
  then show ?thesis using ia_held_flat [OF assms(1)] by (auto simp: fa_held_def)
qed

lemma ia_alloc_at_cases:
  assumes "ia_inv w N a"
  shows "if i \<notin> fa_universe (ia_flat a) then ia_alloc_at w N a i = Some (Err IdOutOfRange)
    else if i \<in> ia_held w N a then ia_alloc_at w N a i = Some (Err AlreadyAllocated)
    else \<exists>a'. ia_alloc_at w N a i = Some (Ok a') \<and> ia_inv w N a' \<and> ia_blocks N a' = ia_blocks N a \<and>
      ia_held w N a' = insert i (ia_held w N a) \<and> ia_size a' = ia_size a"
proof (cases "i \<in> fa_universe (ia_flat a)")
  case False
  then show ?thesis by (simp add: ia_alloc_at_def fa_contains_def fa_universe_def)
next
  case u: True
  then have c: "fa_contains (ia_flat a) i" by (simp add: fa_contains_def fa_universe_def)
  show ?thesis
  proof (cases "i \<in> ia_blocks N a")
    case True
    obtain b s where b: "bt_get (ia_majors a) b = Some s" "i \<in> block N b" "ia_token_base w N i = b"
      using ia_block_slot [OF assms True] .
    note m = ia_major_slot [OF assms b(1)] and h = ia_held_slot [OF assms b(1)]
    show ?thesis
    proof (cases "i \<in> fa_held s")
      case True
      then show ?thesis using u c b h fa_alloc_at_errors(2) [OF m(4)] by (simp add: ia_alloc_at_def)
    next
      case False
      then have "i \<in> fa_free s" using b(2) m(5) by (simp add: fa_held_def)
      then obtain s' where s': "fa_alloc_at w s i = Some (Ok s')" "fa_inv w {} s'"
          "fa_free s' = fa_free s - {i}" "fa_start s' = fa_start s" "fa_end s' = fa_end s"
        using fa_alloc_at_Ok [OF m(4)] by blast
      let ?a = "a\<lparr>ia_majors := bt_insert b s' (ia_majors a)\<rparr>"
      note r = ia_update_slot [OF assms b(1) s'(2,4,5)]
      have "fa_held s' = insert i (fa_held s)"
        using s' b(2) m(5) by (auto simp: fa_held_def fa_universe_def)
      then have "ia_held w N ?a = insert i (ia_held w N a)" using b(2) h r(3) by (auto split: if_splits)
      moreover have "ia_alloc_at w N a i = Some (Ok ?a)" using c b s'(1) by (simp add: ia_alloc_at_def)
      moreover have "i \<notin> ia_held w N a" using False h b(2) by simp
      ultimately show ?thesis using u r(1,2) by (simp add: ia_size_def)
    qed
  next
    case False
    note n = ia_no_slot [OF assms u False] and h = ia_held_flat [OF assms False]
    note inv = ia_flat_inv [OF assms]
    show ?thesis
    proof (cases "i \<in> fa_held (ia_flat a)")
      case True
      then show ?thesis using u c n h fa_alloc_at_errors(2) [OF inv] by (simp add: ia_alloc_at_def)
    next
      case nh: False
      then have "i \<in> fa_free (ia_flat a)" using u by (simp add: fa_held_def)
      then obtain f where f: "fa_alloc_at w (ia_flat a) i = Some (Ok f)" "fa_inv w (ia_blocks N a) f"
          "fa_free f = fa_free (ia_flat a) - {i}" "fa_start f = fa_start (ia_flat a)" "fa_end f = fa_end (ia_flat a)"
        using fa_alloc_at_Ok [OF inv] by blast
      let ?a = "a\<lparr>ia_flat := f\<rparr>"
      note r = ia_update_flat [OF assms f(2,4,5)]
      have "fa_held f = insert i (fa_held (ia_flat a))" 
      proof -
        have "fa_universe f = fa_universe (ia_flat a)" using f(4,5) by (simp add: fa_universe_def)
        then show ?thesis unfolding fa_held_def f(3) using u by blast
      qed
      then have "ia_held w N ?a = insert i (ia_held w N a)" using False ia_held_flat [OF assms] r(3) by (auto split: if_splits)
      moreover have "ia_alloc_at w N a i = Some (Ok ?a)" using c n f(1) by (simp add: ia_alloc_at_def)
      moreover have "i \<notin> ia_held w N a" using nh h by simp
      ultimately show ?thesis using u r(1,2) f(4,5) by (simp add: ia_size_def fa_size_def)
    qed
  qed
qed

lemma ia_dealloc_cases:
  assumes "ia_inv w N a"
  shows "if i \<notin> fa_universe (ia_flat a) then ia_dealloc w N a i = Err IdOutOfRange
    else if i \<notin> ia_held w N a then ia_dealloc w N a i = Err IdAlreadyFree
    else \<exists>a'. ia_dealloc w N a i = Ok a' \<and> ia_inv w N a' \<and> ia_blocks N a' = ia_blocks N a \<and>
      ia_held w N a' = ia_held w N a - {i} \<and> ia_size a' = ia_size a"
proof (cases "i \<in> fa_universe (ia_flat a)")
  case False
  then show ?thesis by (simp add: ia_dealloc_def fa_contains_def fa_universe_def)
next
  case u: True
  then have c: "fa_contains (ia_flat a) i" by (simp add: fa_contains_def fa_universe_def)
  show ?thesis
  proof (cases "i \<in> ia_blocks N a")
    case True
    obtain b s where b: "bt_get (ia_majors a) b = Some s" "i \<in> block N b" "ia_token_base w N i = b"
      using ia_block_slot [OF assms True] .
    note m = ia_major_slot [OF assms b(1)] and h = ia_held_slot [OF assms b(1)]
    show ?thesis
    proof (cases "i \<in> fa_held s")
      case False
      then have "i \<in> fa_free s" using b(2) m(5) by (simp add: fa_held_def)
      then show ?thesis using False u c b h fa_dealloc_errors(2) [OF m(4)] by (simp add: ia_dealloc_def)
    next
      case True
      then obtain s' where s': "fa_dealloc w s i = Ok s'" "fa_inv w {} s'"
          "fa_free s' = insert i (fa_free s)" "fa_start s' = fa_start s" "fa_end s' = fa_end s"
        using fa_dealloc_Ok [OF m(4)] by blast
      let ?a = "a\<lparr>ia_majors := bt_insert b s' (ia_majors a)\<rparr>"
      note r = ia_update_slot [OF assms b(1) s'(2,4,5)]
      have "fa_held s' = fa_held s - {i}" using s' by (auto simp: fa_held_def fa_universe_def)
      then have "ia_held w N ?a = ia_held w N a - {i}" using b(2) h r(3) by (auto split: if_splits)
      moreover have "ia_dealloc w N a i = Ok ?a" using c b s'(1) by (simp add: ia_dealloc_def)
      moreover have "i \<in> ia_held w N a" using True h b(2) by simp
      ultimately show ?thesis using u r(1,2) by (simp add: ia_size_def)
    qed
  next
    case False
    note n = ia_no_slot [OF assms u False] and h = ia_held_flat [OF assms False]
    note inv = ia_flat_inv [OF assms]
    show ?thesis
    proof (cases "i \<in> fa_held (ia_flat a)")
      case nh: False
      then have "i \<in> fa_free (ia_flat a)" using u by (simp add: fa_held_def)
      then show ?thesis using nh u c n h fa_dealloc_errors(2) [OF inv] by (simp add: ia_dealloc_def)
    next
      case True
      then obtain f where f: "fa_dealloc w (ia_flat a) i = Ok f" "fa_inv w (ia_blocks N a) f"
          "fa_free f = insert i (fa_free (ia_flat a))" "fa_start f = fa_start (ia_flat a)" "fa_end f = fa_end (ia_flat a)"
        using fa_dealloc_Ok [OF inv _ False] by blast
      let ?a = "a\<lparr>ia_flat := f\<rparr>"
      note r = ia_update_flat [OF assms f(2,4,5)]
      have "fa_held f = fa_held (ia_flat a) - {i}" using f by (auto simp: fa_held_def fa_universe_def)
      then have "ia_held w N ?a = ia_held w N a - {i}" using False ia_held_flat [OF assms] r(3) by (auto split: if_splits)
      moreover have "ia_dealloc w N a i = Ok ?a" using c n f(1) by (simp add: ia_dealloc_def)
      moreover have "i \<in> ia_held w N a" using True h by simp
      ultimately show ?thesis using u r(1,2) f(4,5) by (simp add: ia_size_def fa_size_def)
    qed
  qed
qed

lemma ia_add_major:
  assumes "ia_inv w N a" "2 ^ N dvd b" "fa_carve (ia_flat a) b (b + 2 ^ N) = Ok f"
  defines "a' \<equiv> a\<lparr>ia_flat := f, ia_majors := bt_insert b (fa_new b (b + 2 ^ N)) (ia_majors a)\<rparr>"
  shows "ia_inv w N a'" "ia_blocks N a' = ia_blocks N a \<union> block N b" "ia_held w N a' = ia_held w N a"
    "block N b \<inter> ia_blocks N a = {}" "block N b \<inter> ia_held w N a = {}" "ia_size a' = ia_size a"
proof -
  let ?s = "fa_new b (b + 2 ^ N)"
  note c = fa_carve_Ok [OF ia_flat_inv [OF assms(1)] assms(3)]
  have bt: "bt_inv (ia_majors a)" using assms(1) by (simp add: ia_inv_def)
  show bl: "ia_blocks N a' = ia_blocks N a \<union> block N b"
    by (auto simp: ia_blocks_def a'_def keys_bt_insert)
  have free: "block N b \<subseteq> fa_free (ia_flat a)" using c(3) by (simp add: block_def)
  show disj: "block N b \<inter> ia_blocks N a = {}" using free ia_free_not_blocks [OF assms(1)] by auto
  show nh: "block N b \<inter> ia_held w N a = {}" using free ia_free_not_held [OF assms(1)] by auto
  have "b + 2 ^ N \<le> fa_end (ia_flat a)"
    using interval_bounds [OF c(2,3)] fa_free_universe [OF ia_flat_inv [OF assms(1)]]
    by (auto simp: fa_universe_def)
  then have s: "fa_inv w {} ?s" using assms(1) by (intro fa_new_inv) (auto simp: ia_inv_def fa_inv_def)
  have "fa_inv w (ia_blocks N a') f" using c(1) bl by (simp add: block_def)
  then show inv: "ia_inv w N a'"
    using assms(1,2) s c(5) bt_insert_inv [OF bt] by (auto simp: ia_inv_def a'_def set_bt_insert bt fa_new_free)
  have g: "bt_get (ia_majors a') d = (if d = b then Some ?s else bt_get (ia_majors a) d)" for d
    by (simp add: a'_def bt_get_insert)
  have "i \<in> ia_held w N a' \<longleftrightarrow> i \<in> ia_held w N a" for i
  proof -
    consider (new) "i \<in> block N b" | (old) "i \<in> ia_blocks N a" "i \<notin> block N b"
      | (flat) "i \<notin> ia_blocks N a'" using bl by blast
    then show ?thesis
    proof cases
      case new
      then have "i \<notin> ia_held w N a" using nh by auto
      moreover have "i \<notin> fa_held ?s" by (simp add: fa_held_def fa_new_free)
      ultimately show ?thesis using new ia_held_slot [OF inv, of b ?s i] g by simp
    next
      case old
      obtain d t where d: "bt_get (ia_majors a) d = Some t" "i \<in> block N d"
        using ia_block_slot [OF assms(1) old(1)] by metis
      have "d \<noteq> b" using d(2) old(2) by auto
      then have "bt_get (ia_majors a') d = Some t" using g d(1) by simp
      then show ?thesis using ia_held_slot [OF assms(1) d] ia_held_slot [OF inv _ d(2)] by simp
    next
      case flat
      then have "i \<notin> ia_blocks N a" "i \<notin> block N b" using bl by auto
      then show ?thesis using flat ia_held_flat [OF inv flat] ia_held_flat [OF assms(1), of i] c(4-6)
        by (simp add: a'_def fa_held_def fa_universe_def block_def)
    qed
  qed
  then show "ia_held w N a' = ia_held w N a" by blast
  show "ia_size a' = ia_size a" using c(5,6) by (simp add: a'_def ia_size_def fa_size_def)
qed

lemma ia_alloc_major_cases:
  assumes "ia_inv w N a"
  shows "case ia_alloc_major w N a of
      None \<Rightarrow> False
    | Some None \<Rightarrow> \<forall>b. 2 ^ N dvd b \<longrightarrow> \<not> block N b \<subseteq> fa_free (ia_flat a)
    | Some (Some (b, a')) \<Rightarrow> 2 ^ N dvd b \<and> b \<notin> fst ` set (ia_majors a) \<and> block N b \<inter> ia_blocks N a = {} \<and>
        block N b \<inter> ia_held w N a = {} \<and> ia_inv w N a' \<and> ia_blocks N a' = ia_blocks N a \<union> block N b \<and>
        ia_held w N a' = ia_held w N a \<and> ia_size a' = ia_size a \<and>
        bt_get (ia_majors a') b = Some (fa_new b (b + 2 ^ N)) \<and> block N b \<subseteq> fa_universe (ia_flat a)"
proof -
  note inv = ia_flat_inv [OF assms]
  have wn: "N < w" "w \<le> 64" using assms by (auto simp: ia_inv_def)
  have wf: "ranges_wf (fa_start (ia_flat a)) (fa_end (ia_flat a)) (fa_ranges (ia_flat a))"
    "fa_end (ia_flat a) < 2 ^ w" using inv by (auto simp: fa_inv_def)
  have bs: "block_size N \<noteq> 0" using wn unat_block_size [of N] by (intro notI) simp
  show ?thesis
  proof (cases "fa_find_aligned_block w (ia_flat a) N")
    case None
    then have "find_aligned_block_loop w (fa_ranges (ia_flat a)) (low_mask N) (block_size N) = None"
      using bs by (simp add: fa_find_aligned_block_def)
    then show ?thesis using None find_aligned_block_None [OF wf wn]
      by (simp add: ia_alloc_major_def block_def fa_free_def)
  next
    case (Some b)
    then have "find_aligned_block_loop w (fa_ranges (ia_flat a)) (low_mask N) (block_size N) = Some b"
      using bs by (simp add: fa_find_aligned_block_def)
    from find_aligned_block_Some [OF wf wn this]
    have b: "2 ^ N dvd b" "{b..<b + 2 ^ N} \<subseteq> fa_free (ia_flat a)" "b + 2 ^ N \<le> fa_end (ia_flat a)"
      by (simp_all add: fa_free_def)
    have e: "ia_block_end w N b = b + 2 ^ N" using block_end_eq [of b N w] b(3) wf(2) wn by simp
    obtain f where f: "fa_carve (ia_flat a) b (b + 2 ^ N) = Ok f"
      using fa_carve_free [OF inv _ b(2)] by auto
    note m = ia_add_major [OF assms b(1) f]
    have "b \<in> block N b" by (simp add: block_def)
    then have "b \<notin> fst ` set (ia_majors a)" using m(4) by (auto simp: ia_blocks_def)
    moreover have "block N b \<subseteq> fa_universe (ia_flat a)"
      using b(2) fa_free_universe [OF inv] by (auto simp: block_def)
    ultimately show ?thesis using Some e f m b(1) by (simp add: ia_alloc_major_def bt_get_insert)
  qed
qed

lemma ia_alloc_major_at_Ok:
  assumes "ia_inv w N a" "b < 2 ^ w" "ia_alloc_major_at w N a b = Ok (b', a')"
  shows "b' = b" "2 ^ N dvd b" "ia_inv w N a'" "ia_blocks N a' = ia_blocks N a \<union> block N b"
    "ia_held w N a' = ia_held w N a" "block N b \<inter> ia_held w N a = {}" "ia_size a' = ia_size a"
proof -
  have wn: "N < w" "w \<le> 64" using assms by (auto simp: ia_inv_def)
  have al: "2 ^ N dvd b" using assms(3) not_aligned_iff [OF assms(2) wn(2,1)]
    by (auto simp: ia_alloc_major_at_def split: if_splits)
  have end_lt: "fa_end (ia_flat a) < 2 ^ w" using assms(1) by (simp add: ia_inv_def fa_inv_def)
  have "\<not> to_bits (fa_end (ia_flat a)) < to_bits b + block_size N"
    using assms(3) by (auto simp: ia_alloc_major_at_def Let_def split: if_splits)
  then have "b + 2 ^ N \<le> fa_end (ia_flat a)"
    using unat_to_bits_add [OF assms(2) wn] unat_to_bits [OF end_lt wn(2)] by (simp add: word_less_nat_alt)
  then have e: "from_bits w (to_bits b + block_size N) = b + 2 ^ N"
    using unat_to_bits_add [OF assms(2) wn] end_lt by (simp add: from_bits_def)
  obtain f where f: "fa_carve (ia_flat a) b (b + 2 ^ N) = Ok f" "b' = b"
    "a' = a\<lparr>ia_flat := f, ia_majors := bt_insert b (fa_new b (b + 2 ^ N)) (ia_majors a)\<rparr>"
    using assms(3) e by (auto simp: ia_alloc_major_at_def Let_def split: if_splits sum.splits)
  note m = ia_add_major [OF assms(1) al f(1)]
  show "b' = b" "2 ^ N dvd b" "ia_inv w N a'" "ia_blocks N a' = ia_blocks N a \<union> block N b"
    "ia_held w N a' = ia_held w N a" "block N b \<inter> ia_held w N a = {}" "ia_size a' = ia_size a"
    unfolding f(2,3) using m al by blast+
qed

lemma ia_alloc_minor_Some:
  assumes "ia_inv w N a" "ia_alloc_minor w a b = Some (i, a')"
  shows "ia_inv w N a'" "ia_blocks N a' = ia_blocks N a" "i \<in> block N b" "i \<notin> ia_held w N a"
    "ia_held w N a' = insert i (ia_held w N a)" "ia_size a' = ia_size a"
proof -
  obtain s s' where g: "bt_get (ia_majors a) b = Some s" and f: "fa_alloc w s = Some (i, s')"
    and a': "a' = a\<lparr>ia_majors := bt_insert b s' (ia_majors a)\<rparr>"
    using assms(2) by (auto simp: ia_alloc_minor_def split: option.splits)
  note m = ia_major_slot [OF assms(1) g] and h = ia_held_slot [OF assms(1) g]
  note r = fa_alloc_Some [OF m(4) f]
  note u = ia_update_slot [OF assms(1) g r(1,6,7)]
  show "ia_inv w N a'" "ia_blocks N a' = ia_blocks N a" using u(1,2) by (simp_all add: a')
  show i: "i \<in> block N b" using r(3) fa_free_universe [OF m(4)] m(5) by auto
  show "i \<notin> ia_held w N a" using h [OF i] r(3) by (simp add: fa_held_def)
  have "fa_held s' = insert i (fa_held s)" unfolding fa_held_def r(2,5) using i m(5) by blast
  then show "ia_held w N a' = insert i (ia_held w N a)" unfolding a' using u(3) h i by (auto split: if_splits)
  show "ia_size a' = ia_size a" by (simp add: a' ia_size_def)
qed

lemma ia_alloc_minor_None:
  assumes "ia_inv w N a" "b \<in> fst ` set (ia_majors a)" "ia_alloc_minor w a b = None"
  shows "block N b \<subseteq> ia_held w N a"
proof -
  obtain s where g: "bt_get (ia_majors a) b = Some s"
    using assms(2) bt_get_None_iff [of "ia_majors a" b] by auto
  note m = ia_major_slot [OF assms(1) g]
  have "fa_free s = {}" using assms(3) g fa_alloc_None [OF m(4)]
    by (auto simp: ia_alloc_minor_def split: option.splits)
  then show ?thesis using ia_held_slot [OF assms(1) g] m(5) by (auto simp: fa_held_def)
qed

lemma ia_dealloc_major_Ok:
  assumes "ia_inv w N a" "ia_dealloc_major w N a b = Ok a'"
  shows "ia_inv w N a'" "b \<in> fst ` set (ia_majors a)" "ia_blocks N a' = ia_blocks N a - block N b"
    "ia_held w N a' = ia_held w N a - block N b" "block N b \<subseteq> fa_free (ia_flat a')" "ia_size a' = ia_size a"
proof -
  obtain s where g: "bt_get (ia_majors a) b = Some s"
    and a': "a' = a\<lparr>ia_majors := bt_remove b (ia_majors a),
      ia_flat := fa_return_range (ia_flat a) b (ia_block_end w N b)\<rparr>"
    using assms(2) by (auto simp: ia_dealloc_major_def split: option.splits)
  note m = ia_major_slot [OF assms(1) g]
  have wn: "N < w" "w \<le> 64" and bt: "bt_inv (ia_majors a)" using assms(1) by (auto simp: ia_inv_def)
  have e: "ia_block_end w N b = b + 2 ^ N"
    using m(3,4) wn by (intro block_end_eq) (auto simp: fa_inv_def)
  show "b \<in> fst ` set (ia_majors a)" using m(7) by force
  have al: "2 ^ N dvd c" if "c \<in> fst ` set (ia_majors a)" for c using assms(1) that by (auto simp: ia_inv_def)
  have k: "fst ` set (bt_remove b (ia_majors a)) = fst ` set (ia_majors a) - {b}"
    by (force simp: set_bt_remove [OF bt])
  have "ia_blocks N a' = (\<Union>c\<in>fst ` set (ia_majors a) - {b}. block N c)" using k by (simp add: ia_blocks_def a')
  also have "\<dots> = ia_blocks N a - block N b"
    using block_disjoint [OF al [of _] m(1)] by (auto simp: ia_blocks_def disjoint_iff)
  finally show bl: "ia_blocks N a' = ia_blocks N a - block N b" .
  have sub: "{b..<b + 2 ^ N} \<subseteq> ia_blocks N a" using m(6) by (simp add: block_def)
  note r = fa_return_range_inv [OF ia_flat_inv [OF assms(1)] _ sub]
  have fl: "ia_flat a' = fa_return_range (ia_flat a) b (b + 2 ^ N)" by (simp add: a' e)
  show "ia_size a' = ia_size a" using r(3,4) by (simp add: ia_size_def fa_size_def fl)
  show fr: "block N b \<subseteq> fa_free (ia_flat a')" using r(2) by (simp add: fl block_def)
  have "fa_inv w (ia_blocks N a') (ia_flat a')" using r(1) by (simp add: fl bl block_def)
  then show inv: "ia_inv w N a'"
    using assms(1) r(3) bt_remove_inv [OF bt] fl by (auto simp: ia_inv_def a' set_bt_remove [OF bt])
  have "i \<in> ia_held w N a' \<longleftrightarrow> i \<in> ia_held w N a \<and> i \<notin> block N b" for i
  proof -
    consider (gone) "i \<in> block N b" | (other) "i \<in> ia_blocks N a'"
      | (flat) "i \<notin> ia_blocks N a" "i \<notin> block N b" using bl by blast
    then show ?thesis
    proof cases
      case gone
      then show ?thesis using ia_free_not_held [OF inv] fr by auto
    next
      case other
      obtain d t where d: "bt_get (ia_majors a') d = Some t" "i \<in> block N d"
        using ia_block_slot [OF inv other] by metis
      then have "bt_get (ia_majors a) d = Some t" by (auto simp: a' bt_get_remove [OF bt] split: if_splits)
      then show ?thesis using other bl ia_held_slot [OF inv d] ia_held_slot [OF assms(1) _ d(2)] by simp
    next
      case flat
      then have "i \<notin> ia_blocks N a'" using bl by auto
      then show ?thesis using flat ia_held_flat [OF inv, of i] ia_held_flat [OF assms(1) flat(1)] r(2-4)
        by (simp add: fl fa_held_def fa_universe_def block_def)
    qed
  qed
  then show "ia_held w N a' = ia_held w N a - block N b" by blast
qed

subsection \<open>Reachable states\<close>

inductive ia_step :: "nat \<Rightarrow> nat \<Rightarrow> id_alloc \<Rightarrow> id_alloc \<Rightarrow> bool" for w N where
  ia_step_alloc: "ia_alloc w a = Some (i, a') \<Longrightarrow> ia_step w N a a'"
| ia_step_alloc_at: "ia_alloc_at w N a i = Some (Ok a') \<Longrightarrow> ia_step w N a a'"
| ia_step_dealloc: "ia_dealloc w N a i = Ok a' \<Longrightarrow> ia_step w N a a'"
| ia_step_alloc_major: "ia_alloc_major w N a = Some (Some (b, a')) \<Longrightarrow> ia_step w N a a'"
| ia_step_alloc_major_at: "b < 2 ^ w \<Longrightarrow> ia_alloc_major_at w N a b = Ok (b', a') \<Longrightarrow> ia_step w N a a'"
| ia_step_alloc_minor: "ia_alloc_minor w a b = Some (i, a') \<Longrightarrow> ia_step w N a a'"
| ia_step_dealloc_major: "ia_dealloc_major w N a b = Ok a' \<Longrightarrow> ia_step w N a a'"
| ia_step_reset: "ia_step w N a (ia_reset a)"

lemma fa_reset_new: "fa_reset f s e = fa_new s e"
  by (simp add: fa_reset_def fa_new_def)

lemma ia_step_inv: "ia_step w N a a' \<Longrightarrow> ia_inv w N a \<Longrightarrow> ia_inv w N a' \<and> ia_size a' = ia_size a"
proof (induction rule: ia_step.induct)
  case (ia_step_alloc a i a')
  then show ?case using ia_alloc_Some(1,8) by blast
next
  case (ia_step_alloc_at a i a')
  then show ?case using ia_alloc_at_cases [of w N a i] by (auto split: if_splits)
next
  case (ia_step_dealloc a i a')
  then show ?case using ia_dealloc_cases [of w N a i] by (auto split: if_splits)
next
  case (ia_step_alloc_major a b a')
  then show ?case using ia_alloc_major_cases [of w N a] by simp
next
  case (ia_step_alloc_major_at b a b' a')
  then show ?case using ia_alloc_major_at_Ok(3,7) by blast
next
  case (ia_step_alloc_minor a b i a')
  then show ?case using ia_alloc_minor_Some(1,6) by blast
next
  case (ia_step_dealloc_major a b a')
  then show ?case using ia_dealloc_major_Ok(1,6) by blast
next
  case (ia_step_reset a)
  then have "fa_end (ia_flat a) < 2 ^ w" by (simp add: ia_inv_def fa_inv_def)
  from fa_new_inv [OF this] show ?case using ia_step_reset
    by (simp add: ia_inv_def ia_reset_def ia_blocks_def fa_reset_new fa_new_free ia_size_def fa_size_def)
qed

lemma ia_from_range_inv:
  assumes "ia_from_range w N s e = Ok a" "s < 2 ^ w" "e < 2 ^ w" "w \<le> 64"
  shows "ia_inv w N a" "ia_size a = e - s" "ia_held w N a = {}" "ia_majors a = []"
    "fa_universe (ia_flat a) = {s..<e}"
proof -
  have a: "N < w" "a = \<lparr>ia_flat = fa_new s e, ia_majors = []\<rparr>" "to_bits s AND low_mask N = 0"
    using assms(1) by (auto simp: ia_from_range_def ia_validate_range_def split: if_splits)
  then show inv: "ia_inv w N a"
    using not_aligned_iff [OF assms(2,4) a(1)] fa_new_inv [OF assms(3), of s] assms(4)
    by (simp add: ia_inv_def ia_blocks_def fa_new_free)
  show "ia_size a = e - s" "ia_majors a = []" "fa_universe (ia_flat a) = {s..<e}"
    by (simp_all add: a ia_size_def fa_size_def distance_to_def fa_new_free)
  show "ia_held w N a = {}" using ia_held_union [OF inv] by (simp add: a fa_held_def fa_new_free)
qed

lemma ia_reachable_inv:
  assumes "(ia_step w N)\<^sup>*\<^sup>* a0 a" "ia_inv w N a0"
  shows "ia_inv w N a \<and> ia_size a = ia_size a0"
  using assms by (induction rule: rtranclp_induct) (auto dest: ia_step_inv)

text \<open>The minors of one major, seen through the two-level allocator, are an index pool.\<close>

definition ia_dealloc_opt :: "nat \<Rightarrow> nat \<Rightarrow> nat \<Rightarrow> id_alloc \<Rightarrow> nat \<Rightarrow> id_alloc option" where
  "ia_dealloc_opt w N b a i =
     (if i \<in> block N b then (case ia_dealloc w N a i of Inl _ \<Rightarrow> None | Inr a' \<Rightarrow> Some a') else None)"

lemma ia_alloc_minor_keys:
  assumes "ia_alloc_minor w a b = Some (i, a')"
  shows "fst ` set (ia_majors a') = fst ` set (ia_majors a)"
proof -
  obtain s s' where "bt_get (ia_majors a) b = Some s" "a' = a\<lparr>ia_majors := bt_insert b s' (ia_majors a)\<rparr>"
    using assms by (auto simp: ia_alloc_minor_def split: option.splits)
  then show ?thesis using bt_get_None_iff [of "ia_majors a" b] by (auto simp: keys_bt_insert)
qed

lemma ia_dealloc_keys:
  assumes "ia_dealloc w N a i = Ok a'"
  shows "fst ` set (ia_majors a') = fst ` set (ia_majors a)"
proof (cases "bt_get (ia_majors a) (ia_token_base w N i)")
  case None
  then show ?thesis using assms
    by (auto simp: ia_dealloc_def map_sum_def Let_def split: if_splits sum.splits)
next
  case (Some s)
  then obtain s' where "a' = a\<lparr>ia_majors := bt_insert (ia_token_base w N i) s' (ia_majors a)\<rparr>"
    using assms by (auto simp: ia_dealloc_def map_sum_def Let_def split: if_splits sum.splits)
  then show ?thesis using Some bt_get_None_iff [of "ia_majors a" "ia_token_base w N i"]
    by (auto simp: keys_bt_insert)
qed

interpretation ia_minor_pool: index_pool "\<lambda>a. ia_inv w N a \<and> b \<in> fst ` set (ia_majors a)"
  "\<lambda>_. block N b" "\<lambda>a. ia_held w N a \<inter> block N b" "\<lambda>a. ia_alloc_minor w a b" "ia_dealloc_opt w N b" for w N b
proof
  fix a a' :: id_alloc and i :: nat
  assume inv: "ia_inv w N a \<and> b \<in> fst ` set (ia_majors a)"
  show "finite (block N b)" by (simp add: block_def)
  show "ia_held w N a \<inter> block N b \<subseteq> block N b" by simp
  show "ia_held w N a \<inter> block N b = block N b" if "ia_alloc_minor w a b = None"
    using ia_alloc_minor_None [OF _ _ that] inv by auto
  show "(ia_inv w N a' \<and> b \<in> fst ` set (ia_majors a')) \<and> block N b = block N b \<and> i \<in> block N b \<and>
      i \<notin> ia_held w N a \<inter> block N b \<and> ia_held w N a' \<inter> block N b = insert i (ia_held w N a \<inter> block N b)"
    if "ia_alloc_minor w a b = Some (i, a')"
    using ia_alloc_minor_Some [OF _ that] ia_alloc_minor_keys [OF that] inv by auto
  have blk: "block N b \<subseteq> fa_universe (ia_flat a)"
    using inv by (auto simp: ia_inv_def fa_inv_def fa_universe_def ia_blocks_def)
  show "(ia_inv w N a' \<and> b \<in> fst ` set (ia_majors a')) \<and> block N b = block N b \<and>
      i \<in> ia_held w N a \<inter> block N b \<and> ia_held w N a' \<inter> block N b = ia_held w N a \<inter> block N b - {i}"
    if r: "ia_dealloc_opt w N b a i = Some a'"
  proof -
    have d: "i \<in> block N b" "ia_dealloc w N a i = Ok a'"
      using r by (auto simp: ia_dealloc_opt_def split: if_splits sum.splits)
    then show ?thesis using ia_dealloc_cases [of w N a i] ia_dealloc_keys [OF d(2)] inv blk
      by (auto split: if_splits)
  qed
  show "i \<notin> ia_held w N a \<inter> block N b" if "ia_dealloc_opt w N b a i = None"
    using that ia_dealloc_cases [of w N a i] inv blk
    by (auto simp: ia_dealloc_opt_def split: if_splits sum.splits)
qed

section \<open>Properties\<close>

text \<open>C21: Whatever sequence of operations (flat and targeted allocation, release, reservation of majors,
  minors, release of majors, reset) runs on an allocator made by \<open>from_range\<close>, the counter \<open>used\<close> is the number of
  identifiers \<open>is_allocated\<close> reports, \<open>used\<close> and \<open>available\<close> add up to the size of the range, and the free-range
  table stays sorted, disjoint and fully coalesced.\<close>

theorem ia_reachable_accounting:
  assumes "ia_from_range w N s e = Ok a0" "s < 2 ^ w" "e < 2 ^ w" "w \<le> 64" "(ia_step w N)\<^sup>*\<^sup>* a0 a"
  shows "ia_used a = card {i. ia_is_allocated w N a i} \<and> ia_used a + ia_available a = e - s \<and>
    ranges_wf (fa_start (ia_flat a)) (fa_end (ia_flat a)) (fa_ranges (ia_flat a))"
proof -
  note b = ia_from_range_inv [OF assms(1-4)]
  note r = ia_reachable_inv [OF assms(5) b(1)]
  then show ?thesis
    using ia_used_card [of w N a] ia_total [of w N a] b(2) by (simp add: ia_held_def ia_inv_def fa_inv_def)
qed

theorem ia_reachable_accounting_witness:
  "\<exists>a0 a1 a2 b. ia_from_range 8 2 0 10 = Ok a0 \<and> ia_alloc_major 8 2 a0 = Some (Some (b, a1)) \<and>
     ia_alloc 8 a1 = Some (4, a2) \<and> ia_used a2 = 1 \<and> ia_used a2 + ia_available a2 = 10"
proof -
  define a0 :: id_alloc where "a0 = \<lparr>ia_flat = fa_new 0 10, ia_majors = []\<rparr>"
  define a1 :: id_alloc where "a1 = \<lparr>ia_flat = \<lparr>fa_start = 0, fa_end = 10, fa_inuse = 0, fa_ranges = [(4, 10)]\<rparr>,
      ia_majors = [(0, fa_new 0 4)]\<rparr>"
  define a2 :: id_alloc where "a2 = \<lparr>ia_flat = \<lparr>fa_start = 0, fa_end = 10, fa_inuse = 1, fa_ranges = [(5, 10)]\<rparr>,
      ia_majors = [(0, fa_new 0 4)]\<rparr>"
  have c0: "ia_from_range 8 2 0 10 = Ok a0" unfolding a0_def by code_simp
  have c1: "ia_alloc_major 8 2 a0 = Some (Some (0, a1))" unfolding a0_def a1_def by code_simp
  have c2: "ia_alloc 8 a1 = Some (4, a2)" unfolding a1_def a2_def by code_simp
  have "ia_step 8 2 a0 a1" "ia_step 8 2 a1 a2" using c1 c2 by (auto intro: ia_step_alloc_major ia_step_alloc)
  then have "(ia_step 8 2)\<^sup>*\<^sup>* a0 a2" by (rule converse_rtranclp_into_rtranclp [OF _ r_into_rtranclp])
  from ia_reachable_accounting [OF c0 _ _ _ this] have "ia_used a2 + ia_available a2 = 10" by simp
  moreover have "ia_used a2 = 1" unfolding a2_def by code_simp
  ultimately show ?thesis using c0 c1 c2 by blast
qed

text \<open>C27: Flat allocation never enters a reserved major: \<open>alloc\<close> returns the least identifier that is neither
  allocated nor inside the block of a major, marks exactly it as allocated, and fails only if there is none.\<close>

theorem ia_alloc_least_outside_majors:
  assumes "ia_inv w N a"
  shows "case ia_alloc w a of
      None \<Rightarrow> \<forall>i. fa_start (ia_flat a) \<le> i \<longrightarrow> i < fa_end (ia_flat a) \<longrightarrow>
        ia_is_allocated w N a i \<or> i \<in> ia_blocks N a
    | Some (i, a') \<Rightarrow> ia_inv w N a' \<and> i \<notin> ia_blocks N a \<and> \<not> ia_is_allocated w N a i \<and>
        (\<forall>j. fa_start (ia_flat a) \<le> j \<longrightarrow> j < i \<longrightarrow> ia_is_allocated w N a j \<or> j \<in> ia_blocks N a) \<and>
        (\<forall>j. ia_is_allocated w N a' j \<longleftrightarrow> j = i \<or> ia_is_allocated w N a j)"
proof (cases "ia_alloc w a")
  case None
  then show ?thesis using ia_alloc_None [OF assms None] by (auto simp: ia_held_def fa_universe_def)
next
  case (Some p)
  obtain i a' where p: "p = (i, a')" by force
  note r = ia_alloc_Some [OF assms Some [unfolded p]]
  have "ia_is_allocated w N a j \<or> j \<in> ia_blocks N a" if "fa_start (ia_flat a) \<le> j" "j < i" for j
    using r(3,7) that by (auto simp: ia_held_def fa_universe_def)
  then show ?thesis using Some p r by (auto simp: ia_held_def set_eq_iff)
qed

theorem ia_alloc_least_outside_majors_witness:
  "\<exists>a a'. ia_inv 8 2 a \<and> 0 \<in> ia_blocks 2 a \<and> ia_alloc 8 a = Some (4, a') \<and> ia_is_allocated 8 2 a' 4"
proof -
  have c0: "ia_from_range 8 2 0 10 = Ok \<lparr>ia_flat = fa_new 0 10, ia_majors = []\<rparr>" by code_simp
  let ?a = "\<lparr>ia_flat = \<lparr>fa_start = 0, fa_end = 10, fa_inuse = 0, fa_ranges = [(4, 10)]\<rparr>,
      ia_majors = [(0, fa_new 0 4)]\<rparr>"
  have "ia_alloc_major 8 2 \<lparr>ia_flat = fa_new 0 10, ia_majors = []\<rparr> = Some (Some (0, ?a))" by code_simp
  then have "ia_inv 8 2 ?a"
    using ia_step_inv [OF ia_step_alloc_major] ia_from_range_inv(1) [OF c0] by simp
  moreover have "0 \<in> ia_blocks 2 ?a" by (simp add: ia_blocks_def block_def)
  moreover have "map_option fst (ia_alloc 8 ?a) = Some 4" by code_simp
  then obtain a' where a': "ia_alloc 8 ?a = Some (4, a')" by auto
  moreover have "ia_is_allocated 8 2 a' 4"
    using ia_alloc_least_outside_majors [OF calculation(1)] unfolding a' by simp
  ultimately show ?thesis by blast
qed

text \<open>C28: \<open>alloc_at\<close> never panics on a well-formed allocator: it fails with \<open>OutOfRange\<close> exactly outside the range and
  with \<open>AlreadyAllocated\<close> exactly on an allocated identifier; otherwise it marks just that identifier, and
  \<open>dealloc\<close> of it succeeds and restores the allocated set, after which a second \<open>dealloc\<close> reports \<open>AlreadyFree\<close>.\<close>

theorem ia_alloc_at_dealloc_roundtrip:
  assumes "ia_inv w N a"
  shows "case ia_alloc_at w N a i of
      None \<Rightarrow> False
    | Some (Inl err) \<Rightarrow>
        err = (if ia_contains a i then AlreadyAllocated else IdOutOfRange) \<and>
        (ia_contains a i \<longrightarrow> ia_is_allocated w N a i)
    | Some (Inr a') \<Rightarrow> \<not> ia_is_allocated w N a i \<and> ia_inv w N a' \<and>
        {j. ia_is_allocated w N a' j} = insert i {j. ia_is_allocated w N a j} \<and>
        (\<exists>a''. ia_dealloc w N a' i = Ok a'' \<and> {j. ia_is_allocated w N a'' j} = {j. ia_is_allocated w N a j} \<and>
          ia_dealloc w N a'' i = Err IdAlreadyFree)"
proof -
  have c: "ia_contains a i \<longleftrightarrow> i \<in> fa_universe (ia_flat a)"
    by (simp add: ia_contains_def fa_contains_def fa_universe_def)
  show ?thesis
  proof (cases "i \<in> fa_universe (ia_flat a) \<and> i \<notin> ia_held w N a")
    case False
    then show ?thesis using ia_alloc_at_cases [OF assms, of i] c by (auto simp: ia_held_def split: if_splits)
  next
    case True
    then obtain a' where a': "ia_alloc_at w N a i = Some (Ok a')" "ia_inv w N a'"
        "ia_held w N a' = insert i (ia_held w N a)"
      using ia_alloc_at_cases [OF assms, of i] by auto
    have i': "i \<in> ia_held w N a'" using a'(3) by simp
    then have u': "i \<in> fa_universe (ia_flat a')" using ia_held_universe by blast
    then obtain a'' where a'': "ia_dealloc w N a' i = Ok a''" "ia_inv w N a''" "ia_held w N a'' = ia_held w N a' - {i}"
        "ia_size a'' = ia_size a'"
      using ia_dealloc_cases [OF a'(2), of i] i' by auto
    have h: "ia_held w N a'' = ia_held w N a" using a''(3) a'(3) True by auto
    have "fa_universe (ia_flat a'') = fa_universe (ia_flat a')"
      using a''(1) by (auto simp: ia_dealloc_def fa_dealloc_def fa_universe_def map_sum_def Let_def
          split: if_splits option.splits sum.splits)
    then have "ia_dealloc w N a'' i = Err IdAlreadyFree"
      using ia_dealloc_cases [OF a''(2), of i] u' h True by simp
    then show ?thesis using a' a'' h True by (simp add: ia_held_def)
  qed
qed

theorem ia_alloc_at_dealloc_roundtrip_witness:
  "\<exists>a'. ia_alloc_at 8 2 \<lparr>ia_flat = fa_new 0 10, ia_majors = []\<rparr> 5 = Some (Ok a') \<and> ia_inv 8 2 a'"
proof -
  let ?a = "\<lparr>ia_flat = fa_new 0 10, ia_majors = []\<rparr>"
  have c0: "ia_from_range 8 2 0 10 = Ok ?a" by code_simp
  have inv: "ia_inv 8 2 ?a" using ia_from_range_inv(1) [OF c0] by simp
  have "ia_contains ?a 5" "\<not> ia_is_allocated 8 2 ?a 5" by code_simp+
  then show ?thesis using ia_alloc_at_dealloc_roundtrip [OF inv, of 5]
    by (auto split: option.splits sum.splits)
qed

text \<open>\<open>alloc_major\<close> on a well-formed allocator never panics, and reserves an aligned block of \<open>2 ^ N\<close> identifiers
  whenever some aligned block of that size lies in the flat free space; the block is disjoint from all
  allocated identifiers and all other majors.  Then exactly \<open>2 ^ N\<close> minors can be allocated in it, all
  distinct and inside the block.\<close>

theorem ia_alloc_major_block:
  assumes "ia_inv w N a"
  shows "case ia_alloc_major w N a of
      None \<Rightarrow> False
    | Some None \<Rightarrow> \<forall>b. 2 ^ N dvd b \<longrightarrow> \<not> {b..<b + 2 ^ N} \<subseteq> free_ids (fa_ranges (ia_flat a))
    | Some (Some (b, a')) \<Rightarrow> 2 ^ N dvd b \<and> {b..<b + 2 ^ N} \<inter> ia_blocks N a = {} \<and> ia_inv w N a' \<and>
        (\<forall>i. b \<le> i \<longrightarrow> i < b + 2 ^ N \<longrightarrow> \<not> ia_is_allocated w N a i) \<and>
        (alloc_many (\<lambda>a. ia_alloc_minor w a b) n a' = None \<longleftrightarrow> 2 ^ N < n) \<and>
        (\<forall>is a''. alloc_many (\<lambda>a. ia_alloc_minor w a b) n a' = Some (is, a'') \<longrightarrow>
           distinct is \<and> set is \<subseteq> {b..<b + 2 ^ N})"
proof (cases "ia_alloc_major w N a")
  case None
  then show ?thesis using ia_alloc_major_cases [OF assms] by simp
next
  case (Some r)
  show ?thesis
  proof (cases r)
    case None
    then show ?thesis using Some ia_alloc_major_cases [OF assms] by (simp add: block_def fa_free_def)
  next
    case r: (Some p)
    obtain b a' where p: "p = (b, a')" by force
    have m: "2 ^ N dvd b" "block N b \<inter> ia_blocks N a = {}" "block N b \<inter> ia_held w N a = {}" "ia_inv w N a'"
        "bt_get (ia_majors a') b = Some (fa_new b (b + 2 ^ N))" "ia_held w N a' = ia_held w N a"
        "b \<in> fst ` set (ia_majors a')"
      using ia_alloc_major_cases [OF assms] Some r p bt_get_None_iff [of "ia_majors a'" b] by auto
    have inv': "ia_inv w N a' \<and> b \<in> fst ` set (ia_majors a')" using m(4,7) by blast
    have k: "alloc_many (\<lambda>a. ia_alloc_minor w a b) n a' = None \<longleftrightarrow> 2 ^ N < card (ia_held w N a' \<inter> block N b) + n"
      "\<forall>is a''. alloc_many (\<lambda>a. ia_alloc_minor w a b) n a' = Some (is, a'') \<longrightarrow> distinct is \<and> set is \<subseteq> block N b"
      using ia_minor_pool.alloc_many_None_iff [OF inv', of n] ia_minor_pool.alloc_many_Some [OF inv', of n]
      by (auto simp: block_def)
    have "ia_held w N a' \<inter> block N b = {}" using m(3,6) by auto
    then have "alloc_many (\<lambda>a. ia_alloc_minor w a b) n a' = None \<longleftrightarrow> 2 ^ N < n" using k(1) by simp
    moreover have "\<not> ia_is_allocated w N a i" if "b \<le> i" "i < b + 2 ^ N" for i
      using m(3) that by (auto simp: block_def ia_held_def disjoint_iff)
    ultimately show ?thesis using Some r p m(1,2,4) k(2) by (simp add: block_def)
  qed
qed

theorem ia_alloc_major_block_witness:
  "\<exists>a a'. ia_inv 8 2 a \<and> ia_alloc_major 8 2 a = Some (Some (4, a')) \<and>
     alloc_many (\<lambda>a. ia_alloc_minor 8 a 4) 5 a' = None"
proof -
  have c0: "ia_from_range 8 2 0 10 = Ok \<lparr>ia_flat = fa_new 0 10, ia_majors = []\<rparr>" by code_simp
  let ?a = "\<lparr>ia_flat = \<lparr>fa_start = 0, fa_end = 10, fa_inuse = 1, fa_ranges = [(1, 10)]\<rparr>, ia_majors = []\<rparr>"
  have "ia_alloc 8 \<lparr>ia_flat = fa_new 0 10, ia_majors = []\<rparr> = Some (0, ?a)" by code_simp
  then have inv: "ia_inv 8 2 ?a" using ia_step_inv [OF ia_step_alloc] ia_from_range_inv(1) [OF c0] by simp
  have "map_option (map_option fst) (ia_alloc_major 8 2 ?a) = Some (Some 4)" by code_simp
  then obtain a' where a': "ia_alloc_major 8 2 ?a = Some (Some (4, a'))" by auto
  have "alloc_many (\<lambda>a. ia_alloc_minor 8 a 4) 5 a' = None"
    using ia_alloc_major_block [OF inv, of 5] unfolding a' by simp
  then show ?thesis using inv a' by blast
qed

text \<open>\<open>dealloc_major\<close> frees the whole block whatever minors were allocated in it: afterwards no identifier of the
  block is allocated, all other identifiers keep their state, and the block is back in the flat free space;
  on an unknown base it reports \<open>MajorNotFound\<close>.\<close>

theorem ia_dealloc_major_frees_block:
  assumes "ia_inv w N a"
  shows "case ia_dealloc_major w N a b of
      Inl err \<Rightarrow> err = MajorNotFound \<and> b \<notin> fst ` set (ia_majors a)
    | Inr a' \<Rightarrow> ia_inv w N a' \<and> b \<notin> fst ` set (ia_majors a') \<and>
        {b..<b + 2 ^ N} \<subseteq> free_ids (fa_ranges (ia_flat a')) \<and>
        {i. ia_is_allocated w N a' i} = {i. ia_is_allocated w N a i} - {b..<b + 2 ^ N}"
proof (cases "ia_dealloc_major w N a b")
  case (Inl err)
  then show ?thesis by (auto simp: ia_dealloc_major_def bt_get_None_iff split: option.splits)
next
  case (Inr a')
  note r = ia_dealloc_major_Ok [OF assms Inr]
  have "b \<in> block N b" by (simp add: block_def)
  then have "b \<notin> fst ` set (ia_majors a')" using r(3) by (auto simp: ia_blocks_def)
  then show ?thesis using Inr r by (simp add: ia_held_def block_def fa_free_def)
qed

theorem ia_dealloc_major_frees_block_witness:
  "\<exists>a a'. ia_inv 8 2 a \<and> ia_is_allocated 8 2 a 0 \<and> ia_dealloc_major 8 2 a 0 = Ok a' \<and> \<not> ia_is_allocated 8 2 a' 0"
proof -
  have c0: "ia_from_range 8 2 0 10 = Ok \<lparr>ia_flat = fa_new 0 10, ia_majors = []\<rparr>" by code_simp
  let ?f = "\<lparr>fa_start = 0, fa_end = 10, fa_inuse = 0, fa_ranges = [(4, 10)]\<rparr>"
  let ?a = "\<lparr>ia_flat = ?f, ia_majors = [(0, fa_new 0 4)]\<rparr>"
  let ?b = "\<lparr>ia_flat = ?f, ia_majors = [(0, \<lparr>fa_start = 0, fa_end = 4, fa_inuse = 1, fa_ranges = [(1, 4)]\<rparr>)]\<rparr>"
  have "ia_alloc_major 8 2 \<lparr>ia_flat = fa_new 0 10, ia_majors = []\<rparr> = Some (Some (0, ?a))" by code_simp
  then have inv: "ia_inv 8 2 ?a"
    using ia_step_inv [OF ia_step_alloc_major] ia_from_range_inv(1) [OF c0] by simp
  have "ia_alloc_minor 8 ?a 0 = Some (0, ?b)" by code_simp
  then have inv: "ia_inv 8 2 ?b" using ia_step_inv [OF ia_step_alloc_minor] inv by blast
  have a0: "ia_is_allocated 8 2 ?b 0" by code_simp
  have "(case ia_dealloc_major 8 2 ?b 0 of Inl _ \<Rightarrow> False | Inr _ \<Rightarrow> True)" by code_simp
  then obtain a' where a': "ia_dealloc_major 8 2 ?b 0 = Ok a'" by (auto split: sum.splits)
  have e: "{i. ia_is_allocated 8 2 a' i} = {i. ia_is_allocated 8 2 ?b i} - {0..<0 + 2 ^ 2}"
    using ia_dealloc_major_frees_block [OF inv, of 0] unfolding a' by simp
  have "0 \<notin> {i. ia_is_allocated 8 2 a' i}" unfolding e by simp
  then have "\<not> ia_is_allocated 8 2 a' 0" by simp
  then show ?thesis using inv a0 a' by blast
qed

end
