(* ===== verification/Trie_Map.thy ===== *)
theory Trie_Map
  imports Btree_Map
begin

text \<open>
  The crate \<open>athera-trie\<close> (crates/athera-trie/src/lib.rs): a prefix tree keyed by sequences, whose
  nodes hold an optional value and a \<open>BTreeMap\<close> of children.  The loops of \<open>insert\<close> and \<open>node_of\<close> that walk
  a (mutable) reference down the tree are recursions over the key.  An iterator has a
  stack of frames, top first, the path of the top frame and the number of entries still to come.
\<close>

datatype ('k, 'v) node = Node (children: "('k \<times> ('k, 'v) node) list") (node_value: "'v option")

lemma node_child_size [termination_simp]: "(k, c) \<in> set cs \<Longrightarrow> size c < Suc (size_list (size_prod (\<lambda>_. 0) size) cs)"
  by (induction cs) (auto simp: less_Suc_eq_le)

definition node_default :: "('k, 'v) node" where
  "node_default = Node [] None"

definition is_prunable :: "('k, 'v) node \<Rightarrow> bool" where
  "is_prunable n \<longleftrightarrow> node_value n = None \<and> children n = []"

fun node_count :: "('k, 'v) node \<Rightarrow> nat" where
  "node_count (Node cs v) =
     (case v of None \<Rightarrow> 0 | Some _ \<Rightarrow> 1) + sum_list (map (\<lambda>(k, c). node_count c) cs)"

fun has_entry :: "('k, 'v) node \<Rightarrow> bool" where
  "has_entry (Node cs v) \<longleftrightarrow> v \<noteq> None \<or> list_ex (\<lambda>(k, c). has_entry c) cs"

fun node_of :: "('k, 'v) node \<Rightarrow> 'k list \<Rightarrow> ('k, 'v) node option" where
  "node_of n [] = Some n"
| "node_of n (k # ks) = (case bt_get (children n) k of None \<Rightarrow> None | Some c \<Rightarrow> node_of c ks)"

fun remove_at :: "('k::linorder, 'v) node \<Rightarrow> 'k list \<Rightarrow> ('v \<times> ('k, 'v) node) option" where
  "remove_at n [] = (case node_value n of None \<Rightarrow> None | Some v \<Rightarrow> Some (v, Node (children n) None))"
| "remove_at n (first # rest) =
     (case bt_get (children n) first of None \<Rightarrow> None
      | Some c \<Rightarrow>
          (case remove_at c rest of None \<Rightarrow> None
           | Some (old, c') \<Rightarrow>
               let cs = bt_insert first c' (children n)
               in Some (old, Node (if is_prunable c' then bt_remove first cs else cs) (node_value n))))"

fun insert_at :: "('k::linorder, 'v) node \<Rightarrow> 'k list \<Rightarrow> 'v \<Rightarrow> 'v option \<times> ('k, 'v) node" where
  "insert_at n [] value = (node_value n, Node (children n) (Some value))"
| "insert_at n (k # ks) value =
     (let c = (case bt_get (children n) k of None \<Rightarrow> node_default | Some c \<Rightarrow> c);
          (old, c') = insert_at c ks value
      in (old, Node (bt_insert k c' (children n)) (node_value n)))"

fun update_at :: "('k::linorder, 'v) node \<Rightarrow> 'k list \<Rightarrow> 'v \<Rightarrow> ('k, 'v) node option" where
  "update_at n [] value = (case node_value n of None \<Rightarrow> None | Some _ \<Rightarrow> Some (Node (children n) (Some value)))"
| "update_at n (k # ks) value =
     (case bt_get (children n) k of None \<Rightarrow> None
      | Some c \<Rightarrow>
          (case update_at c ks value of None \<Rightarrow> None
           | Some c' \<Rightarrow> Some (Node (bt_insert k c' (children n)) (node_value n))))"

fun longest_prefix_loop ::
  "('k, 'v) node \<Rightarrow> 'k list \<Rightarrow> nat \<Rightarrow> (nat \<times> 'v) option \<Rightarrow> (nat \<times> 'v) option" where
  "longest_prefix_loop n [] i best = best"
| "longest_prefix_loop n (k # ks) i best =
     (case bt_get (children n) k of None \<Rightarrow> best
      | Some c \<Rightarrow>
          longest_prefix_loop c ks (i + 1)
            (case node_value c of None \<Rightarrow> best | Some v \<Rightarrow> Some (i + 1, v)))"

section \<open>The trie\<close>

record ('k, 'v) trie =
  trie_root :: "('k, 'v) node"
  trie_len :: nat

definition trie_new :: "('k, 'v) trie" where
  "trie_new = \<lparr>trie_root = Node [] None, trie_len = 0\<rparr>"

definition trie_is_empty :: "('k, 'v) trie \<Rightarrow> bool" where
  "trie_is_empty t \<longleftrightarrow> trie_len t = 0"

definition trie_clear :: "('k, 'v) trie \<Rightarrow> ('k, 'v) trie" where
  "trie_clear t = t\<lparr>trie_root := Node [] None, trie_len := 0\<rparr>"

definition trie_get :: "('k, 'v) trie \<Rightarrow> 'k list \<Rightarrow> 'v option" where
  "trie_get t key = (case node_of (trie_root t) key of None \<Rightarrow> None | Some n \<Rightarrow> node_value n)"

text \<open>Writing through the reference \<open>get_mut\<close> returns; \<open>None\<close> when it returns none.\<close>

definition trie_get_mut_write :: "('k::linorder, 'v) trie \<Rightarrow> 'k list \<Rightarrow> 'v \<Rightarrow> ('k, 'v) trie option" where
  "trie_get_mut_write t key value =
     map_option (\<lambda>n. t\<lparr>trie_root := n\<rparr>) (update_at (trie_root t) key value)"

definition trie_contains_key :: "('k, 'v) trie \<Rightarrow> 'k list \<Rightarrow> bool" where
  "trie_contains_key t key \<longleftrightarrow> trie_get t key \<noteq> None"

definition trie_remove :: "('k::linorder, 'v) trie \<Rightarrow> 'k list \<Rightarrow> 'v option \<times> ('k, 'v) trie" where
  "trie_remove t key =
     (case remove_at (trie_root t) key of None \<Rightarrow> (None, t)
      | Some (old, n) \<Rightarrow> (Some old, t\<lparr>trie_root := n, trie_len := trie_len t - 1\<rparr>))"

definition trie_longest_prefix :: "('k, 'v) trie \<Rightarrow> 'k list \<Rightarrow> ('k list \<times> 'v) option" where
  "trie_longest_prefix t key =
     (let best = (case node_value (trie_root t) of None \<Rightarrow> None | Some v \<Rightarrow> Some (0, v))
      in map_option (\<lambda>(depth, v). (take depth key, v)) (longest_prefix_loop (trie_root t) key 0 best))"

definition trie_contains_prefix :: "('k, 'v) trie \<Rightarrow> 'k list \<Rightarrow> bool" where
  "trie_contains_prefix t prefix =
     (case node_of (trie_root t) prefix of None \<Rightarrow> False | Some n \<Rightarrow> has_entry n)"

definition trie_insert :: "('k::linorder, 'v) trie \<Rightarrow> 'k list \<Rightarrow> 'v \<Rightarrow> 'v option \<times> ('k, 'v) trie" where
  "trie_insert t key value =
     (let (old, n) = insert_at (trie_root t) key value
      in (old, t\<lparr>trie_root := n, trie_len := (if old = None then trie_len t + 1 else trie_len t)\<rparr>))"

section \<open>The iterator\<close>

record ('k, 'v) frame =
  fr_node :: "('k, 'v) node"
  fr_children :: "('k \<times> ('k, 'v) node) list"
  fr_emitted :: bool

record ('k, 'v) trie_iter =
  it_frames :: "('k, 'v) frame list"
  it_path :: "'k list"
  it_remaining :: nat

definition frame_of :: "('k, 'v) node \<Rightarrow> ('k, 'v) frame" where
  "frame_of n = \<lparr>fr_node = n, fr_children = children n, fr_emitted = False\<rparr>"

definition iter_new :: "('k, 'v) node \<Rightarrow> 'k list \<Rightarrow> nat \<Rightarrow> ('k, 'v) trie_iter" where
  "iter_new root path remaining =
     \<lparr>it_frames = [frame_of root], it_path = path, it_remaining = remaining\<rparr>"

definition iter_empty :: "('k, 'v) trie_iter" where
  "iter_empty = \<lparr>it_frames = [], it_path = [], it_remaining = 0\<rparr>"

fun node_weight :: "('k, 'v) node \<Rightarrow> nat" where
  "node_weight (Node cs v) = 3 + sum_list (map (\<lambda>(k, c). node_weight c) cs)"

definition frame_weight :: "('k, 'v) frame \<Rightarrow> nat" where
  "frame_weight f = 1 + (if fr_emitted f then 0 else 1) + sum_list (map (\<lambda>(k, c). node_weight c) (fr_children f))"

text \<open>
  One call of \<open>next\<close>: the top frame first gives its own value, then descends into its next child or
  is popped together with the last element of the path.
\<close>

function iter_next ::
  "('k, 'v) frame list \<Rightarrow> 'k list \<Rightarrow> nat \<Rightarrow> (('k list \<times> 'v) \<times> ('k, 'v) trie_iter) option" where
  "iter_next [] path remaining = None"
| "iter_next (f # fs) path remaining =
     (if \<not> fr_emitted f \<and> node_value (fr_node f) \<noteq> None
      then Some ((path, the (node_value (fr_node f))),
                 \<lparr>it_frames = f\<lparr>fr_emitted := True\<rparr> # fs, it_path = path, it_remaining = remaining - 1\<rparr>)
      else case fr_children f of
          (k, child) # cs \<Rightarrow>
            iter_next (frame_of child # f\<lparr>fr_emitted := True, fr_children := cs\<rparr> # fs) (path @ [k]) remaining
        | [] \<Rightarrow> iter_next fs (butlast path) remaining)"
  by pat_completeness auto

lemma node_weight_frame: "node_weight n = frame_weight (frame_of n) + 1"
  by (cases n) (simp add: frame_weight_def frame_of_def)

lemma frame_weight_descend:
  assumes "fr_children f = (k, c) # cs"
  shows "frame_weight (frame_of c) + frame_weight (f\<lparr>fr_emitted := True, fr_children := cs\<rparr>) < frame_weight f"
proof -
  have "frame_weight f = frame_weight (f\<lparr>fr_children := cs\<rparr>) + node_weight c"
    using assms by (simp add: frame_weight_def)
  moreover have "frame_weight (f\<lparr>fr_emitted := True, fr_children := cs\<rparr>) \<le> frame_weight (f\<lparr>fr_children := cs\<rparr>)"
    by (simp add: frame_weight_def)
  ultimately show ?thesis by (simp add: node_weight_frame)
qed

lemma frame_weight_pos: "0 < frame_weight f"
  by (simp add: frame_weight_def)

termination iter_next
  by (relation "measure (\<lambda>(fs, _, _). sum_list (map frame_weight fs))")
    (auto simp: frame_weight_pos dest: frame_weight_descend)

definition trie_iter_next :: "('k, 'v) trie_iter \<Rightarrow> (('k list \<times> 'v) \<times> ('k, 'v) trie_iter) option" where
  "trie_iter_next it = iter_next (it_frames it) (it_path it) (it_remaining it)"

definition iter_size_hint :: "('k, 'v) trie_iter \<Rightarrow> nat \<times> nat option" where
  "iter_size_hint it = (it_remaining it, Some (it_remaining it))"

definition trie_iter_all :: "('k, 'v) trie \<Rightarrow> ('k, 'v) trie_iter" where
  "trie_iter_all t = iter_new (trie_root t) [] (trie_len t)"

definition trie_iter_prefix :: "('k, 'v) trie \<Rightarrow> 'k list \<Rightarrow> ('k, 'v) trie_iter" where
  "trie_iter_prefix t prefix =
     (case node_of (trie_root t) prefix of
        Some n \<Rightarrow> iter_new n prefix (node_count n)
      | None \<Rightarrow> iter_empty)"

text \<open>Draining an iterator: \<open>fuel\<close> bounds the calls of \<open>next\<close>; \<open>None\<close> when it does not suffice.\<close>

fun iter_collect :: "nat \<Rightarrow> ('k, 'v) trie_iter \<Rightarrow> ('k list \<times> 'v) list option" where
  "iter_collect 0 it = None"
| "iter_collect (Suc fuel) it =
     (case trie_iter_next it of None \<Rightarrow> Some []
      | Some (x, it') \<Rightarrow> map_option ((#) x) (iter_collect fuel it'))"

end
