(* ===== verification/Trie_Correct.thy ===== *)
theory Trie_Correct
  imports Trie_Map
begin

text \<open>
  Correctness of the trie.  The abstraction of a node is the partial map \<open>nlookup\<close> from key
  sequences to values; well-formed nodes (\<open>node_wf\<close>) have sorted children each of which holds an
  entry, so there are no dead branches.  The trie implements the map contract
  \<open>key_map\<close>, its length is the size of the map, and the iterator yields the map's graph in
  strictly increasing lexicographic order.
\<close>

fun node_wf :: "('k::linorder, 'v) node \<Rightarrow> bool" where
  "node_wf (Node cs v) \<longleftrightarrow> bt_inv cs \<and> list_all (\<lambda>(k, c). node_wf c \<and> has_entry c) cs"

definition nlookup :: "('k, 'v) node \<Rightarrow> 'k list \<Rightarrow> 'v option" where
  "nlookup n ks = (case node_of n ks of None \<Rightarrow> None | Some m \<Rightarrow> node_value m)"

fun entries :: "('k, 'v) node \<Rightarrow> ('k list \<times> 'v) list" where
  "entries (Node cs v) = (case v of None \<Rightarrow> [] | Some x \<Rightarrow> [([], x)]) @
     concat (map (\<lambda>(k, c). map (\<lambda>(ks, x). (k # ks, x)) (entries c)) cs)"

definition child_entries :: "('k \<times> ('k, 'v) node) list \<Rightarrow> ('k list \<times> 'v) list" where
  "child_entries cs = concat (map (\<lambda>(k, c). map (\<lambda>(ks, x). (k # ks, x)) (entries c)) cs)"

abbreviation lex_less :: "'k::linorder list \<Rightarrow> 'k list \<Rightarrow> bool" where
  "lex_less \<equiv> ord_class.lexordp"

section \<open>Nodes as maps\<close>

lemma nlookup_simps [simp]:
  "nlookup n [] = node_value n"
  "nlookup n (k # ks) = (case bt_get (children n) k of None \<Rightarrow> None | Some c \<Rightarrow> nlookup c ks)"
  by (auto simp: nlookup_def split: option.splits)

lemma nlookup_default [simp]: "nlookup node_default ks = None"
  by (cases ks) (simp_all add: node_default_def bt_get_def)

lemma node_wf_children:
  assumes "node_wf n"
  shows "bt_inv (children n)" "bt_get (children n) k = Some c \<Longrightarrow> node_wf c \<and> has_entry c"
  using assms by (cases n; fastforce simp: list_all_iff bt_get_iff)+

lemma node_wf_default [simp]: "node_wf node_default" "\<not> has_entry node_default"
  by (simp_all add: node_default_def)

lemma entries_child: "entries n = (case node_value n of None \<Rightarrow> [] | Some x \<Rightarrow> [([], x)]) @ child_entries (children n)"
  by (cases n) (simp add: child_entries_def)

declare entries.simps [simp del]

lemma child_entries_Cons [simp]:
  "child_entries [] = []"
  "child_entries ((k, c) # cs) = map (\<lambda>(ks, x). (k # ks, x)) (entries c) @ child_entries cs"
  by (simp_all add: child_entries_def)

lemma set_child_entries:
  "(ks, x) \<in> set (child_entries cs) \<longleftrightarrow> (\<exists>k c js. (k, c) \<in> set cs \<and> ks = k # js \<and> (js, x) \<in> set (entries c))"
  by (induction cs) (auto, blast+)

lemma entries_lookup: "node_wf n \<Longrightarrow> (ks, x) \<in> set (entries n) \<longleftrightarrow> nlookup n ks = Some x"
proof (induction ks arbitrary: n)
  case Nil
  then show ?case by (subst entries_child) (auto simp: set_child_entries split: option.splits)
next
  case (Cons k ks)
  note w = node_wf_children [OF Cons.prems]
  have "(k # ks, x) \<in> set (entries n) \<longleftrightarrow> (\<exists>c. bt_get (children n) k = Some c \<and> (ks, x) \<in> set (entries c))"
    using bt_get_iff [OF w(1)] by (subst entries_child) (auto simp: set_child_entries split: option.splits)
  then show ?case using Cons.IH w(2) by (auto split: option.splits)
qed

lemma length_entries: "length (entries n) = node_count n"
proof (induction n rule: node_count.induct)
  case (1 cs v)
  then have "\<forall>(k, c)\<in>set cs. length (entries c) = node_count c" by auto
  then have "length (child_entries cs) = sum_list (map (\<lambda>(k, c). node_count c) cs)"
    by (induction cs) auto
  then show ?case by (simp add: entries_child split: option.splits)
qed

lemma has_entry_entries: "has_entry n \<longleftrightarrow> entries n \<noteq> []"
proof (induction n rule: has_entry.induct)
  case (1 cs v)
  then have "\<forall>(k, c)\<in>set cs. has_entry c \<longleftrightarrow> entries c \<noteq> []" by auto
  then have "list_ex (\<lambda>(k, c). has_entry c) cs \<longleftrightarrow> child_entries cs \<noteq> []"
    by (induction cs) auto
  then show ?case by (auto simp: entries_child split: option.splits)
qed

lemma has_entry_iff: "node_wf n \<Longrightarrow> has_entry n \<longleftrightarrow> (\<exists>ks x. nlookup n ks = Some x)"
  using entries_lookup [of n] by (auto simp: has_entry_entries) (metis list.set_intros(1) neq_Nil_conv surj_pair)+

lemma lexordp_Cons_lift: "sorted_wrt lex_less (map fst es) \<Longrightarrow> sorted_wrt lex_less (map fst (map (\<lambda>(ks, x). (k # ks, x)) es))"
  by (induction es) (auto simp: split_beta)

lemma child_entries_sorted:
  assumes "bt_inv cs" "\<And>k c. (k, c) \<in> set cs \<Longrightarrow> sorted_wrt lex_less (map fst (entries c))"
  shows "sorted_wrt lex_less (map fst (child_entries cs))"
  using assms
proof (induction cs)
  case (Cons p cs)
  obtain k c where p: "p = (k, c)" by force
  have "\<forall>x\<in>set (child_entries cs). \<exists>j js. fst x = j # js \<and> k < j"
    using Cons.prems(1) by (force simp: p set_child_entries)
  then have "lex_less (k # ks) (fst x)" if "x \<in> set (child_entries cs)" for ks x
    using that by fastforce
  moreover have "sorted_wrt lex_less (map fst (child_entries cs))"
    using Cons.prems Cons.IH by (auto simp: p)
  moreover have "sorted_wrt lex_less (map fst (map (\<lambda>(ks, x). (k # ks, x)) (entries c)))"
    using Cons.prems(2) [of k c] by (intro lexordp_Cons_lift) (simp add: p)
  ultimately show ?case by (auto simp: p sorted_wrt_append)
qed simp

lemma entries_sorted: "node_wf n \<Longrightarrow> sorted_wrt lex_less (map fst (entries n))"
proof (induction n rule: node_wf.induct)
  case (1 cs v)
  have "sorted_wrt lex_less (map fst (child_entries cs))"
    using 1 by (intro child_entries_sorted) (auto simp: list_all_iff)
  moreover have "fst x \<noteq> []" if "x \<in> set (child_entries cs)" for x
    using that by (metis list.distinct(1) prod.collapse set_child_entries)
  ultimately show ?case by (auto simp: entries_child split: option.splits)
qed

lemma sorted_wrt_irrefl_distinct: "sorted_wrt R xs \<Longrightarrow> (\<And>x. \<not> R x x) \<Longrightarrow> distinct xs"
  by (induction xs) auto

lemma lex_less_irrefl: "\<not> lex_less xs (xs :: 'k::linorder list)"
  by (induction xs) auto

lemma entries_distinct: "node_wf n \<Longrightarrow> distinct (map fst (entries n))"
  by (rule sorted_wrt_irrefl_distinct [OF entries_sorted]) (auto simp: lex_less_irrefl)

lemma dom_nlookup: "node_wf n \<Longrightarrow> dom (nlookup n) = fst ` set (entries n)"
  using entries_lookup [of n] by force

lemma card_dom_nlookup: "node_wf n \<Longrightarrow> card (dom (nlookup n)) = node_count n"
  using entries_distinct [of n] distinct_card [of "map fst (entries n)"]
  by (simp add: dom_nlookup length_entries)

lemma finite_dom_nlookup: "node_wf n \<Longrightarrow> finite (dom (nlookup n))"
  by (simp add: dom_nlookup)

section \<open>Insertion and removal\<close>

lemma insert_at_lookup:
  "fst (insert_at n ks x) = nlookup n ks"
  "nlookup (snd (insert_at n ks x)) js = (if js = ks then Some x else nlookup n js)"
proof (induction ks arbitrary: n js)
  case Nil
  { case 1 then show ?case by simp
  next
    case 2 then show ?case by (cases js) simp_all }
next
  case (Cons k ks)
  { case 1 then show ?case using Cons.IH(1) by (auto simp: Let_def split_beta split: option.splits)
  next
    case 2 show ?case
    proof (cases js)
      case (Cons j js')
      then show ?thesis using Cons.IH(2)
        by (auto simp: Let_def split_beta bt_get_insert split: option.splits)
    qed (simp add: Let_def split_beta) }
qed

lemma set_ball_bt_insert:
  "bt_inv m \<Longrightarrow> (\<forall>(k, c)\<in>set m. P c) \<Longrightarrow> P c' \<Longrightarrow> \<forall>(k, c)\<in>set (bt_insert j c' m). P c"
  by (auto simp: set_bt_insert)

lemma insert_at_wf: "node_wf n \<Longrightarrow> node_wf (snd (insert_at n ks x)) \<and> has_entry (snd (insert_at n ks x))"
proof (induction ks arbitrary: n)
  case Nil
  then show ?case by (cases n) auto
next
  case (Cons k ks)
  note w = node_wf_children [OF Cons.prems]
  let ?c = "case bt_get (children n) k of None \<Rightarrow> node_default | Some c \<Rightarrow> c"
  let ?m = "bt_insert k (snd (insert_at ?c ks x)) (children n)"
  have c: "node_wf (snd (insert_at ?c ks x))" "has_entry (snd (insert_at ?c ks x))"
    using Cons.IH [of ?c] w(2) [of k] by (auto split: option.splits)
  have "\<forall>(j, d)\<in>set ?m. node_wf d \<and> has_entry d"
    using Cons.prems c by (intro set_ball_bt_insert [OF w(1)]) (cases n; auto simp: list_all_iff)+
  moreover have "(k, snd (insert_at ?c ks x)) \<in> set ?m" by (simp add: set_bt_insert [OF w(1)])
  ultimately show ?case
    using c bt_insert_inv [OF w(1)] by (auto simp: Let_def split_beta list_all_iff list_ex_iff)
qed

lemma remove_at_None: "remove_at n ks = None \<longleftrightarrow> nlookup n ks = None"
  by (induction n ks rule: remove_at.induct) (auto simp: Let_def split: option.splits)

lemma prunable_lookup: "is_prunable n \<Longrightarrow> nlookup n ks = None"
  by (cases ks) (auto simp: is_prunable_def bt_get_def)

lemma remove_at_lookup:
  assumes "node_wf n" "remove_at n ks = Some (x, n')"
  shows "nlookup n ks = Some x \<and> (\<forall>js. nlookup n' js = (if js = ks then None else nlookup n js))"
  using assms
proof (induction n ks arbitrary: x n' rule: remove_at.induct)
  case (1 n)
  have "nlookup n' js = (if js = [] then None else nlookup n js)" for js
    using 1 by (cases js) (auto split: option.splits)
  then show ?case using 1 by (auto split: option.splits)
next
  case (2 n k ks)
  note w = node_wf_children [OF "2.prems"(1)]
  obtain c c' where c: "bt_get (children n) k = Some c" and r: "remove_at c ks = Some (x, c')"
    and n': "n' = Node (if is_prunable c' then bt_remove k (bt_insert k c' (children n))
        else bt_insert k c' (children n)) (node_value n)"
    using "2.prems"(2) by (auto simp: Let_def split: option.splits)
  note IH = "2.IH" [OF c _ r]
  have g: "bt_get (children n') j =
      (if j = k then (if is_prunable c' then None else Some c') else bt_get (children n) j)" for j
    using w(1) by (simp add: n' bt_get_remove bt_insert_inv bt_get_insert)
  have "nlookup n' js = (if js = k # ks then None else nlookup n js)" for js
  proof (cases js)
    case Nil
    then show ?thesis by (simp add: n')
  next
    case (Cons j js')
    then show ?thesis using IH w(2) [OF c] c g prunable_lookup [of c' js'] by auto
  qed
  then show ?case using IH w(2) [OF c] c by simp
qed

lemma has_entry_children:
  "\<forall>(j, d)\<in>set (children n). has_entry d \<Longrightarrow> has_entry n \<longleftrightarrow> \<not> is_prunable n"
  by (cases n; cases "children n") (auto simp: is_prunable_def list_ex_iff)

lemma remove_at_wf:
  assumes "node_wf n" "remove_at n ks = Some (x, n')"
  shows "node_wf n' \<and> (has_entry n' \<longleftrightarrow> \<not> is_prunable n')"
  using assms
proof (induction n ks arbitrary: x n' rule: remove_at.induct)
  case (1 n)
  then have "children n' = children n" "node_wf n'" by (cases n; auto split: option.splits)+
  then show ?case using has_entry_children [of n'] by (cases n') (auto simp: list_all_iff)
next
  case (2 n k ks)
  note w = node_wf_children [OF "2.prems"(1)]
  obtain c c' where c: "bt_get (children n) k = Some c" and r: "remove_at c ks = Some (x, c')"
    and n': "n' = Node (if is_prunable c' then bt_remove k (bt_insert k c' (children n))
        else bt_insert k c' (children n)) (node_value n)"
    using "2.prems"(2) by (auto simp: Let_def split: option.splits)
  have IH: "node_wf c'" "has_entry c' \<longleftrightarrow> \<not> is_prunable c'" using "2.IH" [OF c _ r] w(2) [OF c] by auto
  have all: "\<forall>(j, d)\<in>set (children n). node_wf d \<and> has_entry d"
    using "2.prems"(1) by (cases n) (auto simp: list_all_iff)
  have "bt_inv (children n')" using w(1) by (simp add: n' bt_remove_inv bt_insert_inv)
  moreover have ch: "\<forall>(j, d)\<in>set (children n'). node_wf d \<and> has_entry d"
    using all IH w(1) by (auto simp: n' set_bt_remove bt_insert_inv set_bt_insert)
  ultimately have "node_wf n'" by (cases n') (auto simp: list_all_iff)
  moreover have "has_entry n' \<longleftrightarrow> \<not> is_prunable n'"
    using ch by (intro has_entry_children) auto
  ultimately show ?case by blast
qed

section \<open>The trie\<close>

definition trie_inv :: "('k::linorder, 'v) trie \<Rightarrow> bool" where
  "trie_inv t \<longleftrightarrow> node_wf (trie_root t) \<and> trie_len t = card (dom (trie_get t))"

lemma trie_get_nlookup: "trie_get t = nlookup (trie_root t)"
  by (simp add: trie_get_def nlookup_def fun_eq_iff)

lemma trie_insert_get:
  "trie_get (snd (trie_insert t k v)) = (trie_get t)(k \<mapsto> v)" "fst (trie_insert t k v) = trie_get t k"
  using insert_at_lookup [of "trie_root t" k v]
  by (auto simp: trie_insert_def Let_def split_beta trie_get_nlookup fun_eq_iff)

lemma trie_insert_inv [inv_intros]: "trie_inv t \<Longrightarrow> trie_inv (snd (trie_insert t k v))"
proof -
  assume inv: "trie_inv t"
  have "finite (dom (trie_get t))" using inv by (simp add: trie_inv_def trie_get_nlookup finite_dom_nlookup)
  then have "card (insert k (dom (trie_get t))) =
      (if trie_get t k = None then Suc (trie_len t) else trie_len t)"
    using inv by (auto simp: trie_inv_def card_insert_if dom_def)
  moreover have "fst (insert_at (trie_root t) k v) = trie_get t k"
    by (simp add: insert_at_lookup trie_get_nlookup)
  ultimately have "trie_len (snd (trie_insert t k v)) = card (dom (trie_get (snd (trie_insert t k v))))"
    unfolding trie_insert_get by (simp add: trie_insert_def Let_def split_beta)
  then show ?thesis using inv insert_at_wf [of "trie_root t" k v]
    by (simp add: trie_inv_def) (simp add: trie_insert_def Let_def split_beta)
qed

lemma trie_remove_get:
  assumes "trie_inv t"
  shows "trie_get (snd (trie_remove t k)) = (trie_get t)(k := None)" "fst (trie_remove t k) = trie_get t k"
    "trie_inv (snd (trie_remove t k))"
proof -
  have wf: "node_wf (trie_root t)" using assms by (simp add: trie_inv_def)
  have "trie_get (snd (trie_remove t k)) = (trie_get t)(k := None) \<and> fst (trie_remove t k) = trie_get t k \<and>
    trie_inv (snd (trie_remove t k))"
  proof (cases "remove_at (trie_root t) k")
    case None
    then have "trie_get t k = None" by (simp add: remove_at_None trie_get_nlookup)
    then show ?thesis using None assms by (auto simp: trie_remove_def)
  next
    case (Some p)
    obtain old n where p: "p = (old, n)" by force
    note r = remove_at_lookup [OF wf Some [unfolded p]] and w = remove_at_wf [OF wf Some [unfolded p]]
    have rm: "trie_remove t k = (Some old, t\<lparr>trie_root := n, trie_len := trie_len t - 1\<rparr>)"
      using Some p by (simp add: trie_remove_def)
    have g: "nlookup n = (trie_get t)(k := None)" using r by (auto simp: trie_get_nlookup)
    have "k \<in> dom (trie_get t)" using r by (auto simp: trie_get_nlookup)
    then have "card (dom (nlookup n)) = trie_len t - 1"
      using assms finite_dom_nlookup [OF wf] by (simp add: g trie_inv_def trie_get_nlookup)
    then show ?thesis using rm r w g by (simp add: trie_inv_def trie_get_nlookup)
  qed
  then show "trie_get (snd (trie_remove t k)) = (trie_get t)(k := None)" "fst (trie_remove t k) = trie_get t k"
    "trie_inv (snd (trie_remove t k))" by blast+
qed

lemma trie_new_get: "trie_inv (trie_new :: ('k::linorder, 'v) trie)" "trie_get (trie_new :: ('k, 'v) trie) k = None"
proof -
  have e: "trie_get (trie_new :: ('k, 'v) trie) = (\<lambda>_. None)"
    using nlookup_default by (auto simp: trie_get_nlookup trie_new_def node_default_def fun_eq_iff)
  then show "trie_get (trie_new :: ('k, 'v) trie) k = None" by simp
  show "trie_inv (trie_new :: ('k, 'v) trie)" unfolding trie_inv_def e by (simp add: trie_new_def)
qed

lemma trie_get_new: "trie_get (trie_new :: ('k::linorder, 'v) trie) = (\<lambda>_. None)"
  using trie_new_get(2) by blast

interpretation trie_map: key_map trie_inv trie_get "\<lambda>k v t. snd (trie_insert t k v)"
  "\<lambda>k t. snd (trie_remove t k)" trie_new
  by unfold_locales (simp_all add: trie_new_get trie_insert_inv trie_remove_get trie_insert_get)

lemma node_of_append: "node_of n (ks @ js) = (case node_of n ks of None \<Rightarrow> None | Some m \<Rightarrow> node_of m js)"
  by (induction n ks rule: node_of.induct) (auto split: option.splits)

lemma node_of_wf: "node_wf n \<Longrightarrow> node_of n ks = Some m \<Longrightarrow> node_wf m"
  by (induction n ks rule: node_of.induct) (auto split: option.splits dest: node_wf_children(2))

lemma nlookup_append: "nlookup n (ks @ js) = (case node_of n ks of None \<Rightarrow> None | Some m \<Rightarrow> nlookup m js)"
  by (auto simp: nlookup_def node_of_append split: option.splits)

subsection \<open>Longest prefix\<close>

lemma longest_prefix_loop_spec:
  "(longest_prefix_loop n ks i best = best \<and> (\<forall>d. 0 < d \<longrightarrow> d \<le> length ks \<longrightarrow> nlookup n (take d ks) = None)) \<or>
   (\<exists>d v. 0 < d \<and> d \<le> length ks \<and> longest_prefix_loop n ks i best = Some (i + d, v) \<and>
      nlookup n (take d ks) = Some v \<and>
      (\<forall>e. d < e \<longrightarrow> e \<le> length ks \<longrightarrow> nlookup n (take e ks) = None))"
proof (induction ks arbitrary: n i best)
  case Nil
  then show ?case by simp
next
  case (Cons k ks)
  have all_iff: "(\<forall>d. a < d \<longrightarrow> d \<le> length (k # ks) \<longrightarrow> P d) \<longleftrightarrow>
      (\<forall>d. a \<le> d \<longrightarrow> d \<le> length ks \<longrightarrow> P (Suc d))" for a P
    by (auto simp: less_Suc_eq_le) (metis Suc_le_D Suc_leI Suc_le_mono)
  show ?case
  proof (cases "bt_get (children n) k")
    case None
    then have "nlookup n (take d (k # ks)) = None" if "0 < d" for d using that by (cases d) auto
    then show ?thesis using None by simp
  next
    case (Some c)
    note child = Some
    let ?b = "case node_value c of None \<Rightarrow> best | Some v \<Rightarrow> Some (i + 1, v)"
    have l: "longest_prefix_loop n (k # ks) i best = longest_prefix_loop c ks (i + 1) ?b" using Some by simp
    have s: "nlookup n (take (Suc d) (k # ks)) = nlookup c (take d ks)" for d using Some by simp
    consider (best) "longest_prefix_loop c ks (i + 1) ?b = ?b"
        "\<forall>d. 0 < d \<longrightarrow> d \<le> length ks \<longrightarrow> nlookup c (take d ks) = None"
      | (deep) d v where "0 < d" "d \<le> length ks" "longest_prefix_loop c ks (i + 1) ?b = Some (i + 1 + d, v)"
        "nlookup c (take d ks) = Some v" "\<forall>e. d < e \<longrightarrow> e \<le> length ks \<longrightarrow> nlookup c (take e ks) = None"
      using Cons.IH [of c "i + 1" ?b] by blast
    then show ?thesis
    proof cases
      case best
      show ?thesis
      proof (cases "node_value c")
        case None
        then have "nlookup c (take d ks) = None" if "d \<le> length ks" for d
          using best(2) that by (cases d) auto
        then have "\<forall>d. 0 < d \<longrightarrow> d \<le> length (k # ks) \<longrightarrow> nlookup n (take d (k # ks)) = None"
          unfolding all_iff by (simp add: child)
        then show ?thesis using l best(1) None by simp
      next
        case (Some v)
        have "\<forall>e. 1 < e \<longrightarrow> e \<le> length (k # ks) \<longrightarrow> nlookup n (take e (k # ks)) = None"
          unfolding all_iff using best(2) by (simp add: child Suc_le_eq)
        moreover have "nlookup n (take 1 (k # ks)) = Some v" using s [of 0] Some by simp
        ultimately show ?thesis using l best(1) Some by (intro disjI2 exI [of _ 1] exI [of _ v]) simp
      qed
    next
      case deep
      have "\<forall>e. Suc d < e \<longrightarrow> e \<le> length (k # ks) \<longrightarrow> nlookup n (take e (k # ks)) = None"
        unfolding all_iff using deep(5) by (simp add: child Suc_le_eq)
      then show ?thesis using l s [of d] deep by (intro disjI2 exI [of _ "Suc d"] exI [of _ v]) simp
    qed
  qed
qed

subsection \<open>Iteration\<close>

definition prefixed :: "'k list \<Rightarrow> ('k list \<times> 'v) list \<Rightarrow> ('k list \<times> 'v) list" where
  "prefixed path es = map (\<lambda>(ks, x). (path @ ks, x)) es"

definition frame_entries :: "'k list \<Rightarrow> ('k, 'v) frame \<Rightarrow> ('k list \<times> 'v) list" where
  "frame_entries path f =
     (if fr_emitted f then [] else case node_value (fr_node f) of None \<Rightarrow> [] | Some x \<Rightarrow> [(path, x)]) @
     prefixed path (child_entries (fr_children f))"

fun stack_entries :: "('k, 'v) frame list \<Rightarrow> 'k list \<Rightarrow> ('k list \<times> 'v) list" where
  "stack_entries [] path = []"
| "stack_entries (f # fs) path = frame_entries path f @ stack_entries fs (butlast path)"

lemma prefixed_simps [simp]:
  "prefixed path [] = []" "prefixed path (es @ es') = prefixed path es @ prefixed path es'"
  "prefixed [] es = es" "length (prefixed path es) = length es"
  by (simp_all add: prefixed_def)

lemma prefixed_Cons: "prefixed path (map (\<lambda>(ks, x). (k # ks, x)) es) = prefixed (path @ [k]) es"
  by (auto simp: prefixed_def)

lemma frame_entries_frame_of: "frame_entries path (frame_of n) = prefixed path (entries n)"
  by (subst entries_child) (auto simp: frame_entries_def frame_of_def prefixed_def split: option.splits)

lemma iter_next_spec:
  "case stack_entries fs path of
     [] \<Rightarrow> iter_next fs path r = None
   | e # es \<Rightarrow> \<exists>it. iter_next fs path r = Some (e, it) \<and>
       stack_entries (it_frames it) (it_path it) = es \<and> it_remaining it = r - 1"
proof (induction fs path r rule: iter_next.induct)
  case (1 path r)
  then show ?case by simp
next
  case (2 f fs path r)
  show ?case
  proof (cases "\<not> fr_emitted f \<and> node_value (fr_node f) \<noteq> None")
    case True
    then show ?thesis by (auto simp: frame_entries_def)
  next
    case False
    then have own: "(if fr_emitted f then [] else case node_value (fr_node f) of None \<Rightarrow> [] | Some x \<Rightarrow> [(path, x)]) = []"
      by auto
    show ?thesis
    proof (cases "fr_children f")
      case Nil
      then have "stack_entries (f # fs) path = stack_entries fs (butlast path)"
        using own by (simp add: frame_entries_def)
      moreover have "iter_next (f # fs) path r = iter_next fs (butlast path) r" using False Nil by auto
      ultimately show ?thesis using "2.IH"(1) [OF False Nil] by (simp only:)
    next
      case (Cons p cs)
      obtain k c where p: "p = (k, c)" by force
      let ?fs = "frame_of c # f\<lparr>fr_emitted := True, fr_children := cs\<rparr> # fs"
      have "stack_entries (f # fs) path = stack_entries ?fs (path @ [k])"
        using own Cons p by (simp add: frame_entries_frame_of) (simp add: frame_entries_def prefixed_Cons)
      moreover have "iter_next (f # fs) path r = iter_next ?fs (path @ [k]) r" using False Cons p by auto
      ultimately show ?thesis using "2.IH"(2) [OF False Cons p [symmetric]] by (simp only:)
    qed
  qed
qed

lemma iter_collect_stack:
  "length (stack_entries (it_frames it) (it_path it)) < fuel \<Longrightarrow>
    iter_collect fuel it = Some (stack_entries (it_frames it) (it_path it))"
proof (induction fuel arbitrary: it)
  case (Suc fuel)
  show ?case
  proof (cases "stack_entries (it_frames it) (it_path it)")
    case Nil
    then show ?thesis using iter_next_spec [of "it_frames it" "it_path it" "it_remaining it"]
      by (simp add: trie_iter_next_def)
  next
    case (Cons e es)
    then obtain it' where "trie_iter_next it = Some (e, it')" "stack_entries (it_frames it') (it_path it') = es"
      using iter_next_spec [of "it_frames it" "it_path it" "it_remaining it"] by (auto simp: trie_iter_next_def)
    then show ?thesis using Suc Cons by simp
  qed
qed simp

lemma iter_collect_new:
  "length (entries n) < fuel \<Longrightarrow> iter_collect fuel (iter_new n path r) = Some (prefixed path (entries n))"
  using iter_collect_stack [of "iter_new n path r" fuel] by (simp add: iter_new_def frame_entries_frame_of)

definition starts_with :: "'k list \<Rightarrow> 'k list \<Rightarrow> bool" where
  "starts_with ks ps \<longleftrightarrow> take (length ps) ks = ps"

lemma starts_with_simps [simp]:
  "starts_with ks []" "\<not> starts_with [] (p # ps)" "starts_with (k # ks) (p # ps) \<longleftrightarrow> k = p \<and> starts_with ks ps"
  by (auto simp: starts_with_def)

lemma filter_child_entries:
  assumes "bt_inv cs"
  shows "filter (\<lambda>(ks, x). starts_with ks (k # ps)) (child_entries cs) =
    (case bt_get cs k of None \<Rightarrow> []
     | Some c \<Rightarrow> map (\<lambda>(ks, x). (k # ks, x)) (filter (\<lambda>(ks, x). starts_with ks ps) (entries c)))"
  using assms
proof (induction cs)
  case Nil
  then show ?case by (simp add: bt_get_def)
next
  case (Cons q cs)
  obtain j c where q: "q = (j, c)" by force
  have head: "filter (\<lambda>(ks, x). starts_with ks (k # ps)) (map (\<lambda>(ks, x). (j # ks, x)) es) =
      (if j = k then map (\<lambda>(ks, x). (k # ks, x)) (filter (\<lambda>(ks, x). starts_with ks ps) es) else [])" for es
    by (induction es) auto
  have "bt_get cs k = None" if "j = k" using Cons.prems that by (auto simp: q bt_get_None_iff)
  then show ?case using Cons head by (auto simp: q bt_get_def)
qed

lemma filter_entries_prefix:
  "node_wf n \<Longrightarrow> filter (\<lambda>(ks, x). starts_with ks ps) (entries n) =
    (case node_of n ps of None \<Rightarrow> [] | Some m \<Rightarrow> prefixed ps (entries m))"
proof (induction ps arbitrary: n)
  case Nil
  then show ?case by (simp add: split_beta)
next
  case (Cons k ps)
  note w = node_wf_children [OF Cons.prems]
  have "filter (\<lambda>(ks, x). starts_with ks (k # ps)) (entries n) =
      filter (\<lambda>(ks, x). starts_with ks (k # ps)) (child_entries (children n))"
    by (subst entries_child) (auto split: option.splits)
  also have "\<dots> = (case node_of n (k # ps) of None \<Rightarrow> [] | Some m \<Rightarrow> prefixed (k # ps) (entries m))"
    using filter_child_entries [OF w(1), of k ps] Cons.IH w(2) [of k]
    by (auto simp: prefixed_def split: option.splits)
  finally show ?case .
qed

section \<open>Properties\<close>

datatype ('k, 'v) trie_op = TInsert "'k list" 'v | TRemove "'k list" | TClear

fun trie_run :: "('k::linorder, 'v) trie_op list \<Rightarrow> ('k, 'v) trie \<Rightarrow> ('k, 'v) trie" where
  "trie_run [] t = t"
| "trie_run (TInsert k v # ops) t = trie_run ops (snd (trie_insert t k v))"
| "trie_run (TRemove k # ops) t = trie_run ops (snd (trie_remove t k))"
| "trie_run (TClear # ops) t = trie_run ops (trie_clear t)"

fun map_run :: "('k, 'v) trie_op list \<Rightarrow> ('k list \<Rightarrow> 'v option) \<Rightarrow> 'k list \<Rightarrow> 'v option" where
  "map_run [] m = m"
| "map_run (TInsert k v # ops) m = map_run ops (m(k \<mapsto> v))"
| "map_run (TRemove k # ops) m = map_run ops (m(k := None))"
| "map_run (TClear # ops) m = map_run ops (\<lambda>_. None)"

lemma trie_clear_new: "trie_clear t = trie_new"
  by (simp add: trie_clear_def trie_new_def)

lemma trie_run_map: "trie_inv t \<Longrightarrow> trie_inv (trie_run ops t) \<and> trie_get (trie_run ops t) = map_run ops (trie_get t)"
proof (induction ops arbitrary: t)
  case (Cons op ops)
  show ?case
  proof (cases op)
    case (TInsert k v)
    then show ?thesis using Cons.IH [OF trie_insert_inv [OF Cons.prems], of k v]
      by (simp only: trie_run.simps map_run.simps trie_insert_get)
  next
    case (TRemove k)
    then show ?thesis using Cons.IH [OF trie_remove_get(3) [OF Cons.prems], of k]
      by (simp only: trie_run.simps map_run.simps trie_remove_get [OF Cons.prems])
  next
    case TClear
    then show ?thesis using Cons.IH [OF trie_new_get(1)]
      by (simp only: trie_run.simps map_run.simps trie_clear_new trie_get_new)
  qed
qed simp

text \<open>C11: After any sequence of \<open>insert\<close>, \<open>remove\<close> and \<open>clear\<close> on a new trie, \<open>get\<close> is the map those operations describe,
  \<open>len\<close> is the number of keys of that map, and no branch without an entry is left in the tree.\<close>

theorem trie_refines_map:
  fixes ops :: "('k::linorder, 'v) trie_op list"
  shows "trie_get (trie_run ops trie_new) = map_run ops (\<lambda>_. None) \<and>
   trie_len (trie_run ops trie_new) = card (dom (map_run ops (\<lambda>_. None))) \<and>
   node_wf (trie_root (trie_run ops trie_new))"
  using trie_run_map [OF trie_new_get(1), of ops] by (auto simp: trie_inv_def trie_get_new)

text \<open>\<open>longest_prefix\<close> returns the longest stored prefix of the query together with its value, and \<open>None\<close> exactly
  when no prefix of the query, the empty one included, is stored.\<close>

lemma trie_longest_prefix_longest:
  "case trie_longest_prefix t key of
     None \<Rightarrow> \<forall>d\<le>length key. trie_get t (take d key) = None
   | Some (p, v) \<Rightarrow> \<exists>d\<le>length key. p = take d key \<and> trie_get t p = Some v \<and>
       (\<forall>e. d < e \<longrightarrow> e \<le> length key \<longrightarrow> trie_get t (take e key) = None)"
proof -
  let ?n = "trie_root t"
  let ?b = "case node_value ?n of None \<Rightarrow> None | Some v \<Rightarrow> Some (0, v)"
  have lp: "trie_longest_prefix t key = map_option (\<lambda>(d, v). (take d key, v)) (longest_prefix_loop ?n key 0 ?b)"
    by (simp add: trie_longest_prefix_def)
  consider (best) "longest_prefix_loop ?n key 0 ?b = ?b" "\<forall>d. 0 < d \<longrightarrow> d \<le> length key \<longrightarrow> nlookup ?n (take d key) = None"
    | (deep) d v where "0 < d" "d \<le> length key" "longest_prefix_loop ?n key 0 ?b = Some (d, v)"
      "nlookup ?n (take d key) = Some v" "\<forall>e. d < e \<longrightarrow> e \<le> length key \<longrightarrow> nlookup ?n (take e key) = None"
    using longest_prefix_loop_spec [of ?n key 0 ?b] by auto
  then show ?thesis
  proof cases
    case best
    show ?thesis
    proof (cases "node_value ?n")
      case None
      then have "nlookup ?n (take d key) = None" if "d \<le> length key" for d using best(2) that by (cases d) auto
      then show ?thesis using lp best(1) None by (simp add: trie_get_nlookup)
    next
      case (Some v)
      then show ?thesis using lp best by (simp add: trie_get_nlookup) (rule exI [of _ 0], simp)
    qed
  next
    case deep
    then show ?thesis using lp by (auto simp: trie_get_nlookup)
  qed
qed

text \<open>Iteration over a well-formed trie ends after \<open>len\<close> entries and yields, in strictly increasing lexicographic
  order of the keys, exactly the pairs \<open>get\<close> knows; \<open>iter_prefix\<close> yields the sublist of the entries
  whose key starts with the prefix, and \<open>contains_prefix\<close> says whether there is one.\<close>

theorem trie_iter_sorted_complete:
  assumes "trie_inv t"
  shows "\<exists>es. iter_collect (trie_len t + 1) (trie_iter_all t) = Some es \<and> length es = trie_len t \<and>
    sorted_wrt ord_class.lexordp (map fst es) \<and> (\<forall>k v. (k, v) \<in> set es \<longleftrightarrow> trie_get t k = Some v) \<and>
    iter_collect (trie_len t + 1) (trie_iter_prefix t p) = Some (filter (\<lambda>(k, v). starts_with k p) es) \<and>
    (trie_contains_prefix t p \<longleftrightarrow> filter (\<lambda>(k, v). starts_with k p) es \<noteq> [])"
proof (intro exI conjI)
  let ?n = "trie_root t" and ?es = "entries (trie_root t)"
  have w: "node_wf ?n" using assms by (simp add: trie_inv_def)
  show len: "length ?es = trie_len t"
    using assms card_dom_nlookup [OF w] by (simp add: length_entries trie_inv_def trie_get_nlookup)
  show "iter_collect (trie_len t + 1) (trie_iter_all t) = Some ?es"
    unfolding trie_iter_all_def using iter_collect_new [of ?n "trie_len t + 1" "[]"] len by simp
  show "sorted_wrt ord_class.lexordp (map fst ?es)" by (rule entries_sorted [OF w])
  show "\<forall>k v. (k, v) \<in> set ?es \<longleftrightarrow> trie_get t k = Some v" using entries_lookup [OF w] by (simp add: trie_get_nlookup)
  note f = filter_entries_prefix [OF w, of p]
  have "length (entries m) \<le> trie_len t" if "node_of ?n p = Some m" for m
    using f that length_filter_le [of "\<lambda>(ks, x). starts_with ks p" ?es] len by simp
  then show "iter_collect (trie_len t + 1) (trie_iter_prefix t p) = Some (filter (\<lambda>(k, v). starts_with k p) ?es)"
    using f iter_collect_new [of _ "trie_len t + 1" p]
    by (cases "node_of ?n p")
      (simp_all add: trie_iter_prefix_def less_Suc_eq_le iter_empty_def trie_iter_next_def
        del: iter_collect.simps(2), simp add: trie_iter_next_def)
  show "trie_contains_prefix t p \<longleftrightarrow> filter (\<lambda>(k, v). starts_with k p) ?es \<noteq> []"
    using f by (auto simp: trie_contains_prefix_def has_entry_entries prefixed_def split: option.splits)
qed

theorem trie_iter_sorted_complete_witness:
  "\<exists>es. iter_collect 3 (trie_iter_all (trie_run [TInsert [2::nat] 10, TInsert [1, 2] (20::nat)] trie_new)) = Some es \<and>
     length es = 2 \<and> sorted_wrt ord_class.lexordp (map fst es)"
proof -
  let ?t = "trie_run [TInsert [2::nat] 10, TInsert [1, 2] (20::nat)] trie_new"
  have "trie_inv ?t" using trie_run_map [OF trie_new_get(1)] by blast
  moreover have "trie_len ?t = 2" by code_simp
  ultimately show ?thesis using trie_iter_sorted_complete [of ?t "[]"] by (auto simp: numeral_3_eq_3)
qed

end
