(* ===== verification/Locks.thy ===== *)
theory Locks
  imports Prelude
begin

text \<open>
  The synchronisation primitives (src/sync/): \<open>SpinLock\<close>, \<open>RwLock\<close>, \<open>OnceLock\<close> with \<open>LazyLock\<close>, and
  \<open>PerCpu\<close>.  Each lock is a machine shared by execution flows numbered by natural numbers: every flow has a
  program counter that stands between two atomic accesses of the code, and one action performs one
  atomic access (a load, a compare-exchange, a fetch-add, a store, or the switch of the
  interrupt-enable bit \<open>sstatus.SIE\<close> of that flow).  An interleaving is a list of actions; an action that is
  not enabled is not a step.  A failed compare-exchange is the step that leaves the flow spinning.
\<close>

section \<open>The interrupt-enable bit\<close>

text \<open>
  \<open>disable_interrupt\<close> clears \<open>sstatus.SIE\<close> and returns the old bit (old bit first, then the new one);
  \<open>enable_interrupt\<close> sets it again only if it was set before.
\<close>

definition disable_interrupt :: "bool \<Rightarrow> bool \<times> bool" where
  [simp]: "disable_interrupt sie = (sie, False)"

definition enable_interrupt :: "bool \<Rightarrow> bool \<Rightarrow> bool" where
  [simp]: "enable_interrupt prev_sie sie = (if prev_sie then True else sie)"

section \<open>SpinLock\<close>

datatype spin_pc = SIdle | STry bool | SHeld bool | SRelease bool

record 'v spin_state =
  sp_lock :: bool
  sp_value :: 'v
  sp_pc :: "nat \<Rightarrow> spin_pc"
  sp_sie :: "nat \<Rightarrow> bool"

definition spin_new :: "'v \<Rightarrow> (nat \<Rightarrow> bool) \<Rightarrow> 'v spin_state" where
  "spin_new value sie = \<lparr>sp_lock = False, sp_value = value, sp_pc = (\<lambda>_. SIdle), sp_sie = sie\<rparr>"

text \<open>
  \<open>SpinDisable\<close> is \<open>disable_interrupt\<close>, \<open>SpinCas\<close> one round of the \<open>compare_exchange\<close> loop, \<open>SpinWrite\<close> a write through the
  guard's \<open>DerefMut\<close>, \<open>SpinStore\<close> and \<open>SpinEnable\<close> the two statements of the guard's \<open>Drop\<close>.
\<close>

datatype 'v spin_act = SpinDisable nat | SpinCas nat | SpinWrite nat 'v | SpinStore nat | SpinEnable nat

fun spin_exec :: "'v spin_act \<Rightarrow> 'v spin_state \<Rightarrow> 'v spin_state option" where
  "spin_exec (SpinDisable t) s =
     (case sp_pc s t of
        SIdle \<Rightarrow>
          (case disable_interrupt (sp_sie s t) of (sie, now) \<Rightarrow>
             Some (s\<lparr>sp_pc := (sp_pc s)(t := STry sie), sp_sie := (sp_sie s)(t := now)\<rparr>))
      | _ \<Rightarrow> None)"
| "spin_exec (SpinCas t) s =
     (case sp_pc s t of
        STry sie \<Rightarrow>
          if sp_lock s then Some s
          else Some (s\<lparr>sp_lock := True, sp_pc := (sp_pc s)(t := SHeld sie)\<rparr>)
      | _ \<Rightarrow> None)"
| "spin_exec (SpinWrite t v) s =
     (case sp_pc s t of SHeld sie \<Rightarrow> Some (s\<lparr>sp_value := v\<rparr>) | _ \<Rightarrow> None)"
| "spin_exec (SpinStore t) s =
     (case sp_pc s t of
        SHeld sie \<Rightarrow> Some (s\<lparr>sp_lock := False, sp_pc := (sp_pc s)(t := SRelease sie)\<rparr>)
      | _ \<Rightarrow> None)"
| "spin_exec (SpinEnable t) s =
     (case sp_pc s t of
        SRelease sie \<Rightarrow>
          Some (s\<lparr>sp_pc := (sp_pc s)(t := SIdle),
                  sp_sie := (sp_sie s)(t := enable_interrupt sie (sp_sie s t))\<rparr>)
      | _ \<Rightarrow> None)"

section \<open>RwLock\<close>

definition WRITER :: u64 where
  "WRITER = 1"

definition READER :: u64 where
  "READER = 2"

text \<open>
  \<open>RCheck\<close>: about to load \<open>waiting_writers\<close>; \<open>RLoad\<close>: about to load \<open>state\<close>; \<open>RCas\<close>: about to exchange the loaded state;
  \<open>WAdd\<close>: about to count itself as waiting; \<open>WCas\<close>: in the loop; \<open>WSub\<close>: has the lock, about to stop
  being counted; \<open>RDrop\<close> and \<open>WDrop\<close>: about to restore the interrupt state.
\<close>

datatype rw_pc = RwIdle | RCheck bool | RLoad bool | RCas bool u64 | Reading bool | RDrop bool
  | WAdd bool | WCas bool | WSub bool | Writing bool | WDrop bool

record 'v rw_state =
  rw_state :: u64
  rw_waiting :: u64
  rw_value :: 'v
  rw_pc :: "nat \<Rightarrow> rw_pc"
  rw_sie :: "nat \<Rightarrow> bool"

definition rw_new :: "'v \<Rightarrow> (nat \<Rightarrow> bool) \<Rightarrow> 'v rw_state" where
  "rw_new value sie =
     \<lparr>rw_state = 0, rw_waiting = 0, rw_value = value, rw_pc = (\<lambda>_. RwIdle), rw_sie = sie\<rparr>"

datatype 'v rw_act = RwRead nat | RwWrite nat | RwStep nat | RwStore nat 'v | RwDrop nat

definition rw_goto :: "'v rw_state \<Rightarrow> nat \<Rightarrow> rw_pc \<Rightarrow> 'v rw_state" where
  "rw_goto s t p = s\<lparr>rw_pc := (rw_pc s)(t := p)\<rparr>"

text \<open>\<open>state.checked_add(READER)\<close>: no next state when the addition wraps.\<close>

definition rw_checked_add :: "u64 \<Rightarrow> u64 option" where
  "rw_checked_add st = (if unat st + unat READER < 2 ^ 64 then Some (st + READER) else None)"

fun rw_exec :: "'v rw_act \<Rightarrow> 'v rw_state \<Rightarrow> 'v rw_state option" where
  "rw_exec (RwRead t) s =
     (case rw_pc s t of
        RwIdle \<Rightarrow>
          (case disable_interrupt (rw_sie s t) of (sie, now) \<Rightarrow>
             Some ((rw_goto s t (RCheck sie))\<lparr>rw_sie := (rw_sie s)(t := now)\<rparr>))
      | _ \<Rightarrow> None)"
| "rw_exec (RwWrite t) s =
     (case rw_pc s t of
        RwIdle \<Rightarrow>
          (case disable_interrupt (rw_sie s t) of (sie, now) \<Rightarrow>
             Some ((rw_goto s t (WAdd sie))\<lparr>rw_sie := (rw_sie s)(t := now)\<rparr>))
      | _ \<Rightarrow> None)"
| "rw_exec (RwStep t) s =
     (case rw_pc s t of
        RCheck sie \<Rightarrow> Some (if rw_waiting s \<noteq> 0 then s else rw_goto s t (RLoad sie))
      | RLoad sie \<Rightarrow>
          Some (if rw_state s AND WRITER \<noteq> 0 then rw_goto s t (RCheck sie)
                else case rw_checked_add (rw_state s) of
                    None \<Rightarrow> rw_goto s t (RCheck sie)
                  | Some _ \<Rightarrow> rw_goto s t (RCas sie (rw_state s)))
      | RCas sie st \<Rightarrow>
          Some (if rw_state s = st then (rw_goto s t (Reading sie))\<lparr>rw_state := st + READER\<rparr>
                else rw_goto s t (RCheck sie))
      | RDrop sie \<Rightarrow>
          Some ((rw_goto s t RwIdle)\<lparr>rw_sie := (rw_sie s)(t := enable_interrupt sie (rw_sie s t))\<rparr>)
      | WAdd sie \<Rightarrow> Some ((rw_goto s t (WCas sie))\<lparr>rw_waiting := rw_waiting s + 1\<rparr>)
      | WCas sie \<Rightarrow>
          Some (if rw_state s = 0 then (rw_goto s t (WSub sie))\<lparr>rw_state := WRITER\<rparr> else s)
      | WSub sie \<Rightarrow> Some ((rw_goto s t (Writing sie))\<lparr>rw_waiting := rw_waiting s - 1\<rparr>)
      | WDrop sie \<Rightarrow>
          Some ((rw_goto s t RwIdle)\<lparr>rw_sie := (rw_sie s)(t := enable_interrupt sie (rw_sie s t))\<rparr>)
      | _ \<Rightarrow> None)"
| "rw_exec (RwStore t v) s =
     (case rw_pc s t of Writing sie \<Rightarrow> Some (s\<lparr>rw_value := v\<rparr>) | _ \<Rightarrow> None)"
| "rw_exec (RwDrop t) s =
     (case rw_pc s t of
        Reading sie \<Rightarrow> Some ((rw_goto s t (RDrop sie))\<lparr>rw_state := rw_state s - READER\<rparr>)
      | Writing sie \<Rightarrow> Some ((rw_goto s t (WDrop sie))\<lparr>rw_state := 0\<rparr>)
      | _ \<Rightarrow> None)"

section \<open>OnceLock and LazyLock\<close>

definition UNINITIALIZED :: u8 where
  "UNINITIALIZED = 0"

definition INITIALIZING :: u8 where
  "INITIALIZING = 1"

definition INITIALIZED :: u8 where
  "INITIALIZED = 2"

text \<open>
  \<open>OGet\<close>: about to load the status in \<open>get\<close>; \<open>OCas\<close>: in the exchange loop; \<open>OInit\<close>: won, about to run the closure;
  \<open>OWrite v\<close>: about to store the value; \<open>OPublish\<close>: about to store \<open>INITIALIZED\<close>; \<open>ORead\<close>: about to return the
  reference; \<open>ODone v\<close>: returned it; \<open>OUninit\<close>: read the cell before it was written; \<open>OPanic\<close>: the closure panicked.
\<close>

datatype 'v once_pc = OIdle | OGet | OCas | OInit | OWrite 'v | OPublish | ORead | ODone 'v | OUninit | OPanic

record ('v, 'e) once_state =
  oc_status :: u8
  oc_value :: "'v option"
  oc_env :: 'e
  oc_pc :: "nat \<Rightarrow> 'v once_pc"
  oc_calls :: nat

definition once_new :: "'e \<Rightarrow> ('v, 'e) once_state" where
  "once_new env =
     \<lparr>oc_status = UNINITIALIZED, oc_value = None, oc_env = env, oc_pc = (\<lambda>_. OIdle), oc_calls = 0\<rparr>"

definition once_goto :: "('v, 'e) once_state \<Rightarrow> nat \<Rightarrow> 'v once_pc \<Rightarrow> ('v, 'e) once_state" where
  "once_goto s t p = s\<lparr>oc_pc := (oc_pc s)(t := p)\<rparr>"

text \<open>
  \<open>get\<close> outside \<open>get_or_init\<close>: nothing before initialisation, else what the cell holds (\<open>Some None\<close> would be a reference to
  uninitialised memory).  \<open>drop\<close> gives the value to destruct, if any.
\<close>

definition once_get :: "('v, 'e) once_state \<Rightarrow> 'v option option" where
  "once_get s = (if oc_status s \<noteq> INITIALIZED then None else Some (oc_value s))"

definition once_drop :: "('v, 'e) once_state \<Rightarrow> 'v option option" where
  "once_drop s = (if oc_status s = INITIALIZED then Some (oc_value s) else None)"

text \<open>
  Every call of \<open>get_or_init\<close> is a flow of its own.  The step of flow \<open>t\<close> in \<open>get_or_init\<close>.  Running the closure is \<open>run t env\<close>: a value and the new state of what the
  closure captures, or \<open>None\<close> for a panic.  \<open>oc_calls\<close> counts the runs.
\<close>

fun once_step :: "(nat \<Rightarrow> 'e \<Rightarrow> ('v \<times> 'e) option) \<Rightarrow> nat \<Rightarrow> ('v, 'e) once_state \<Rightarrow> ('v, 'e) once_state option" where
  "once_step run t s =
     (case oc_pc s t of
        OIdle \<Rightarrow> Some (once_goto s t OGet)
      | OGet \<Rightarrow> Some (once_goto s t (if oc_status s \<noteq> INITIALIZED then OCas else ORead))
      | OCas \<Rightarrow>
          Some (if oc_status s = UNINITIALIZED then (once_goto s t OInit)\<lparr>oc_status := INITIALIZING\<rparr>
                else if oc_status s = INITIALIZED then once_goto s t ORead else s)
      | OInit \<Rightarrow>
          Some (case run t (oc_env s) of
                  None \<Rightarrow> (once_goto s t OPanic)\<lparr>oc_calls := oc_calls s + 1\<rparr>
                | Some (v, env) \<Rightarrow>
                    (once_goto s t (OWrite v))\<lparr>oc_env := env, oc_calls := oc_calls s + 1\<rparr>)
      | OWrite v \<Rightarrow> Some ((once_goto s t OPublish)\<lparr>oc_value := Some v\<rparr>)
      | OPublish \<Rightarrow> Some ((once_goto s t ORead)\<lparr>oc_status := INITIALIZED\<rparr>)
      | ORead \<Rightarrow> Some (once_goto s t (case oc_value s of None \<Rightarrow> OUninit | Some v \<Rightarrow> ODone v))
      | _ \<Rightarrow> None)"

text \<open>
  \<open>LazyLock::force\<close> runs \<open>get_or_init\<close> with a closure that takes the initialiser out of its cell and panics if it is
  gone: the captured state says whether the initialiser is still there.
\<close>

definition lazy_run :: "'v \<Rightarrow> nat \<Rightarrow> bool \<Rightarrow> ('v \<times> bool) option" where
  "lazy_run f_result t init = (if init then Some (f_result, False) else None)"

definition lazy_new :: "('v, bool) once_state" where
  "lazy_new = once_new True"

definition lazy_force_step :: "'v \<Rightarrow> nat \<Rightarrow> ('v, bool) once_state \<Rightarrow> ('v, bool) once_state option" where
  "lazy_force_step f_result t s = once_step (lazy_run f_result) t s"

section \<open>PerCpu\<close>

text \<open>
  One slot per hart.  \<open>current\<close> disables interrupts, reads the hart number from \<open>tp\<close> and borrows that slot (an
  index past the array panics: \<open>None\<close>); the pair carries the interrupt-enable bit of the hart.
\<close>

record per_cpu_guard =
  pg_storage :: nat
  pg_sie :: bool

definition per_cpu_new :: "'v list \<Rightarrow> 'v list" where
  "per_cpu_new items = map (\<lambda>item. item) items"

definition per_cpu_current :: "'v list \<Rightarrow> nat \<Rightarrow> bool \<Rightarrow> (per_cpu_guard \<times> bool) option" where
  "per_cpu_current data tp sie =
     (case disable_interrupt sie of (sie0, now) \<Rightarrow>
        if tp < length data then Some (\<lparr>pg_storage = tp, pg_sie = sie0\<rparr>, now) else None)"

definition per_cpu_deref :: "'v list \<Rightarrow> per_cpu_guard \<Rightarrow> 'v" where
  "per_cpu_deref data g = data ! pg_storage g"

definition per_cpu_deref_mut :: "'v list \<Rightarrow> per_cpu_guard \<Rightarrow> 'v \<Rightarrow> 'v list" where
  "per_cpu_deref_mut data g v = data[pg_storage g := v]"

definition per_cpu_drop :: "per_cpu_guard \<Rightarrow> bool \<Rightarrow> bool" where
  "per_cpu_drop g sie = enable_interrupt (pg_sie g) sie"

end
