(* ===== verification/Lock_Safety.thy ===== *)
theory Lock_Safety
  imports Locks
begin

text \<open>
  Safety of the locks of theory \<open>Locks\<close> over every interleaving.  The locale \<open>transition_system\<close> is the
  shared argument: an executable transition function, an invariant that the initial state has and every
  action keeps, hence every state a list of actions leads to has it.  It is interpreted for the
  three lock machines.
\<close>

section \<open>Invariants of transition systems\<close>

fun run_acts :: "('a \<Rightarrow> 's \<Rightarrow> 's option) \<Rightarrow> 'a list \<Rightarrow> 's \<Rightarrow> 's option" where
  "run_acts exec [] s = Some s"
| "run_acts exec (a # as) s = (case exec a s of None \<Rightarrow> None | Some s' \<Rightarrow> run_acts exec as s')"

lemma run_acts_append:
  "run_acts exec (as @ bs) s = Option.bind (run_acts exec as s) (run_acts exec bs)"
  by (induction as arbitrary: s) (auto split: option.splits)

locale transition_system =
  fixes exec :: "'a \<Rightarrow> 's \<Rightarrow> 's option"
    and allowed :: "'a \<Rightarrow> bool"
    and inv :: "'s \<Rightarrow> bool"
    and init :: 's
  assumes inv_init: "inv init"
    and inv_exec: "inv s \<Longrightarrow> allowed a \<Longrightarrow> exec a s = Some s' \<Longrightarrow> inv s'"
begin

lemma inv_run_from:
  "inv s \<Longrightarrow> list_all allowed as \<Longrightarrow> run_acts exec as s = Some s' \<Longrightarrow> inv s'"
  by (induction as arbitrary: s) (auto split: option.splits dest: inv_exec)

lemma inv_run:
  "list_all allowed as \<Longrightarrow> run_acts exec as init = Some s' \<Longrightarrow> inv s'"
  by (rule inv_run_from [OF inv_init])

end

section \<open>The interrupt state of a flow\<close>

text \<open>
  A flow that has saved its interrupt state runs with interrupts off and saved the state it started with; a
  flow that has not still has that state.
\<close>

fun irq_ok :: "bool option \<Rightarrow> bool \<Rightarrow> bool \<Rightarrow> bool" where
  "irq_ok None now start = (now = start)"
| "irq_ok (Some saved) now start = (saved = start \<and> \<not> now)"

section \<open>SpinLock\<close>

fun spin_saved :: "spin_pc \<Rightarrow> bool option" where
  "spin_saved SIdle = None"
| "spin_saved (STry b) = Some b"
| "spin_saved (SHeld b) = Some b"
| "spin_saved (SRelease b) = Some b"

definition spin_holds :: "'v spin_state \<Rightarrow> nat \<Rightarrow> bool" where
  "spin_holds s t = (case sp_pc s t of SHeld _ \<Rightarrow> True | _ \<Rightarrow> False)"

text \<open>
  The lock word is set exactly when some flow holds the guard, and then only one does; a flow that is inside
  \<open>lock\<close>, holds the guard or is dropping it runs with interrupts off and has saved the state \<open>sie0\<close> it started
  with; outside it has that state.
\<close>

definition spin_inv :: "(nat \<Rightarrow> bool) \<Rightarrow> 'v spin_state \<Rightarrow> bool" where
  "spin_inv sie0 s \<longleftrightarrow>
     (\<exists>owner. sp_lock s = (owner \<noteq> None) \<and> (\<forall>t. spin_holds s t \<longleftrightarrow> owner = Some t)) \<and>
     (\<forall>t. irq_ok (spin_saved (sp_pc s t)) (sp_sie s t) (sie0 t))"

lemma spin_inv_new: "spin_inv sie (spin_new v sie)"
  by (simp add: spin_inv_def spin_new_def spin_holds_def)

lemma spin_invI:
  assumes "sp_lock s = (owner \<noteq> None)" "\<And>t. spin_holds s t \<longleftrightarrow> owner = Some t"
    and "\<And>t. irq_ok (spin_saved (sp_pc s t)) (sp_sie s t) (sie0 t)"
  shows "spin_inv sie0 s"
  using assms unfolding spin_inv_def by blast

lemma spin_inv_exec:
  assumes inv: "spin_inv sie0 s" and step: "spin_exec a s = Some s'"
  shows "spin_inv sie0 s'"
proof -
  obtain owner where o: "sp_lock s = (owner \<noteq> None)" "\<And>t. spin_holds s t \<longleftrightarrow> owner = Some t"
    and sie: "\<And>t. irq_ok (spin_saved (sp_pc s t)) (sp_sie s t) (sie0 t)"
    using inv unfolding spin_inv_def by blast
  have h: "owner = Some t \<longleftrightarrow> (\<exists>b. sp_pc s t = SHeld b)" for t
    using o(2) [of t] by (auto simp: spin_holds_def split: spin_pc.splits)
  have u: "sp_pc s t = SHeld b \<Longrightarrow> sp_pc s t' = SHeld b' \<Longrightarrow> t = t'" for t t' b b'
    using h [of t] h [of t'] by auto
  define owner' where "owner' = (case a of SpinCas t \<Rightarrow> (if owner = None then Some t else owner)
    | SpinStore t \<Rightarrow> None | _ \<Rightarrow> owner)"
  show ?thesis
  proof (rule spin_invI [of _ owner'])
    show "sp_lock s' = (owner' \<noteq> None)"
      using step o(1) by (cases a) (auto simp: owner'_def split: spin_pc.splits if_splits)
    show "spin_holds s' t \<longleftrightarrow> owner' = Some t" for t
      using step h [of t] o(1) h
      by (cases a; cases owner) (auto simp: owner'_def spin_holds_def dest: u split: spin_pc.splits if_splits)
    show "irq_ok (spin_saved (sp_pc s' t)) (sp_sie s' t) (sie0 t)" for t
      using step sie [of t] by (cases a) (auto split: spin_pc.splits if_splits)
  qed
qed

interpretation spin_sys: transition_system spin_exec "\<lambda>_. True" "spin_inv sie" "spin_new v sie" for sie v
  by unfold_locales (auto intro: spin_inv_new spin_inv_exec)

text \<open>SpinLock. After any interleaving of lock and unlock operations from a new lock, at most one
  flow holds the guard, the lock word is set exactly when one does, a flow between its lock call and
  the end of its guard's drop has interrupts off, and a flow outside has the interrupt state it started with.\<close>

theorem spin_lock_safe:
  assumes "run_acts spin_exec acts (spin_new v sie) = Some s"
  shows "(spin_holds s t \<longrightarrow> spin_holds s t' \<longrightarrow> t = t') \<and>
    (sp_lock s \<longleftrightarrow> (\<exists>t. spin_holds s t)) \<and>
    (if sp_pc s t = SIdle then sp_sie s t = sie t else \<not> sp_sie s t)"
proof -
  have inv: "spin_inv sie s" using spin_sys.inv_run [OF _ assms] by (simp add: list_all_iff)
  then have "if sp_pc s t = SIdle then sp_sie s t = sie t else \<not> sp_sie s t"
    unfolding spin_inv_def by (cases "sp_pc s t") (auto dest!: spec [of _ t])
  then show ?thesis using inv unfolding spin_inv_def by auto
qed

theorem spin_lock_safe_witness:
  "\<exists>s. run_acts spin_exec [SpinDisable 0, SpinDisable 1, SpinCas 1, SpinCas 0, SpinWrite 1 7] (spin_new (3::int) (\<lambda>_. True)) = Some s \<and>
     spin_holds s 1 \<and> \<not> spin_holds s 0 \<and> \<not> sp_sie s 0"
proof -
  have "\<exists>s. run_acts spin_exec [SpinDisable 0, SpinDisable 1, SpinCas 1, SpinCas 0, SpinWrite 1 7] (spin_new (3::int) (\<lambda>_. True)) = Some s \<and>
     spin_holds s 1 \<and> sp_pc s 0 \<noteq> SIdle" (is "\<exists>s. ?r = Some s \<and> _")
    by (simp add: spin_new_def spin_holds_def)
  then obtain s where s: "?r = Some s" "spin_holds s 1" "sp_pc s 0 \<noteq> SIdle" by blast
  then show ?thesis using spin_lock_safe [OF s(1), of 0 1] by auto
qed

section \<open>Counting flows by program counter\<close>

definition pc_count :: "('p \<Rightarrow> bool) \<Rightarrow> (nat \<Rightarrow> 'p) \<Rightarrow> nat" where
  "pc_count P f = card {t. P (f t)}"

lemma pc_subset:
  assumes "\<forall>t \<ge> n::nat. f t = p0" "\<not> P p0"
  shows "{t. P (f t)} \<subseteq> {..<n}"
proof
  fix t assume "t \<in> {t. P (f t)}"
  then show "t \<in> {..<n}" using assms by (cases "n \<le> t") auto
qed

lemma pc_finite:
  "\<forall>t \<ge> n::nat. f t = p0 \<Longrightarrow> \<not> P p0 \<Longrightarrow> finite {t. P (f t)}"
  using finite_subset [OF pc_subset [of n f p0 P]] by simp

lemma pc_count_le:
  "\<forall>t \<ge> n. f t = p0 \<Longrightarrow> \<not> P p0 \<Longrightarrow> pc_count P f \<le> n"
  using card_mono [OF finite_lessThan pc_subset [of n f p0 P]] by (simp add: pc_count_def)

lemma pc_count_upd:
  assumes "finite {t. P (f t)}"
  shows "pc_count P (f(t := p)) = pc_count P f - of_bool (P (f t)) + of_bool (P p)"
proof -
  have "{x. P ((f(t := p)) x)} = (if P p then insert t ({x. P (f x)} - {t}) else {x. P (f x)} - {t})"
    by auto
  moreover have "P (f t) \<Longrightarrow> 0 < card {t. P (f t)}" using assms by (auto simp: card_gt_0_iff)
  ultimately show ?thesis using assms unfolding pc_count_def by (simp add: card_insert_if)
qed

lemma pc_count_pos:
  assumes "P (f t)" "finite {t. P (f t)}"
  shows "0 < pc_count P f"
  using assms unfolding pc_count_def by (auto simp: card_gt_0_iff)

lemma pc_count_zero_iff:
  "finite {t. P (f t)} \<Longrightarrow> pc_count P f = 0 \<longleftrightarrow> (\<forall>t. \<not> P (f t))"
  by (auto simp: pc_count_def)

lemma pc_count_le_1:
  assumes "pc_count P f \<le> 1" "finite {t. P (f t)}" "P (f t)" "P (f t')"
  shows "t = t'"
  using assms unfolding pc_count_def by (auto simp: card_le_Suc0_iff_eq)

section \<open>RwLock\<close>

fun is_reading :: "rw_pc \<Rightarrow> bool" where
  "is_reading (Reading _) = True"
| "is_reading _ = False"

fun is_owner :: "rw_pc \<Rightarrow> bool" where
  "is_owner (WSub _) = True"
| "is_owner (Writing _) = True"
| "is_owner _ = False"

fun is_waiting :: "rw_pc \<Rightarrow> bool" where
  "is_waiting (WCas _) = True"
| "is_waiting (WSub _) = True"
| "is_waiting _ = False"

fun rw_saved :: "rw_pc \<Rightarrow> bool option" where
  "rw_saved RwIdle = None"
| "rw_saved (RCheck b) = Some b"
| "rw_saved (RLoad b) = Some b"
| "rw_saved (RCas b _) = Some b"
| "rw_saved (Reading b) = Some b"
| "rw_saved (RDrop b) = Some b"
| "rw_saved (WAdd b) = Some b"
| "rw_saved (WCas b) = Some b"
| "rw_saved (WSub b) = Some b"
| "rw_saved (Writing b) = Some b"
| "rw_saved (WDrop b) = Some b"

fun rw_pc_ok :: "rw_pc \<Rightarrow> bool" where
  "rw_pc_ok (RCas _ st) = (even (unat st) \<and> unat st + 2 < 2 ^ 64)"
| "rw_pc_ok _ = True"

text \<open>
  With at most \<open>n\<close> flows, none of the counters wraps: \<open>state\<close> is twice the number of readers plus the number of
  writers that own the lock, \<open>waiting_writers\<close> counts the writers between their fetch-add and fetch-sub, and a
  writer owns the lock alone.
\<close>

definition rw_counts :: "'v rw_state \<Rightarrow> bool" where
  "rw_counts s \<longleftrightarrow>
     unat (rw_state s) = 2 * pc_count is_reading (rw_pc s) + pc_count is_owner (rw_pc s) \<and>
     (pc_count is_owner (rw_pc s) = 0 \<or> pc_count is_owner (rw_pc s) = 1 \<and> pc_count is_reading (rw_pc s) = 0) \<and>
     unat (rw_waiting s) = pc_count is_waiting (rw_pc s)"

definition rw_flows :: "nat \<Rightarrow> (nat \<Rightarrow> bool) \<Rightarrow> 'v rw_state \<Rightarrow> bool" where
  "rw_flows n sie0 s \<longleftrightarrow>
     (\<forall>t \<ge> n. rw_pc s t = RwIdle) \<and> (\<forall>t. rw_pc_ok (rw_pc s t)) \<and>
     (\<forall>t. irq_ok (rw_saved (rw_pc s t)) (rw_sie s t) (sie0 t))"

definition rw_inv :: "nat \<Rightarrow> (nat \<Rightarrow> bool) \<Rightarrow> 'v rw_state \<Rightarrow> bool" where
  "rw_inv n sie0 s \<longleftrightarrow> rw_flows n sie0 s \<and> rw_counts s"

fun rw_act_flow :: "'v rw_act \<Rightarrow> nat" where
  "rw_act_flow (RwRead t) = t"
| "rw_act_flow (RwWrite t) = t"
| "rw_act_flow (RwStep t) = t"
| "rw_act_flow (RwStore t _) = t"
| "rw_act_flow (RwDrop t) = t"

lemma even_and_WRITER: "st AND WRITER \<noteq> 0 \<longleftrightarrow> odd (unat st)"
proof -
  have "odd (unat st) \<longleftrightarrow> bit st 0" by (simp add: bit_unsigned_iff flip: bit_0)
  moreover have "st AND push_bit 0 1 \<noteq> 0 \<longleftrightarrow> bit st 0" by (rule and_single_bit)
  ultimately show ?thesis by (simp add: WRITER_def)
qed

lemma rw_goto_simps [simp]:
  "rw_pc (rw_goto s t p) = (rw_pc s)(t := p)" "rw_state (rw_goto s t p) = rw_state s"
  "rw_waiting (rw_goto s t p) = rw_waiting s" "rw_value (rw_goto s t p) = rw_value s"
  "rw_sie (rw_goto s t p) = rw_sie s"
  by (simp_all add: rw_goto_def)

lemma rw_flows_finite:
  assumes "rw_flows n sie0 s"
  shows "finite {t. is_reading (rw_pc s t)}" "finite {t. is_owner (rw_pc s t)}"
    "finite {t. is_waiting (rw_pc s t)}"
  using assms pc_finite [of n "rw_pc s" RwIdle] unfolding rw_flows_def by simp_all

lemma rw_flows_le:
  assumes "rw_flows n sie0 s"
  shows "pc_count is_reading (rw_pc s) \<le> n" "pc_count is_owner (rw_pc s) \<le> n"
    "pc_count is_waiting (rw_pc s) \<le> n"
  using assms pc_count_le [of n "rw_pc s" RwIdle] unfolding rw_flows_def by simp_all

lemma rw_counts_upd:
  assumes "rw_flows n sie0 s"
  shows "pc_count is_reading ((rw_pc s)(t := p)) =
      pc_count is_reading (rw_pc s) - of_bool (is_reading (rw_pc s t)) + of_bool (is_reading p)"
    "pc_count is_owner ((rw_pc s)(t := p)) =
      pc_count is_owner (rw_pc s) - of_bool (is_owner (rw_pc s t)) + of_bool (is_owner p)"
    "pc_count is_waiting ((rw_pc s)(t := p)) =
      pc_count is_waiting (rw_pc s) - of_bool (is_waiting (rw_pc s t)) + of_bool (is_waiting p)"
  using rw_flows_finite [OF assms] by (simp_all add: pc_count_upd)

lemma rw_counts_pos:
  assumes "rw_flows n sie0 s"
  shows "is_reading (rw_pc s t) \<Longrightarrow> 0 < pc_count is_reading (rw_pc s)"
    "is_owner (rw_pc s t) \<Longrightarrow> 0 < pc_count is_owner (rw_pc s)"
    "is_waiting (rw_pc s t) \<Longrightarrow> 0 < pc_count is_waiting (rw_pc s)"
  using rw_flows_finite [OF assms] pc_count_pos [of _ "rw_pc s" t] by auto

lemma rw_flows_exec:
  assumes "rw_flows n sie0 s" "rw_act_flow a < n" "rw_exec a s = Some s'"
  shows "rw_flows n sie0 s'"
proof -
  have ok: "rw_checked_add st = Some y \<Longrightarrow> unat st + 2 < 2 ^ 64" for st y
    by (auto simp: rw_checked_add_def READER_def split: if_splits)
  have irq: "irq_ok (rw_saved (rw_pc s t)) (rw_sie s t) (sie0 t)" for t
    using assms(1) by (simp add: rw_flows_def)
  have "\<forall>t \<ge> n. rw_pc s' t = RwIdle"
    using assms by (cases a) (auto simp: rw_flows_def split: rw_pc.splits if_splits option.splits)
  moreover have "rw_pc_ok (rw_pc s' t)" for t
    using assms by (cases a) (auto simp: rw_flows_def even_and_WRITER split: rw_pc.splits if_splits option.splits dest: ok)
  moreover have "irq_ok (rw_saved (rw_pc s' t)) (rw_sie s' t) (sie0 t)" for t
    using irq [of t] assms(3) by (cases a) (auto split: rw_pc.splits if_splits option.splits)
  ultimately show ?thesis by (simp add: rw_flows_def)
qed

lemma unat_u64_arith:
  fixes x :: u64
  shows "unat x + 2 < 2 ^ 64 \<Longrightarrow> unat (x + READER) = unat x + 2"
    "2 \<le> unat x \<Longrightarrow> unat (x - READER) = unat x - 2"
    "unat x + 1 < 2 ^ 64 \<Longrightarrow> unat (x + 1) = unat x + 1"
    "1 \<le> unat x \<Longrightarrow> unat (x - 1) = unat x - 1"
    "unat WRITER = 1"
  using unat_add_lem [of x 2] unat_add_lem [of x 1]
  by (simp_all add: READER_def WRITER_def unat_sub word_le_nat_alt)

lemma rw_counts_step:
  assumes fl: "rw_flows n sie0 s" and c: "rw_counts s" and n: "n < 2 ^ 62"
    and step: "rw_exec (RwStep t) s = Some s'"
  shows "rw_counts s'"
proof -
  note le = rw_flows_le [OF fl] and upd = rw_counts_upd [OF fl, of t] and pos = rw_counts_pos [OF fl, of t]
  have pc: "rw_pc_ok (rw_pc s t)" using fl by (simp add: rw_flows_def)
  note cc = c [unfolded rw_counts_def]
  show ?thesis
  proof (cases "rw_pc s t")
    case (RCas sie st)
    show ?thesis
    proof (cases "rw_state s = st")
      case True
      then have "pc_count is_owner (rw_pc s) = 0" using cc pc RCas by auto
      then show ?thesis using True RCas cc pc step upd
        by (auto simp: rw_counts_def unat_u64_arith)
    qed (use RCas cc step upd in \<open>auto simp: rw_counts_def\<close>)
  next
    case (WAdd sie)
    then show ?thesis using cc step upd le n by (auto simp: rw_counts_def unat_u64_arith)
  next
    case (WCas sie)
    then show ?thesis using cc step upd pos by (auto simp: rw_counts_def unat_u64_arith split: if_splits)
  next
    case (WSub sie)
    then show ?thesis using cc step upd pos by (auto simp: rw_counts_def unat_u64_arith)
  qed (use cc step upd in \<open>auto simp: rw_counts_def split: if_splits option.splits\<close>)
qed

lemma rw_counts_exec:
  assumes fl: "rw_flows n sie0 s" and c: "rw_counts s" and n: "n < 2 ^ 62"
    and step: "rw_exec a s = Some s'"
  shows "rw_counts s'"
proof (cases a)
  case (RwStep t)
  then show ?thesis using rw_counts_step [OF fl c n] step by simp
next
  case (RwDrop t)
  note facts = rw_counts_upd [OF fl, of t] rw_counts_pos [OF fl, of t] c [unfolded rw_counts_def]
  then show ?thesis using RwDrop step
    by (cases "rw_pc s t") (auto simp: rw_counts_def unat_u64_arith)
next
  case (RwRead t)
  then show ?thesis using step c rw_counts_upd [OF fl, of t]
    by (cases "rw_pc s t") (auto simp: rw_counts_def)
next
  case (RwWrite t)
  then show ?thesis using step c rw_counts_upd [OF fl, of t]
    by (cases "rw_pc s t") (auto simp: rw_counts_def)
next
  case (RwStore t v)
  then show ?thesis using step c by (cases "rw_pc s t") (auto simp: rw_counts_def)
qed

lemma rw_inv_new: "rw_inv n sie (rw_new v sie)"
  by (simp add: rw_inv_def rw_flows_def rw_counts_def rw_new_def pc_count_def)

lemma rw_inv_exec:
  "n < 2 ^ 62 \<Longrightarrow> rw_inv n sie0 s \<Longrightarrow> rw_act_flow a < n \<Longrightarrow> rw_exec a s = Some s' \<Longrightarrow> rw_inv n sie0 s'"
  unfolding rw_inv_def using rw_flows_exec rw_counts_exec by blast

text \<open>The number of harts and interruptible flows is far below the bound at which a counter could wrap.\<close>

definition rw_max_flows :: nat where
  "rw_max_flows = 2 ^ 62 - 1"

lemma rw_max_flows_small: "rw_max_flows < 2 ^ 62"
  by (simp add: rw_max_flows_def)

interpretation rw_sys: transition_system rw_exec "\<lambda>a. rw_act_flow a < rw_max_flows"
  "rw_inv rw_max_flows sie" "rw_new v sie" for sie v
  by unfold_locales (rule rw_inv_new, rule rw_inv_exec [OF rw_max_flows_small])

lemma rw_inv_exclusive:
  assumes "rw_inv n sie0 s" "is_owner (rw_pc s t)"
  shows "is_owner (rw_pc s t') \<Longrightarrow> t = t'" "\<not> is_reading (rw_pc s t')"
proof -
  note fl = conjunct1 [OF assms(1) [unfolded rw_inv_def]]
  note fin = rw_flows_finite [OF fl]
  have c: "pc_count is_owner (rw_pc s) = 1" "pc_count is_reading (rw_pc s) = 0"
    using assms rw_counts_pos(2) [OF fl assms(2)] by (auto simp: rw_inv_def rw_counts_def)
  show "is_owner (rw_pc s t') \<Longrightarrow> t = t'" using pc_count_le_1 [of is_owner "rw_pc s" t t'] fin(2) c(1) assms(2) by simp
  show "\<not> is_reading (rw_pc s t')" using c(2) pc_count_zero_iff [of is_reading "rw_pc s"] fin(1) by simp
qed

text \<open>C4: RwLock. After any interleaving of reads, writes and drops by fewer than $2^{62}$ flows, a flow with
  write access excludes every other writer and every reader, \<open>state / 2\<close> is the number of read guards,
  \<open>state\<close> is odd exactly when a writer owns the lock, \<open>waiting_writers\<close> counts the writers still queued, and a
  flow has interrupts off from its lock call to the end of its drop and its own interrupt state
  outside.\<close>

theorem rw_lock_safe:
  assumes "run_acts rw_exec acts (rw_new v sie) = Some s"
    and "list_all (\<lambda>a. rw_act_flow a < rw_max_flows) acts"
  shows "(is_owner (rw_pc s t) \<longrightarrow> (is_owner (rw_pc s t') \<longrightarrow> t = t') \<and> \<not> is_reading (rw_pc s t')) \<and>
    unat (rw_state s) div 2 = card {t. is_reading (rw_pc s t)} \<and>
    (odd (unat (rw_state s)) \<longleftrightarrow> (\<exists>t. is_owner (rw_pc s t))) \<and>
    unat (rw_waiting s) = card {t. is_waiting (rw_pc s t)} \<and>
    (if rw_pc s t = RwIdle then rw_sie s t = sie t else \<not> rw_sie s t)"
proof -
  have inv: "rw_inv rw_max_flows sie s" by (rule rw_sys.inv_run [OF assms(2,1)])
  then have fl: "rw_flows rw_max_flows sie s" and c: "rw_counts s" by (auto simp: rw_inv_def)
  have "if rw_pc s t = RwIdle then rw_sie s t = sie t else \<not> rw_sie s t"
    using fl unfolding rw_flows_def by (cases "rw_pc s t") (auto dest!: spec [of _ t])
  moreover have "odd (unat (rw_state s)) \<longleftrightarrow> (\<exists>t. is_owner (rw_pc s t))"
    using c pc_count_zero_iff [of is_owner "rw_pc s"] rw_flows_finite(2) [OF fl] by (auto simp: rw_counts_def)
  ultimately show ?thesis using rw_inv_exclusive [OF inv, of t] c
    by (auto simp: rw_counts_def pc_count_def)
qed

theorem rw_lock_safe_witness:
  "\<exists>s. run_acts rw_exec [RwRead 0, RwWrite 1, RwStep 0, RwStep 0, RwStep 1, RwStep 0, RwStep 1] (rw_new (3::int) (\<lambda>_. True)) = Some s \<and>
     is_reading (rw_pc s 0) \<and> unat (rw_waiting s) = card {t. is_waiting (rw_pc s t)} \<and> \<not> is_owner (rw_pc s 1)"
proof -
  let ?r = "run_acts rw_exec [RwRead 0, RwWrite 1, RwStep 0, RwStep 0, RwStep 1, RwStep 0, RwStep 1] (rw_new (3::int) (\<lambda>_. True))"
  have "\<exists>s. ?r = Some s \<and> is_reading (rw_pc s 0)"
    by (simp add: rw_new_def rw_goto_def WRITER_def READER_def rw_checked_add_def)
  then obtain s where s: "?r = Some s" "is_reading (rw_pc s 0)" by blast
  have "list_all (\<lambda>a. rw_act_flow a < rw_max_flows) [RwRead 0, RwWrite 1, RwStep 0, RwStep 0, RwStep 1, RwStep 0, RwStep 1]"
    by (simp add: rw_max_flows_def)
  then show ?thesis using rw_lock_safe [OF s(1), of 1 0] s by auto
qed

subsection \<open>Writer preference and progress\<close>

text \<open>A flow that has not yet seen \<open>waiting_writers = 0\<close> in its current round.\<close>

fun rw_not_admitted :: "rw_pc \<Rightarrow> bool" where
  "rw_not_admitted (RLoad _) = False"
| "rw_not_admitted (RCas _ _) = False"
| "rw_not_admitted (Reading _) = False"
| "rw_not_admitted _ = True"

lemma rw_other_flow:
  "rw_exec a s = Some s' \<Longrightarrow> rw_act_flow a \<noteq> w \<Longrightarrow> rw_pc s' w = rw_pc s w"
  by (cases a) (auto split: rw_pc.splits if_splits option.splits)

lemma rw_waiting_nonzero:
  assumes "rw_inv n sie0 s" "is_waiting (rw_pc s w)"
  shows "rw_waiting s \<noteq> 0"
  using assms rw_counts_pos(3) [of n sie0 s w] by (auto simp: rw_inv_def rw_counts_def)

lemma rw_not_admitted_exec:
  assumes "rw_exec a s = Some s'" "rw_waiting s \<noteq> 0" "rw_not_admitted (rw_pc s t)"
  shows "rw_not_admitted (rw_pc s' t)"
  using assms by (cases a) (auto split: rw_pc.splits if_splits option.splits)

lemma rw_not_admitted_run:
  assumes "rw_inv rw_max_flows sie s" "is_waiting (rw_pc s w)" "rw_not_admitted (rw_pc s t)"
    and "run_acts rw_exec acts s = Some s'"
    and "\<forall>a \<in> set acts. rw_act_flow a < rw_max_flows \<and> rw_act_flow a \<noteq> w"
  shows "rw_not_admitted (rw_pc s' t)"
  using assms
proof (induction acts arbitrary: s)
  case (Cons a acts)
  then obtain s1 where s1: "rw_exec a s = Some s1" "run_acts rw_exec acts s1 = Some s'"
    by (auto split: option.splits)
  have "rw_inv rw_max_flows sie s1"
    using rw_inv_exec [OF rw_max_flows_small Cons.prems(1) _ s1(1)] Cons.prems(5) by simp
  moreover have "rw_pc s1 w = rw_pc s w" using rw_other_flow [OF s1(1)] Cons.prems(5) by simp
  moreover have "rw_not_admitted (rw_pc s1 t)"
    using rw_not_admitted_exec [OF s1(1) rw_waiting_nonzero] Cons.prems(1-3) by blast
  ultimately show ?case using Cons s1(2) by simp
qed simp

text \<open>Writers are preferred. While a writer is queued on a reachable lock and takes no step itself,
  no flow that had not already passed the \<open>waiting_writers\<close> test gets a read guard, whatever the other
  flows do and for however long.\<close>

theorem rw_writer_preference:
  assumes "run_acts rw_exec acts0 (rw_new v sie) = Some s"
    and "\<forall>a \<in> set acts0. rw_act_flow a < rw_max_flows"
    and "is_waiting (rw_pc s w)" "rw_not_admitted (rw_pc s t)"
    and "run_acts rw_exec acts s = Some s'"
    and "\<forall>a \<in> set acts. rw_act_flow a < rw_max_flows \<and> rw_act_flow a \<noteq> w"
  shows "\<not> is_reading (rw_pc s' t)"
proof -
  have "rw_inv rw_max_flows sie s"
    using rw_sys.inv_run [OF _ assms(1)] assms(2) by (simp add: list_all_iff)
  then have "rw_not_admitted (rw_pc s' t)" using assms(3-6) by (rule rw_not_admitted_run)
  then show ?thesis by (cases "rw_pc s' t") auto
qed

theorem rw_writer_preference_witness:
  "\<exists>s s'. run_acts rw_exec [RwRead 0, RwWrite 1, RwStep 1] (rw_new (3::int) (\<lambda>_. True)) = Some s \<and>
     run_acts rw_exec [RwStep 0, RwRead 2, RwStep 2, RwStep 0] s = Some s' \<and> \<not> is_reading (rw_pc s' 0)"
proof -
  have "\<exists>s s'. run_acts rw_exec [RwRead 0, RwWrite 1, RwStep 1] (rw_new (3::int) (\<lambda>_. True)) = Some s \<and>
     is_waiting (rw_pc s 1) \<and> rw_not_admitted (rw_pc s 0) \<and>
     run_acts rw_exec [RwStep 0, RwRead 2, RwStep 2, RwStep 0] s = Some s'"
    by (simp add: rw_new_def rw_goto_def)
  then obtain s s' where s: "run_acts rw_exec [RwRead 0, RwWrite 1, RwStep 1] (rw_new (3::int) (\<lambda>_. True)) = Some s"
    "is_waiting (rw_pc s 1)" "rw_not_admitted (rw_pc s 0)"
    "run_acts rw_exec [RwStep 0, RwRead 2, RwStep 2, RwStep 0] s = Some s'" by blast
  then show ?thesis
    using rw_writer_preference [OF s(1) _ s(2,3,4)] by (auto simp: rw_max_flows_def)
qed

text \<open>C23: An uncontended RwLock is acquired. On a reachable lock that nobody holds, a queued writer has write
  access after two of its steps; on one without queued or owning writers a reader at the head of its
  loop has a read guard after three, in particular \<open>checked_add\<close> does not fail.\<close>

theorem rw_lock_progress:
  assumes "run_acts rw_exec acts (rw_new v sie) = Some s"
    and "\<forall>a \<in> set acts. rw_act_flow a < rw_max_flows"
    and "\<forall>t. \<not> is_owner (rw_pc s t)"
  shows "(rw_pc s t = WCas b \<and> (\<forall>t. \<not> is_reading (rw_pc s t)) \<longrightarrow>
      (\<exists>s'. run_acts rw_exec [RwStep t, RwStep t] s = Some s' \<and> rw_pc s' t = Writing b)) \<and>
    (rw_pc s t = RCheck b \<and> (\<forall>t. \<not> is_waiting (rw_pc s t)) \<longrightarrow>
      (\<exists>s'. run_acts rw_exec [RwStep t, RwStep t, RwStep t] s = Some s' \<and> rw_pc s' t = Reading b))"
proof -
  have inv: "rw_inv rw_max_flows sie s"
    using rw_sys.inv_run [OF _ assms(1)] assms(2) by (simp add: list_all_iff)
  then have fl: "rw_flows rw_max_flows sie s" and c: "rw_counts s" by (auto simp: rw_inv_def)
  have own: "pc_count is_owner (rw_pc s) = 0" using assms(3) by (simp add: pc_count_def)
  have "\<forall>t. \<not> is_reading (rw_pc s t) \<Longrightarrow> rw_state s = 0"
    using c own by (simp add: rw_counts_def pc_count_def unat_eq_zero)
  moreover have "\<forall>t. \<not> is_waiting (rw_pc s t) \<Longrightarrow> rw_waiting s = 0"
    using c by (simp add: rw_counts_def pc_count_def unat_eq_zero)
  moreover have "rw_state s AND WRITER = 0"
    using c own even_and_WRITER [of "rw_state s"] by (simp add: rw_counts_def)
  moreover have "\<exists>y. rw_checked_add (rw_state s) = Some y"
    using c own rw_flows_le(1) [OF fl] rw_max_flows_small
    by (simp add: rw_checked_add_def rw_counts_def READER_def)
  ultimately show ?thesis by auto
qed

theorem rw_lock_progress_witness:
  "\<exists>s s'. run_acts rw_exec [RwWrite 4, RwStep 4] (rw_new (3::int) (\<lambda>_. True)) = Some s \<and>
     run_acts rw_exec [RwStep 4, RwStep 4] s = Some s' \<and> rw_pc s' 4 = Writing True"
proof -
  have "\<exists>s. run_acts rw_exec [RwWrite 4, RwStep 4] (rw_new (3::int) (\<lambda>_. True)) = Some s \<and>
     (\<forall>t. \<not> is_owner (rw_pc s t)) \<and> rw_pc s 4 = WCas True \<and> (\<forall>t. \<not> is_reading (rw_pc s t))"
    by (simp add: rw_new_def rw_goto_def)
  then obtain s where s: "run_acts rw_exec [RwWrite 4, RwStep 4] (rw_new (3::int) (\<lambda>_. True)) = Some s"
    "\<forall>t. \<not> is_owner (rw_pc s t)" "rw_pc s 4 = WCas True \<and> (\<forall>t. \<not> is_reading (rw_pc s t))" by blast
  then show ?thesis using rw_lock_progress [OF s(1) _ s(2), of 4 True] by (auto simp: rw_max_flows_def)
qed

end
