(* ===== verification/Once_Safety.thy ===== *)
theory Once_Safety
  imports Lock_Safety
begin

text \<open>
  \<open>OnceLock\<close>, \<open>LazyLock\<close> and \<open>PerCpu\<close> over every interleaving: one flow runs the initialiser, its value is the one
  every flow gets, uninitialised memory is never read, and \<open>LazyLock\<close> never finds its initialiser gone.
\<close>

section \<open>OnceLock\<close>

lemmas once_consts = UNINITIALIZED_def INITIALIZING_def INITIALIZED_def

fun is_init :: "'v once_pc \<Rightarrow> bool" where
  "is_init OInit = True"
| "is_init (OWrite _) = True"
| "is_init OPublish = True"
| "is_init OPanic = True"
| "is_init _ = False"

text \<open>What the initialising flow knows at each of its program points.\<close>

fun init_ok :: "('v \<Rightarrow> bool) \<Rightarrow> bool \<Rightarrow> ('v, 'e) once_state \<Rightarrow> 'v once_pc \<Rightarrow> bool" where
  "init_ok made may_panic s OInit = (oc_value s = None \<and> oc_calls s = 0)"
| "init_ok made may_panic s (OWrite v) = (oc_value s = None \<and> oc_calls s = 1 \<and> made v)"
| "init_ok made may_panic s OPublish = (\<exists>v. oc_value s = Some v \<and> made v \<and> oc_calls s = 1)"
| "init_ok made may_panic s OPanic = (oc_value s = None \<and> oc_calls s = 1 \<and> may_panic)"
| "init_ok made may_panic s _ = False"

fun reader_ok :: "('v, 'e) once_state \<Rightarrow> 'v once_pc \<Rightarrow> bool" where
  "reader_ok s ORead = (oc_status s = INITIALIZED)"
| "reader_ok s (ODone v) = (oc_status s = INITIALIZED \<and> oc_value s = Some v)"
| "reader_ok s OUninit = False"
| "reader_ok s _ = True"

definition owner_ok :: "('v \<Rightarrow> bool) \<Rightarrow> bool \<Rightarrow> ('v, 'e) once_state \<Rightarrow> nat option \<Rightarrow> bool" where
  "owner_ok made may_panic s owner \<longleftrightarrow>
     (\<forall>t. is_init (oc_pc s t) \<longleftrightarrow> owner = Some t) \<and>
     (case owner of
        Some t \<Rightarrow> oc_status s = INITIALIZING \<and> init_ok made may_panic s (oc_pc s t)
      | None \<Rightarrow>
          oc_status s = UNINITIALIZED \<and> oc_value s = None \<and> oc_calls s = 0 \<or>
          oc_status s = INITIALIZED \<and> (\<exists>v. oc_value s = Some v \<and> made v) \<and> oc_calls s = 1)"

text \<open>\<open>made v\<close>: the closure of some flow, run on the initial captured state, gives \<open>v\<close>.\<close>

definition once_made :: "(nat \<Rightarrow> 'e \<Rightarrow> ('v \<times> 'e) option) \<Rightarrow> 'e \<Rightarrow> 'v \<Rightarrow> bool" where
  "once_made run env v \<longleftrightarrow> (\<exists>t env'. run t env = Some (v, env'))"

definition once_may_panic :: "(nat \<Rightarrow> 'e \<Rightarrow> ('v \<times> 'e) option) \<Rightarrow> 'e \<Rightarrow> bool" where
  "once_may_panic run env \<longleftrightarrow> (\<exists>t. run t env = None)"

definition once_inv :: "(nat \<Rightarrow> 'e \<Rightarrow> ('v \<times> 'e) option) \<Rightarrow> 'e \<Rightarrow> ('v, 'e) once_state \<Rightarrow> bool" where
  "once_inv run env s \<longleftrightarrow>
     (\<exists>owner. owner_ok (once_made run env) (once_may_panic run env) s owner) \<and>
     (\<forall>t. reader_ok s (oc_pc s t)) \<and> (oc_calls s = 0 \<longrightarrow> oc_env s = env)"

lemma once_goto_simps [simp]:
  "oc_pc (once_goto s t p) = (oc_pc s)(t := p)" "oc_status (once_goto s t p) = oc_status s"
  "oc_value (once_goto s t p) = oc_value s" "oc_env (once_goto s t p) = oc_env s"
  "oc_calls (once_goto s t p) = oc_calls s"
  by (simp_all add: once_goto_def)

lemma once_status_distinct [simp]:
  "UNINITIALIZED \<noteq> INITIALIZING" "UNINITIALIZED \<noteq> INITIALIZED" "INITIALIZING \<noteq> INITIALIZED"
  "INITIALIZING \<noteq> UNINITIALIZED" "INITIALIZED \<noteq> UNINITIALIZED" "INITIALIZED \<noteq> INITIALIZING"
  by (simp_all add: once_consts)

lemma once_inv_new: "once_inv run env (once_new env)"
  by (auto simp: once_inv_def once_new_def owner_ok_def intro!: exI [of _ None])

lemma owner_pc:
  assumes "owner_ok made may_panic s owner"
  shows "is_init (oc_pc s t) \<longleftrightarrow> owner = Some t"
  using assms by (simp add: owner_ok_def)

lemma init_ok_cong:
  "oc_value s' = oc_value s \<Longrightarrow> oc_calls s' = oc_calls s \<Longrightarrow> init_ok made may_panic s' p = init_ok made may_panic s p"
  by (cases p) auto

lemma reader_ok_cong:
  "oc_value s' = oc_value s \<Longrightarrow> oc_status s' = oc_status s \<Longrightarrow> reader_ok s' p = reader_ok s p"
  by (cases p) auto

lemma once_goto_same: "oc_pc s t = p \<Longrightarrow> once_goto s t p = s"
  by (cases s) (auto simp: once_goto_def)

lemma once_reader_frame:
  assumes "once_step run t s = Some s'" "\<not> is_init (oc_pc s t)"
    and "\<not> (oc_pc s t = OCas \<and> oc_status s = UNINITIALIZED)" "reader_ok s (oc_pc s t)"
    and "oc_status s = INITIALIZED \<Longrightarrow> oc_value s \<noteq> None"
  shows "\<exists>p. s' = once_goto s t p \<and> \<not> is_init p \<and> reader_ok s p"
proof (cases "oc_pc s t")
  case OCas
  define p where "p = (if oc_status s = INITIALIZED then ORead else oc_pc s t)"
  have "s' = once_goto s t p" using assms(1,3) OCas by (auto simp: p_def once_goto_same)
  then show ?thesis using OCas by (auto simp: p_def)
next
  case ORead
  then show ?thesis using assms by (cases "oc_value s") (auto intro: exI [of _ "ODone (the (oc_value s))"])
next
  case OGet
  then show ?thesis using assms by (cases "oc_status s = INITIALIZED") (auto intro: exI [of _ ORead] exI [of _ OCas])
qed (use assms in \<open>auto intro: exI [of _ OGet]\<close>)

text \<open>Steps of flows that are not initialising only move a program counter or claim the initialisation.\<close>

lemma once_inv_reader_step:
  assumes "once_inv run env s" "once_step run t s = Some s'" "\<not> is_init (oc_pc s t)"
  shows "once_inv run env s'"
proof -
  obtain owner where o: "owner_ok (once_made run env) (once_may_panic run env) s owner"
    and r: "\<And>t. reader_ok s (oc_pc s t)" and e: "oc_calls s = 0 \<Longrightarrow> oc_env s = env"
    using assms(1) unfolding once_inv_def by auto
  show ?thesis
  proof (cases "oc_pc s t = OCas \<and> oc_status s = UNINITIALIZED")
    case True
    then have "owner = None" using o by (auto simp: owner_ok_def split: option.splits)
    then have "owner_ok (once_made run env) (once_may_panic run env) s' (Some t)"
      using True o assms(2) by (auto simp: owner_ok_def split: if_splits)
    moreover have "reader_ok s' (oc_pc s' t')" for t'
      using r [of t'] True assms(2) by (cases "oc_pc s t'") auto
    ultimately show ?thesis using True e assms(2) unfolding once_inv_def by auto
  next
    case False
    have "oc_status s = INITIALIZED \<Longrightarrow> oc_value s \<noteq> None"
      using o by (auto simp: owner_ok_def split: option.splits)
    then obtain p where s': "s' = once_goto s t p" and p: "\<not> is_init p" "reader_ok s p"
      using once_reader_frame [OF assms(2,3) False r] by blast
    then have same: "oc_status s' = oc_status s" "oc_value s' = oc_value s" "oc_calls s' = oc_calls s"
      "oc_env s' = oc_env s" "oc_pc s' = (oc_pc s)(t := p)" by simp_all
    note cong = init_ok_cong [OF same(2,3)] reader_ok_cong [OF same(2,1)]
    have "owner_ok (once_made run env) (once_may_panic run env) s' owner"
      using o p assms(3) same cong unfolding owner_ok_def by (auto split: option.splits)
    moreover have "reader_ok s' (oc_pc s' t')" for t' using r [of t'] p cong same by simp
    ultimately show ?thesis using e same unfolding once_inv_def by auto
  qed
qed

lemma once_inv_init_step:
  assumes "once_inv run env s" "once_step run t s = Some s'" "is_init (oc_pc s t)"
  shows "once_inv run env s'"
proof -
  obtain owner where o: "owner_ok (once_made run env) (once_may_panic run env) s owner"
    and r: "\<And>t. reader_ok s (oc_pc s t)" and e: "oc_calls s = 0 \<Longrightarrow> oc_env s = env"
    using assms(1) unfolding once_inv_def by auto
  have own: "\<And>t'. is_init (oc_pc s t') \<longleftrightarrow> t' = t" and st: "oc_status s = INITIALIZING"
    and ok: "init_ok (once_made run env) (once_may_panic run env) s (oc_pc s t)"
    using o assms(3) by (auto simp: owner_ok_def split: option.splits)
  have idle: "reader_ok x (oc_pc s t')" if "t' \<noteq> t" for t' and x
    using r [of t'] st by (cases "oc_pc s t'") auto
  have made: "run t env = Some (v, e) \<Longrightarrow> once_made run env v" "run t env = None \<Longrightarrow> once_may_panic run env" for v e
    by (auto simp: once_made_def once_may_panic_def)
  define owner' where "owner' = (if oc_pc s t = OPublish then None else Some t)"
  have "owner_ok (once_made run env) (once_may_panic run env) s' owner'"
    using own st ok e assms(2,3) made
    by (cases "oc_pc s t") (auto simp: owner_ok_def owner'_def split: option.splits if_splits)
  moreover have "reader_ok s' (oc_pc s' t')" for t'
    using assms(2,3) idle [of t' s'] by (cases "oc_pc s t") (auto split: option.splits)
  moreover have "oc_calls s' \<noteq> 0"
    using assms(2,3) ok by (cases "oc_pc s t") (auto split: option.splits)
  ultimately show ?thesis unfolding once_inv_def by auto
qed

lemma once_inv_step:
  "once_inv run env s \<Longrightarrow> once_step run t s = Some s' \<Longrightarrow> once_inv run env s'"
  using once_inv_reader_step [of run env s t s'] once_inv_init_step [of run env s t s'] by argo

interpretation once_sys: transition_system "once_step run" "\<lambda>_. True" "once_inv run env" "once_new env" for run env
  by unfold_locales (rule once_inv_new, rule once_inv_step)

text \<open>C22: OnceLock. After any interleaving of \<open>get_or_init\<close> calls on a new cell the closure has run at most once,
  no call has read the cell before it was written, and every call that returned got the same
  value, which the closure of one of the calls produced.\<close>

theorem once_lock_safe:
  assumes "run_acts (once_step run) flows (once_new env) = Some s"
  shows "oc_calls s \<le> 1 \<and> oc_pc s t \<noteq> OUninit \<and>
    (oc_pc s t = ODone v \<longrightarrow> once_get s = Some (Some v) \<and> once_made run env v)"
proof -
  have "once_inv run env s" using once_sys.inv_run [OF _ assms] by (simp add: list_all_iff)
  then obtain owner where o: "owner_ok (once_made run env) (once_may_panic run env) s owner"
    and r: "reader_ok s (oc_pc s t)"
    unfolding once_inv_def by auto
  have "oc_calls s \<le> 1"
  proof (cases owner)
    case (Some t)
    then show ?thesis using o by (cases "oc_pc s t") (auto simp: owner_ok_def)
  qed (use o in \<open>auto simp: owner_ok_def\<close>)
  moreover have "oc_pc s t = ODone v \<Longrightarrow> once_get s = Some (Some v) \<and> once_made run env v"
    using r o by (auto simp: once_get_def owner_ok_def split: option.splits)
  ultimately show ?thesis using r by auto
qed

theorem once_lock_safe_witness:
  "\<exists>s. run_acts (once_step (\<lambda>t (_::unit). Some (t + 10, ()))) [1, 2, 1, 2, 2, 2, 1, 2, 2, 2, 1, 1] (once_new ()) = Some s \<and>
     oc_pc s 1 = ODone 12 \<and> once_get s = Some (Some 12)"
proof -
  have "\<exists>s. run_acts (once_step (\<lambda>t (_::unit). Some (t + 10, ()))) [1, 2, 1, 2, 2, 2, 1, 2, 2, 2, 1, 1] (once_new ()) = Some s \<and>
     oc_pc s 1 = ODone 12" (is "\<exists>s. ?r = Some s \<and> _")
    by (simp add: once_new_def once_goto_def once_consts)
  then obtain s where s: "?r = Some s" "oc_pc s 1 = ODone 12" by blast
  then show ?thesis using once_lock_safe [OF s(1), of 1 12] by auto
qed

section \<open>LazyLock\<close>

text \<open>C29: LazyLock. However many flows force the cell at once, the \<open>expect\<close> on the initialiser never panics, the
  initialiser has run at most once, and every flow that returned got its value.\<close>

theorem lazy_force_safe:
  assumes "run_acts (lazy_force_step f_result) flows lazy_new = Some s"
  shows "oc_pc s t \<noteq> OPanic \<and> oc_pc s t \<noteq> OUninit \<and> oc_calls s \<le> 1 \<and>
    (oc_pc s t = ODone v \<longrightarrow> v = f_result)"
proof -
  have "lazy_force_step f_result = once_step (lazy_run f_result)"
    by (simp add: fun_eq_iff lazy_force_step_def)
  then have "run_acts (once_step (lazy_run f_result)) flows (once_new True) = Some s"
    using assms by (simp add: lazy_new_def)
  then have "once_inv (lazy_run f_result) True s"
    using once_sys.inv_run [of flows "lazy_run f_result" True s] by (simp add: list_all_iff)
  moreover have "\<not> once_may_panic (lazy_run f_result) True"
    "once_made (lazy_run f_result) True = (\<lambda>v. v = f_result)"
    by (auto simp: once_may_panic_def once_made_def lazy_run_def fun_eq_iff)
  ultimately obtain owner where o: "owner_ok (\<lambda>v. v = f_result) False s owner" and r: "reader_ok s (oc_pc s t)"
    unfolding once_inv_def by auto
  have "oc_calls s \<le> 1 \<and> (\<forall>t. owner = Some t \<longrightarrow> oc_pc s t \<noteq> OPanic)"
  proof (cases owner)
    case (Some t)
    then show ?thesis using o by (cases "oc_pc s t") (auto simp: owner_ok_def)
  qed (use o in \<open>auto simp: owner_ok_def\<close>)
  then show ?thesis using r owner_pc [OF o, of t] o
    by (cases "oc_pc s t") (auto simp: owner_ok_def split: option.splits)
qed

theorem lazy_force_safe_witness:
  "\<exists>s. run_acts (lazy_force_step (42::int)) [0, 1, 0, 1, 0, 1, 0, 0, 0, 0, 1, 1] lazy_new = Some s \<and>
     oc_pc s 0 \<noteq> OPanic \<and> oc_pc s 1 = ODone 42 \<and> oc_calls s \<le> 1"
proof -
  have "\<exists>s. run_acts (lazy_force_step (42::int)) [0, 1, 0, 1, 0, 1, 0, 0, 0, 0, 1, 1] lazy_new = Some s \<and>
     (\<exists>v. oc_pc s 1 = ODone v)" (is "\<exists>s. ?r = Some s \<and> _")
    by (simp add: lazy_force_step_def lazy_new_def once_new_def once_goto_def once_consts lazy_run_def)
  then obtain s v where s: "?r = Some s" "oc_pc s 1 = ODone v" by blast
  then show ?thesis using lazy_force_safe [OF s(1), of 1 v] lazy_force_safe [OF s(1), of 0] by auto
qed

section \<open>PerCpu\<close>

text \<open>
  A guard gives its hart's slot, writes through it reach no other hart's slot, and its drop restores the
  interrupt state that \<open>current\<close> found.
\<close>

lemma per_cpu_current_slot:
  assumes "per_cpu_current (per_cpu_new items) tp sie = Some (g, sie1)"
  shows "per_cpu_deref (per_cpu_new items) g = items ! tp" "\<not> sie1" "per_cpu_drop g sie1 = sie"
    "per_cpu_deref_mut (per_cpu_new items) g v = items[tp := v]"
    "hart \<noteq> tp \<Longrightarrow> per_cpu_deref_mut (per_cpu_new items) g v ! hart = items ! hart"
  using assms
  by (auto simp: per_cpu_current_def per_cpu_new_def per_cpu_deref_def per_cpu_deref_mut_def per_cpu_drop_def
      split: if_splits)

end
