(* ===== verification/Path_Buf.thy ===== *)
theory Path_Buf
  imports Prelude "HOL-Library.Sublist"
begin

text \<open>
  Paths (src/fs/path.rs): \<open>Path\<close> and \<open>PathBuf\<close> are both their string, and the operations are the string
  operations of the source.  \<open>split_on\<close>, \<open>trim_end_matches\<close> and \<open>rfind\<close> are the methods of \<open>str\<close> that the code calls with a
  one-character pattern.  The contract is in terms of components: \<open>join\<close> appends them, \<open>parent\<close> and \<open>pop\<close> drop the
  last one, \<open>file_name\<close> is its text.
\<close>

section \<open>Methods of \<open>str\<close>\<close>

fun split_on :: "char \<Rightarrow> string \<Rightarrow> string list" where
  "split_on c [] = [[]]"
| "split_on c (x # xs) =
     (if x = c then [] # split_on c xs
      else case split_on c xs of [] \<Rightarrow> [[x]] | p # ps \<Rightarrow> (x # p) # ps)"

definition trim_end_matches :: "char \<Rightarrow> string \<Rightarrow> string" where
  "trim_end_matches c s = rev (dropWhile (\<lambda>x. x = c) (rev s))"

definition rfind :: "char \<Rightarrow> string \<Rightarrow> nat option" where
  "rfind c s = find (\<lambda>i. s ! i = c) (rev [0..<length s])"

section \<open>Components\<close>

definition PATH_SEPARATOR :: char where
  "PATH_SEPARATOR = CHR ''/''"

datatype component = RootDir | CurDir | ParentDir | Normal string

fun component_as_str :: "component \<Rightarrow> string" where
  "component_as_str RootDir = ''''"
| "component_as_str CurDir = ''.''"
| "component_as_str ParentDir = ''..''"
| "component_as_str (Normal s) = s"

record components =
  parts :: "string list"
  is_absolute_c :: bool
  seen_root :: bool

definition path_is_absolute :: "string \<Rightarrow> bool" where
  "path_is_absolute p = prefix [PATH_SEPARATOR] p"

definition path_is_relative :: "string \<Rightarrow> bool" where
  "path_is_relative p = (\<not> path_is_absolute p)"

definition path_components :: "string \<Rightarrow> components" where
  "path_components p =
     \<lparr>parts = split_on PATH_SEPARATOR p, is_absolute_c = path_is_absolute p, seen_root = False\<rparr>"

definition component_of :: "string \<Rightarrow> component" where
  "component_of part =
     (if part = ''.'' then CurDir else if part = ''..'' then ParentDir else Normal part)"

text \<open>The recursive call of \<open>next\<close> on an empty part, on the remaining parts.\<close>

fun next_part :: "string list \<Rightarrow> (component \<times> string list) option" where
  "next_part [] = None"
| "next_part (part # ps) = (if part = [] then next_part ps else Some (component_of part, ps))"

definition components_next :: "components \<Rightarrow> (component \<times> components) option" where
  "components_next it =
     (if is_absolute_c it \<and> \<not> seen_root it then Some (RootDir, it\<lparr>seen_root := True\<rparr>)
      else map_option (\<lambda>(c, ps). (c, it\<lparr>parts := ps\<rparr>)) (next_part (parts it)))"

lemma next_part_length: "next_part ps = Some (c, ps') \<Longrightarrow> length ps' < length ps"
  by (induction ps) (auto split: if_splits)

text \<open>\<open>collect()\<close> of the iterator; every call consumes a part or the root.\<close>

function components_collect :: "components \<Rightarrow> component list" where
  "components_collect it =
     (case components_next it of None \<Rightarrow> [] | Some (c, it') \<Rightarrow> c # components_collect it')"
  by auto

termination components_collect
  by (relation "measure (\<lambda>it. 2 * length (parts it) + (if seen_root it then 0 else 1))")
    (auto simp: components_next_def split: if_splits dest!: next_part_length)

section \<open>Path\<close>

definition path_new :: "string \<Rightarrow> string" where
  "path_new s = s"

definition path_parent :: "string \<Rightarrow> string option" where
  "path_parent p =
     (let s = trim_end_matches PATH_SEPARATOR p in
      if s = [] then None
      else case rfind PATH_SEPARATOR s of
             Some pos \<Rightarrow> if pos = 0 then Some ''/'' else Some (take pos s)
           | None \<Rightarrow> Some [])"

definition path_file_name :: "string \<Rightarrow> string option" where
  "path_file_name p =
     (let s = trim_end_matches PATH_SEPARATOR p in
      case rfind PATH_SEPARATOR s of
        Some pos \<Rightarrow> if pos + 1 < length s then Some (drop (pos + 1) s) else None
      | None \<Rightarrow> if s \<noteq> [] then Some s else None)"

definition path_extension :: "string \<Rightarrow> string option" where
  "path_extension p =
     (case path_file_name p of
        None \<Rightarrow> None
      | Some name \<Rightarrow>
          (case rfind (CHR ''.'') name of
             None \<Rightarrow> None
           | Some pos \<Rightarrow> if pos + 1 < length name then Some (drop (pos + 1) name) else None))"

definition path_starts_with :: "string \<Rightarrow> string \<Rightarrow> bool" where
  "path_starts_with p base =
     (let a = components_collect (path_components p); b = components_collect (path_components base) in
      length b \<le> length a \<and> take (length b) a = b)"

definition path_ends_with :: "string \<Rightarrow> string \<Rightarrow> bool" where
  "path_ends_with p child =
     (let a = components_collect (path_components p); b = components_collect (path_components child) in
      length b \<le> length a \<and> drop (length a - length b) a = b)"

section \<open>PathBuf\<close>

definition path_buf_new :: string where
  "path_buf_new = ''''"

definition path_buf_push :: "string \<Rightarrow> string \<Rightarrow> string" where
  "path_buf_push buf path =
     (if path_is_absolute path then path
      else if path \<noteq> [] then
        (if buf \<noteq> [] \<and> last buf \<noteq> PATH_SEPARATOR then buf @ [PATH_SEPARATOR] else buf) @ path
      else buf)"

definition path_buf_pop :: "string \<Rightarrow> bool \<times> string" where
  "path_buf_pop buf =
     (let s = trim_end_matches PATH_SEPARATOR buf in
      if s = [] then (False, buf)
      else case rfind PATH_SEPARATOR s of
             Some pos \<Rightarrow> (True, take (if pos = 0 then 1 else pos) buf)
           | None \<Rightarrow> (True, []))"

definition path_buf_set_file_name :: "string \<Rightarrow> string \<Rightarrow> string" where
  "path_buf_set_file_name buf name =
     (case path_parent buf of
        Some parent \<Rightarrow>
          (if parent \<noteq> [] \<and> last parent \<noteq> PATH_SEPARATOR then parent @ [PATH_SEPARATOR] else parent) @ name
      | None \<Rightarrow> (if path_is_absolute buf then [PATH_SEPARATOR] else []) @ name)"

definition path_buf_join :: "string \<Rightarrow> string \<Rightarrow> string" where
  "path_buf_join buf path = path_buf_push buf path"

definition path_join :: "string \<Rightarrow> string \<Rightarrow> string" where
  "path_join p path = path_buf_push p path"

end
