(* ===== verification/Path_Correct.thy ===== *)
theory Path_Correct
  imports Path_Buf
begin

text \<open>The component-wise contract of \<open>Path\<close> and \<open>PathBuf\<close>.\<close>

section \<open>Splitting\<close>

lemma split_on_neq [simp]: "split_on c s \<noteq> []"
  by (induction s) (auto split: list.splits)

lemma split_on_append_sep: "split_on c (a @ c # b) = split_on c a @ split_on c b"
proof (induction a)
  case (Cons x a)
  then show ?case by (cases "split_on c a") auto
qed simp

lemma split_on_fresh: "c \<notin> set s \<Longrightarrow> split_on c s = [s]"
  by (induction s) auto

definition nonempty_parts :: "string \<Rightarrow> string list" where
  "nonempty_parts s = filter (\<lambda>p. p \<noteq> []) (split_on PATH_SEPARATOR s)"

lemma nonempty_parts_sep:
  "nonempty_parts (a @ PATH_SEPARATOR # b) = nonempty_parts a @ nonempty_parts b"
  by (simp add: nonempty_parts_def split_on_append_sep)

lemma nonempty_parts_simps [simp]:
  "nonempty_parts [] = []"
  "nonempty_parts (PATH_SEPARATOR # b) = nonempty_parts b"
  "nonempty_parts (a @ [PATH_SEPARATOR]) = nonempty_parts a"
  using nonempty_parts_sep [of a "[]"] by (simp_all add: nonempty_parts_def)

lemma nonempty_parts_fresh:
  "PATH_SEPARATOR \<notin> set s \<Longrightarrow> s \<noteq> [] \<Longrightarrow> nonempty_parts s = [s]"
  by (simp add: nonempty_parts_def split_on_fresh)

section \<open>The component list\<close>

definition components_of :: "string \<Rightarrow> component list" where
  "components_of p = components_collect (path_components p)"

declare components_collect.simps [simp del]

lemma next_part_None: "next_part ps = None \<Longrightarrow> filter (\<lambda>p. p \<noteq> []) ps = []"
  by (induction ps) (auto split: if_splits)

lemma next_part_Some:
  "next_part qs = Some (c, ps) \<Longrightarrow>
     map component_of (filter (\<lambda>p. p \<noteq> []) qs) = c # map component_of (filter (\<lambda>p. p \<noteq> []) ps)"
  by (induction qs) (auto split: if_splits)

lemma components_collect_tail:
  assumes "is_absolute_c it \<longrightarrow> seen_root it"
  shows "components_collect it = map component_of (filter (\<lambda>p. p \<noteq> []) (parts it))"
  using assms
proof (induction it rule: components_collect.induct)
  case (1 it)
  show ?case
  proof (cases "next_part (parts it)")
    case None
    then show ?thesis using next_part_None [OF None] 1(2)
      by (auto simp: components_collect.simps [of it] components_next_def)
  next
    case (Some r)
    obtain c ps where r: "r = (c, ps)" by force
    have nx: "components_next it = Some (c, it\<lparr>parts := ps\<rparr>)"
      using Some r 1(2) by (auto simp: components_next_def)
    moreover have "components_collect (it\<lparr>parts := ps\<rparr>) = map component_of (filter (\<lambda>p. p \<noteq> []) ps)"
      using 1(1) [OF nx] 1(2) by simp
    ultimately show ?thesis using next_part_Some [of "parts it"] Some r
      by (simp add: components_collect.simps [of it])
  qed
qed

lemma components_of_parts:
  "components_of p =
     (if path_is_absolute p then [RootDir] else []) @ map component_of (nonempty_parts p)"
proof (cases "path_is_absolute p")
  case True
  then show ?thesis unfolding components_of_def
    by (subst components_collect.simps)
      (simp add: path_components_def components_next_def components_collect_tail nonempty_parts_def)
next
  case False
  then show ?thesis unfolding components_of_def
    by (subst components_collect_tail) (simp_all add: path_components_def nonempty_parts_def)
qed

lemma component_of_as_str [simp]: "component_as_str (component_of s) = s"
  by (simp add: component_of_def)

lemma component_of_inj: "component_of s \<noteq> RootDir"
  by (simp add: component_of_def)

section \<open>Trimming and the last separator\<close>

lemma takeWhile_eq_replicate:
  "takeWhile (\<lambda>x. x = c) xs = replicate (length (takeWhile (\<lambda>x. x = c) xs)) c"
  by (induction xs) auto

lemma trim_end_split:
  "\<exists>k. s = trim_end_matches c s @ replicate k c"
proof -
  have "rev s = takeWhile (\<lambda>x. x = c) (rev s) @ dropWhile (\<lambda>x. x = c) (rev s)" by simp
  then have "s = rev (dropWhile (\<lambda>x. x = c) (rev s)) @ rev (takeWhile (\<lambda>x. x = c) (rev s))"
    by (metis rev_append rev_rev_ident)
  then show ?thesis unfolding trim_end_matches_def
    by (metis takeWhile_eq_replicate rev_replicate)
qed

lemma trim_end_last: "trim_end_matches c s \<noteq> [] \<Longrightarrow> last (trim_end_matches c s) \<noteq> c"
  unfolding trim_end_matches_def
  by (metis (mono_tags) hd_dropWhile hd_rev last_rev rev_is_Nil_conv rev_rev_ident)

lemma rfind_None_iff: "rfind c s = None \<longleftrightarrow> c \<notin> set s"
  by (auto simp: rfind_def find_None_iff in_set_conv_nth)

lemma rfind_SomeD:
  assumes "rfind c s = Some pos"
  obtains w where "s = take pos s @ c # w" "c \<notin> set w" "pos < length s" "w = drop (pos + 1) s"
proof -
  obtain i where i: "i < length s" "rev [0..<length s] ! i = pos" "s ! pos = c"
    "\<And>j. j < i \<Longrightarrow> s ! (rev [0..<length s] ! j) \<noteq> c"
    using assms unfolding rfind_def find_Some_iff by auto
  have pos: "pos = length s - 1 - i" "pos < length s" using i(1,2) by (auto simp: rev_nth)
  have "c \<notin> set (drop (pos + 1) s)"
  proof
    assume "c \<in> set (drop (pos + 1) s)"
    then obtain j where "j < length s - (pos + 1)" "s ! (pos + 1 + j) = c"
      by (auto simp: in_set_conv_nth)
    then have j: "pos + 1 + j < length s" "s ! (pos + 1 + j) = c" by auto
    have "rev [0..<length s] ! (length s - 1 - (pos + 1 + j)) = pos + 1 + j"
      using j(1) by (simp add: rev_nth)
    moreover have "length s - 1 - (pos + 1 + j) < i" using j(1) pos(1) i(1) by linarith
    ultimately show False using i(4) j(2) by metis
  qed
  then show thesis using that [of "drop (pos + 1) s"] pos i(3) id_take_nth_drop by (metis Suc_eq_plus1)
qed

lemma nonempty_parts_replicate [simp]:
  "nonempty_parts (a @ replicate k PATH_SEPARATOR) = nonempty_parts a"
proof (induction k arbitrary: a)
  case (Suc k)
  then show ?case using Suc.IH [of "[]"] by (simp add: nonempty_parts_sep)
qed simp

lemma path_is_absolute_append:
  "a \<noteq> [] \<Longrightarrow> path_is_absolute (a @ b) = path_is_absolute a"
  by (cases a) (auto simp: path_is_absolute_def)

text \<open>Either the path has no named component, or the three operations agree on where the last one starts.\<close>

lemma path_no_name:
  assumes "trim_end_matches PATH_SEPARATOR p = []"
  shows "path_parent p = None" "path_file_name p = None" "path_buf_pop p = (False, p)"
    "nonempty_parts p = []"
proof -
  obtain k where "p = replicate k PATH_SEPARATOR"
    using trim_end_split [of p PATH_SEPARATOR] assms by auto
  then show "nonempty_parts p = []" using nonempty_parts_replicate [of "[]" k] by simp
qed (use assms in \<open>simp_all add: path_parent_def path_file_name_def path_buf_pop_def rfind_def\<close>)

lemma path_last_name:
  assumes "trim_end_matches PATH_SEPARATOR p \<noteq> []"
  shows "\<exists>q w. path_parent p = Some q \<and> path_file_name p = Some w \<and> path_buf_pop p = (True, q) \<and>
    nonempty_parts p = nonempty_parts q @ [w] \<and> path_is_absolute q = path_is_absolute p"
proof -
  define s where "s = trim_end_matches PATH_SEPARATOR p"
  obtain k where k: "p = s @ replicate k PATH_SEPARATOR"
    using trim_end_split [of p PATH_SEPARATOR] by (auto simp: s_def)
  have s: "s \<noteq> []" "last s \<noteq> PATH_SEPARATOR" using assms trim_end_last by (auto simp: s_def)
  have parts: "nonempty_parts p = nonempty_parts s" and abs: "path_is_absolute p = path_is_absolute s"
    using k s(1) by (simp_all add: path_is_absolute_append)
  show ?thesis
  proof (cases "rfind PATH_SEPARATOR s")
    case None
    then have f: "PATH_SEPARATOR \<notin> set s" by (simp add: rfind_None_iff)
    then have "\<not> path_is_absolute s" by (auto simp: path_is_absolute_def prefix_def)
    then show ?thesis using None s f parts abs nonempty_parts_fresh [OF f s(1)]
      by (auto simp: path_parent_def path_file_name_def path_buf_pop_def path_is_absolute_def Let_def simp flip: s_def)
  next
    case (Some pos)
    then obtain w where w: "s = take pos s @ PATH_SEPARATOR # w" "PATH_SEPARATOR \<notin> set w"
      "pos < length s" "w = drop (pos + 1) s" by (rule rfind_SomeD)
    have "w \<noteq> []" using w(1) s(2) by (metis last_snoc)
    then have np: "nonempty_parts s = nonempty_parts (take pos s) @ [w]" and len: "pos + 1 < length s"
      using w nonempty_parts_sep [of "take pos s" w] nonempty_parts_fresh [of w] by auto
    define q where "q = (if pos = 0 then [PATH_SEPARATOR] else take pos s)"
    have abs_q: "path_is_absolute q = path_is_absolute s"
    proof (cases "pos = 0")
      case True
      then have "s = PATH_SEPARATOR # w" using w(1) by simp
      then show ?thesis using True by (simp add: q_def path_is_absolute_def)
    next
      case False
      then have "take pos s \<noteq> []" using s(1) by simp
      then show ?thesis using False path_is_absolute_append [of "take pos s" "PATH_SEPARATOR # w"] w(1)
        by (simp add: q_def)
    qed
    have parts_q: "nonempty_parts q = nonempty_parts (take pos s)"
      using nonempty_parts_simps(2) [of "[]"] by (simp add: q_def)
    have "hd s = PATH_SEPARATOR" if "pos = 0" using w(1) that by (metis append_Nil list.sel(1) take0)
    then have "take (if pos = 0 then 1 else pos) p = q"
      using k w(3) s(1) by (cases s; cases "pos = 0") (auto simp: q_def take_Cons')
    moreover have sep: "''/'' = [PATH_SEPARATOR]" by (simp add: PATH_SEPARATOR_def)
    moreover have "path_parent p = Some q"
      using Some s(1) by (simp add: path_parent_def q_def sep Let_def flip: s_def)
    moreover have "path_file_name p = Some w"
      using Some len w(4) by (simp add: path_file_name_def Let_def flip: s_def)
    ultimately show ?thesis using Some s(1) np parts parts_q abs abs_q
      by (simp add: path_buf_pop_def Let_def flip: s_def)
  qed
qed

section \<open>The contract\<close>

lemma path_buf_push_parts:
  "path_is_relative b \<Longrightarrow> nonempty_parts (path_buf_push a b) = nonempty_parts a @ nonempty_parts b"
proof (cases "a = [] \<or> last a \<noteq> PATH_SEPARATOR")
  case False
  then obtain a' where a: "a = a' @ [PATH_SEPARATOR]" by (metis append_butlast_last_id)
  assume "path_is_relative b"
  then show ?thesis using a nonempty_parts_sep [of a' b]
    by (auto simp: path_buf_push_def path_is_relative_def)
qed (auto simp: path_buf_push_def path_is_relative_def nonempty_parts_sep)

lemma path_buf_push_absolute:
  "path_is_relative b \<Longrightarrow> path_is_absolute (path_buf_push a b) = path_is_absolute a"
  by (cases a) (auto simp: path_buf_push_def path_is_relative_def path_is_absolute_def)

text \<open>C30: Joining paths appends their components; an absolute second path replaces the first.\<close>

theorem path_join_components:
  "components_of (path_join a b) =
     (if path_is_absolute b then components_of b else components_of a @ components_of b)"
proof (cases "path_is_absolute b")
  case False
  then have "path_is_relative b" by (simp add: path_is_relative_def)
  then show ?thesis using False path_buf_push_parts [of b a] path_buf_push_absolute [of b a]
    by (simp add: path_join_def components_of_parts)
qed (simp add: path_join_def path_buf_push_def)

text \<open>\<open>parent\<close>, \<open>pop\<close> and \<open>file_name\<close> agree: a path without a named component (empty, or only the root) has no
  parent and no file name and is left alone by \<open>pop\<close>; otherwise the parent, which is what \<open>pop\<close> leaves, has all components but
  the last, and the file name is the text of the last.\<close>

theorem path_parent_components:
  "case path_parent p of
      None \<Rightarrow> components_of p = (if path_is_absolute p then [RootDir] else []) \<and>
        path_file_name p = None \<and> path_buf_pop p = (False, p)
    | Some q \<Rightarrow> components_of q = butlast (components_of p) \<and> path_buf_pop p = (True, q) \<and>
        path_file_name p = Some (component_as_str (last (components_of p)))"
proof (cases "trim_end_matches PATH_SEPARATOR p = []")
  case True
  then show ?thesis by (simp add: path_no_name components_of_parts)
next
  case False
  then show ?thesis using path_last_name [OF False]
    by (auto simp: components_of_parts butlast_append)
qed

text \<open>\<open>set_file_name\<close> with a plain name replaces the last named component (or adds one when there is
  none), and \<open>file_name\<close> reads it back.\<close>

theorem path_set_file_name_components:
  assumes "name \<noteq> []" "PATH_SEPARATOR \<notin> set name"
  shows "components_of (path_buf_set_file_name p name) =
      (if path_parent p = None then components_of p else butlast (components_of p)) @ [component_of name] \<and>
    path_file_name (path_buf_set_file_name p name) = Some name"
proof -
  define base where "base = (case path_parent p of None \<Rightarrow> (if path_is_absolute p then [PATH_SEPARATOR] else []) | Some q \<Rightarrow> q)"
  have base: "components_of base = (if path_parent p = None then components_of p else butlast (components_of p))"
  proof (cases "trim_end_matches PATH_SEPARATOR p = []")
    case True
    then show ?thesis using nonempty_parts_simps(2) [of "[]"] nonempty_parts_simps(1)
      by (auto simp: path_no_name base_def components_of_parts path_is_absolute_def)
  qed (use path_last_name [of p] in \<open>auto simp: base_def components_of_parts butlast_append\<close>)
  have rel: "path_is_relative name" using assms by (cases name) (auto simp: path_is_relative_def path_is_absolute_def)
  have set: "path_buf_set_file_name p name = path_buf_push base name"
    using assms rel by (auto simp: path_buf_set_file_name_def base_def path_buf_push_def path_is_relative_def split: option.splits)
  let ?r = "path_buf_push base name"
  have parts: "nonempty_parts ?r = nonempty_parts base @ [name]"
    using path_buf_push_parts [OF rel] nonempty_parts_fresh [OF assms(2,1)] by simp
  then have comps: "components_of ?r = components_of base @ [component_of name]"
    by (simp add: components_of_parts path_buf_push_absolute [OF rel])
  have "trim_end_matches PATH_SEPARATOR ?r \<noteq> []" using parts path_no_name(4) [of ?r] by auto
  then have "path_file_name ?r = Some name" using path_last_name [of ?r] parts by auto
  then show ?thesis using comps base set by simp
qed

theorem path_set_file_name_components_witness:
  "components_of (path_buf_set_file_name ''/etc/hosts'' ''fstab'') = butlast (components_of ''/etc/hosts'') @ [Normal ''fstab'']"
proof -
  have "path_parent ''/etc/hosts'' \<noteq> None" by code_simp
  moreover have "component_of ''fstab'' = Normal ''fstab''" by code_simp
  moreover have "PATH_SEPARATOR \<notin> set ''fstab''" by code_simp
  ultimately show ?thesis using path_set_file_name_components [of "''fstab''" "''/etc/hosts''"] by auto
qed

text \<open>\<open>starts_with\<close> and \<open>ends_with\<close> are the prefix and suffix orders on component lists.\<close>

lemma path_starts_with_prefix: "path_starts_with p base \<longleftrightarrow> prefix (components_of base) (components_of p)"
  by (auto simp: path_starts_with_def Let_def prefix_def simp flip: components_of_def)
    (metis append_take_drop_id)

lemma path_ends_with_suffix: "path_ends_with p child \<longleftrightarrow> suffix (components_of child) (components_of p)"
  by (auto simp: path_ends_with_def Let_def suffix_def simp flip: components_of_def)
    (metis append_take_drop_id)

end
