(* ===== verification/Bit_Fields.thy ===== *)
theory Bit_Fields
  imports Prelude
begin

text \<open>
  The \<open>bits!\<close> macro (src/macros.rs): getters and setters of bit fields of an integer newtype, and the
  newtypes of the memory subsystem that it generates (src/mm/address.rs, src/mm/page_table/entry.rs,
  src/arch/riscv64/registers/values.rs).  A newtype is its raw word; a field \<open>from => to\<close> includes both bounds.
\<close>

section \<open>The macro\<close>

definition bits_mask :: "nat \<Rightarrow> nat \<Rightarrow> 'a::len word" where
  "bits_mask from to = push_bit (to - from + 1) 1 - 1"

definition bits_get :: "nat \<Rightarrow> nat \<Rightarrow> 'a::len word \<Rightarrow> 'a word" where
  "bits_get from to w = drop_bit from (w AND push_bit from (bits_mask from to))"

definition bits_get1 :: "nat \<Rightarrow> 'a::len word \<Rightarrow> bool" where
  "bits_get1 from w \<longleftrightarrow> w AND push_bit from 1 \<noteq> 0"

definition bits_set :: "nat \<Rightarrow> nat \<Rightarrow> 'a::len word \<Rightarrow> 'a word \<Rightarrow> 'a word" where
  "bits_set from to value w =
     (w AND NOT (push_bit from (bits_mask from to))) OR push_bit from (value AND bits_mask from to)"

definition bits_set1 :: "nat \<Rightarrow> bool \<Rightarrow> 'a::len word \<Rightarrow> 'a word" where
  "bits_set1 from value w =
     (w AND NOT (push_bit from 1)) OR push_bit from (if value then 1 else 0)"

lemma bits_mask_eq: "bits_mask from to = mask (to - from + 1)"
  by (simp add: bits_mask_def mask_eq_decr_exp push_bit_eq_mult)

lemma bit_bits_get:
  assumes "from \<le> to" "to < LENGTH('a)"
  shows "bit (bits_get from to (w :: 'a::len word)) i \<longleftrightarrow> i \<le> to - from \<and> bit w (from + i)"
proof -
  have "bit (bits_get from to w) i \<longleftrightarrow> bit w (from + i) \<and> from + i < LENGTH('a) \<and> i < to - from + 1"
    using assms unfolding bits_get_def bits_mask_eq
    by (auto simp: bit_simps dest: bit_imp_le_length)
  then show ?thesis using assms by (auto dest: bit_imp_le_length)
qed

lemma bit_bits_set:
  assumes "from \<le> to" "to < LENGTH('a)"
  shows "bit (bits_set from to v (w :: 'a::len word)) i \<longleftrightarrow>
    (if from \<le> i \<and> i \<le> to then bit v (i - from) else bit w i)"
proof (cases "i < LENGTH('a)")
  case True
  then show ?thesis using assms unfolding bits_set_def bits_mask_eq
    by (auto simp: bit_simps)
next
  case False
  then show ?thesis using assms by (auto dest: bit_imp_le_length)
qed

lemma bits_get1_iff: "bits_get1 from (w :: 'a::len word) \<longleftrightarrow> bit w from"
  unfolding bits_get1_def by (rule and_single_bit)

lemma bit_bits_set1:
  assumes "from < LENGTH('a)"
  shows "bit (bits_set1 from v (w :: 'a::len word)) i \<longleftrightarrow> (if i = from then v else bit w i)"
proof (cases "i < LENGTH('a)")
  case True
  then show ?thesis using assms unfolding bits_set1_def by (auto simp: bit_simps bit_1_iff)
next
  case False
  then show ?thesis using assms by (auto dest: bit_imp_le_length)
qed

lemmas bits_simps [bit_facts] = bit_bits_get bit_bits_set bits_get1_iff bit_bits_set1

text \<open>Reading back what was written, and fields that do not overlap.\<close>

lemma bits_get_set:
  assumes "from \<le> to" "to < LENGTH('a)"
  shows "bits_get from to (bits_set from to v (w :: 'a::len word)) = take_bit (to - from + 1) v"
  by (rule bit_word_eqI) (use assms in \<open>auto simp: bits_simps bit_take_bit_iff\<close>)

lemma bits_get_set_small:
  assumes "from \<le> to" "to < LENGTH('a)" "unat v < 2 ^ (to - from + 1)"
  shows "bits_get from to (bits_set from to v (w :: 'a::len word)) = v"
proof -
  have "take_bit (to - from + 1) v = v"
    unfolding word_unat_eq_iff unsigned_take_bit_eq by (rule take_bit_nat_eq_self [OF assms(3)])
  then show ?thesis using bits_get_set [OF assms(1,2)] by metis
qed

lemma bits_get_set_other:
  assumes "from \<le> to" "to < LENGTH('a)" "f \<le> t" "t < LENGTH('a)" "to < f \<or> t < from"
  shows "bits_get f t (bits_set from to v (w :: 'a::len word)) = bits_get f t w"
  by (rule bit_word_eqI) (use assms in \<open>auto simp: bits_simps\<close>)

lemma bits_get1_set_other:
  assumes "from \<le> to" "to < LENGTH('a)" "i < from \<or> to < i"
  shows "bits_get1 i (bits_set from to v (w :: 'a::len word)) = bits_get1 i w"
  using assms by (auto simp: bits_simps)

lemma bits_get_set1_other:
  assumes "i < LENGTH('a)" "f \<le> t" "t < LENGTH('a)" "i < f \<or> t < i"
  shows "bits_get f t (bits_set1 i v (w :: 'a::len word)) = bits_get f t w"
  by (rule bit_word_eqI) (use assms in \<open>auto simp: bits_simps\<close>)

lemma bits_get1_set1:
  "j < LENGTH('a) \<Longrightarrow> bits_get1 i (bits_set1 j v (w :: 'a::len word)) = (if i = j then v else bits_get1 i w)"
  by (simp add: bits_simps)

lemma unat_bits_get_less:
  assumes "from \<le> to" "to < LENGTH('a)"
  shows "unat (bits_get from to (w :: 'a::len word)) < 2 ^ (to - from + 1)"
proof -
  have "bits_get from to w = take_bit (to - from + 1) (bits_get from to w)"
    by (rule bit_word_eqI) (use assms in \<open>auto simp: bits_simps bit_take_bit_iff\<close>)
  then show ?thesis by (metis take_bit_nat_less_exp unsigned_take_bit_eq)
qed

section \<open>Addresses, page-table entries and \<open>satp\<close>\<close>

definition va_page_offset :: "u64 \<Rightarrow> u64" where "va_page_offset = bits_get 0 11"
definition va_vpn0 :: "u64 \<Rightarrow> u64" where "va_vpn0 = bits_get 12 20"
definition va_vpn1 :: "u64 \<Rightarrow> u64" where "va_vpn1 = bits_get 21 29"
definition va_vpn2 :: "u64 \<Rightarrow> u64" where "va_vpn2 = bits_get 30 38"
definition va_vpn :: "u64 \<Rightarrow> u64" where "va_vpn = bits_get 12 38"

definition pa_new :: u64 where "pa_new = 0"
definition pa_page_offset :: "u64 \<Rightarrow> u64" where "pa_page_offset = bits_get 0 11"
definition pa_ppn :: "u64 \<Rightarrow> u64" where "pa_ppn = bits_get 12 55"
definition pa_set_ppn :: "u64 \<Rightarrow> u64 \<Rightarrow> u64" where "pa_set_ppn = bits_set 12 55"

definition pte_new :: u64 where "pte_new = 0"
definition pte_v :: "u64 \<Rightarrow> bool" where "pte_v = bits_get1 0"
definition pte_r :: "u64 \<Rightarrow> bool" where "pte_r = bits_get1 1"
definition pte_w :: "u64 \<Rightarrow> bool" where "pte_w = bits_get1 2"
definition pte_x :: "u64 \<Rightarrow> bool" where "pte_x = bits_get1 3"
definition pte_u :: "u64 \<Rightarrow> bool" where "pte_u = bits_get1 4"
definition pte_g :: "u64 \<Rightarrow> bool" where "pte_g = bits_get1 5"
definition pte_a :: "u64 \<Rightarrow> bool" where "pte_a = bits_get1 6"
definition pte_d :: "u64 \<Rightarrow> bool" where "pte_d = bits_get1 7"
definition pte_flags :: "u64 \<Rightarrow> u64" where "pte_flags = bits_get 0 7"
definition pte_ppn :: "u64 \<Rightarrow> u64" where "pte_ppn = bits_get 10 53"

definition pte_set_v :: "bool \<Rightarrow> u64 \<Rightarrow> u64" where "pte_set_v = bits_set1 0"
definition pte_set_r :: "bool \<Rightarrow> u64 \<Rightarrow> u64" where "pte_set_r = bits_set1 1"
definition pte_set_w :: "bool \<Rightarrow> u64 \<Rightarrow> u64" where "pte_set_w = bits_set1 2"
definition pte_set_x :: "bool \<Rightarrow> u64 \<Rightarrow> u64" where "pte_set_x = bits_set1 3"
definition pte_set_u :: "bool \<Rightarrow> u64 \<Rightarrow> u64" where "pte_set_u = bits_set1 4"
definition pte_set_g :: "bool \<Rightarrow> u64 \<Rightarrow> u64" where "pte_set_g = bits_set1 5"
definition pte_set_a :: "bool \<Rightarrow> u64 \<Rightarrow> u64" where "pte_set_a = bits_set1 6"
definition pte_set_d :: "bool \<Rightarrow> u64 \<Rightarrow> u64" where "pte_set_d = bits_set1 7"
definition pte_set_ppn :: "u64 \<Rightarrow> u64 \<Rightarrow> u64" where "pte_set_ppn = bits_set 10 53"

text \<open>\<open>PageTableEntryFlags\<close> has the same single-bit fields as the entry.\<close>

definition satp_set_ppn :: "u64 \<Rightarrow> u64 \<Rightarrow> u64" where "satp_set_ppn = bits_set 0 43"
definition satp_set_mode :: "u64 \<Rightarrow> u64 \<Rightarrow> u64" where "satp_set_mode = bits_set 60 63"
definition satp_ppn :: "u64 \<Rightarrow> u64" where "satp_ppn = bits_get 0 43"
definition satp_mode :: "u64 \<Rightarrow> u64" where "satp_mode = bits_get 60 63"

definition SATP_SV39 :: u64 where "SATP_SV39 = 8"

lemmas va_defs = va_page_offset_def va_vpn0_def va_vpn1_def va_vpn2_def va_vpn_def
lemmas pte_defs = pte_v_def pte_r_def pte_w_def pte_x_def pte_u_def pte_g_def pte_a_def pte_d_def
  pte_flags_def pte_ppn_def pte_set_v_def pte_set_r_def pte_set_w_def pte_set_x_def pte_set_u_def
  pte_set_g_def pte_set_a_def pte_set_d_def pte_set_ppn_def

text \<open>The three indices determine the virtual page number and conversely.\<close>

lemma va_vpn_eq_iff:
  "va_vpn va = va_vpn va' \<longleftrightarrow> va_vpn2 va = va_vpn2 va' \<and> va_vpn1 va = va_vpn1 va' \<and> va_vpn0 va = va_vpn0 va'"
proof
  assume eq: "va_vpn va = va_vpn va'"
  have b: "bit va (12 + i) = bit va' (12 + i)" if "i \<le> 26" for i
    using arg_cong [OF eq, of "\<lambda>w. bit w i"] that by (simp add: va_defs bits_simps)
  have "bits_get f t va = bits_get f t va'" if "12 \<le> f" "f \<le> t" "t \<le> 38" for f t
  proof (rule bit_word_eqI)
    fix i
    show "bit (bits_get f t va) i = bit (bits_get f t va') i"
      using that b [of "f + i - 12"] by (auto simp: bits_simps)
  qed
  then show "va_vpn2 va = va_vpn2 va' \<and> va_vpn1 va = va_vpn1 va' \<and> va_vpn0 va = va_vpn0 va'"
    by (simp add: va_defs)
next
  assume eq: "va_vpn2 va = va_vpn2 va' \<and> va_vpn1 va = va_vpn1 va' \<and> va_vpn0 va = va_vpn0 va'"
  then have b: "bit (va_vpn0 va) i = bit (va_vpn0 va') i" "bit (va_vpn1 va) i = bit (va_vpn1 va') i"
    "bit (va_vpn2 va) i = bit (va_vpn2 va') i" for i by simp_all
  show "va_vpn va = va_vpn va'"
  proof (rule bit_word_eqI)
    fix i :: nat
    consider "i < 9" | "9 \<le> i" "i < 18" | "18 \<le> i" "i \<le> 26" | "26 < i" by linarith
    then show "bit (va_vpn va) i = bit (va_vpn va') i"
    proof cases
      case 1
      then show ?thesis using b(1) [of "i"] by (simp add: va_defs bits_simps)
    next
      case 2
      then have "i - 9 \<le> 8" by simp
      then show ?thesis using 2 b(2) [of "i - 9"] by (simp add: va_defs bits_simps)
    next
      case 3
      then have "i - 18 \<le> 8" by simp
      then show ?thesis using 3 b(3) [of "i - 18"] by (simp add: va_defs bits_simps)
    next
      case 4
      then show ?thesis by (simp add: va_defs bits_simps)
    qed
  qed
qed

lemma va_index_less: "unat (va_vpn2 va) < 512" "unat (va_vpn1 va) < 512" "unat (va_vpn0 va) < 512"
  using unat_bits_get_less [of 30 38 va] unat_bits_get_less [of 21 29 va] unat_bits_get_less [of 12 20 va]
  by (simp_all add: va_defs)

text \<open>A page-aligned physical address below $2^{56}$ survives the trip through an entry's \<open>ppn\<close> field.\<close>

definition page_addr :: "u64 \<Rightarrow> bool" where
  "page_addr a \<longleftrightarrow> (\<forall>i. bit a i \<longrightarrow> 12 \<le> i \<and> i < 56)"

definition pte_addr :: "u64 \<Rightarrow> u64" where
  "pte_addr pte = pa_set_ppn (pte_ppn pte) pa_new"

lemma pte_addr_set:
  "page_addr a \<Longrightarrow> pte_addr (pte_set_ppn (pa_ppn a) pte) = a"
  by (rule bit_word_eqI)
    (auto simp: pte_addr_def pte_defs pa_ppn_def pa_set_ppn_def pa_new_def page_addr_def bits_simps)

lemma page_addr_pte_addr: "page_addr (pte_addr pte)"
  by (auto simp: page_addr_def pte_addr_def pa_set_ppn_def pa_new_def bits_simps)

lemma page_addr_of_nat:
  assumes "4096 dvd a" "a < 2 ^ 56"
  shows "page_addr (of_nat a)"
proof -
  have "12 \<le> i \<and> i < 56" if "bit (of_nat a :: u64) i" for i
  proof -
    have b: "bit a i" using that by (simp add: bit_of_nat_iff)
    obtain q where "a = push_bit 12 q" using assms(1) by (auto simp: push_bit_eq_mult)
    then have "\<not> i < 12" using b by (simp add: bit_push_bit_iff)
    moreover have "\<not> 56 \<le> i"
    proof
      assume "56 \<le> i"
      then have "(2::nat) ^ 56 \<le> 2 ^ i" by (intro power_increasing) simp_all
      then have "a < 2 ^ i" using assms(2) by linarith
      then show False using b by (simp add: bit_iff_odd)
    qed
    ultimately show ?thesis by simp
  qed
  then show ?thesis by (simp add: page_addr_def)
qed

end
