(* ===== verification/Abi.thy ===== *)
theory Abi
  imports Bit_Fields
begin

text \<open>
  Constants of the user-space ABI (src/syscall/abi.rs): the error codes, the argument bits of \<open>mmap\<close> and \<open>mremap\<close>,
  the system-call numbers and the wait words.  \<open>numeric!\<close> makes a newtype over an integer with named values, so an
  error code is any integer and the names are particular values.
\<close>

section \<open>Error codes\<close>

datatype error_code = ErrorCode (errno: int)

definition ENOENT :: error_code where "ENOENT = ErrorCode (- 2)"
definition ESRCH :: error_code where "ESRCH = ErrorCode (- 3)"
definition E2BIG :: error_code where "E2BIG = ErrorCode (- 7)"
definition ENOEXEC :: error_code where "ENOEXEC = ErrorCode (- 8)"
definition EBADF :: error_code where "EBADF = ErrorCode (- 9)"
definition EAGAIN :: error_code where "EAGAIN = ErrorCode (- 11)"
definition ENOMEM :: error_code where "ENOMEM = ErrorCode (- 12)"
definition EACCES :: error_code where "EACCES = ErrorCode (- 13)"
definition EFAULT :: error_code where "EFAULT = ErrorCode (- 14)"
definition EEXIST :: error_code where "EEXIST = ErrorCode (- 17)"
definition EINVAL :: error_code where "EINVAL = ErrorCode (- 22)"
definition ENOSYS :: error_code where "ENOSYS = ErrorCode (- 38)"

lemmas errno_defs = ENOENT_def ESRCH_def E2BIG_def ENOEXEC_def EBADF_def EAGAIN_def ENOMEM_def EACCES_def EFAULT_def EEXIST_def EINVAL_def ENOSYS_def

text \<open>The register value of an error: \<open>errno.0 as u64\<close>.\<close>

definition errno_u64 :: "error_code \<Rightarrow> u64" where
  "errno_u64 e = word_of_int (errno e)"

section \<open>Arguments of the memory calls\<close>

definition PROT_READ :: u64 where "PROT_READ = 1"
definition PROT_WRITE :: u64 where "PROT_WRITE = 2"
definition PROT_EXEC :: u64 where "PROT_EXEC = 4"

definition MAP_FIXED :: u64 where "MAP_FIXED = 0x10"
definition MAP_ANONYMOUS :: u64 where "MAP_ANONYMOUS = 0x20"
definition MAP_FIXED_NOREPLACE :: u64 where "MAP_FIXED_NOREPLACE = 0x100000"

definition MREMAP_MAYMOVE :: u64 where "MREMAP_MAYMOVE = 1"
definition MREMAP_FIXED :: u64 where "MREMAP_FIXED = 2"

section \<open>System calls\<close>

definition SYS_READ :: u64 where "SYS_READ = 63"
definition SYS_WRITE :: u64 where "SYS_WRITE = 64"
definition SYS_EXIT :: u64 where "SYS_EXIT = 93"
definition SYS_REBOOT :: u64 where "SYS_REBOOT = 142"
definition SYS_MUNMAP :: u64 where "SYS_MUNMAP = 215"
definition SYS_MREMAP :: u64 where "SYS_MREMAP = 216"
definition SYS_CLONE :: u64 where "SYS_CLONE = 220"
definition SYS_EXECVE :: u64 where "SYS_EXECVE = 221"
definition SYS_MMAP :: u64 where "SYS_MMAP = 222"
definition SYS_WAIT4 :: u64 where "SYS_WAIT4 = 260"

definition wait_nohang :: "u32 \<Rightarrow> bool" where "wait_nohang = bits_get1 0"
definition wait_exit_code :: "u32 \<Rightarrow> u32" where "wait_exit_code = bits_get 8 15"
definition wait_signal :: "u32 \<Rightarrow> u32" where "wait_signal = bits_get 0 6"

end
