(* ===== verification/Intrusive_List.thy ===== *)
theory Intrusive_List
  imports Prelude
begin

text \<open>
  The intrusive singly linked list (src/mm/allocator/intrusive_list.rs).  The memory is a store that maps the
  address of a word to its content; a list is the address of its first node (0 is the null pointer) and
  the first word of a node is the address of the next.  \<open>il_list\<close> relates a head to the list of node
  addresses it leads to, and the operations are shown to be the ones on that list.  The locale
  \<open>store_list\<close> is what the allocators rely on; it gives the lemmas about arrays of lists in one
  store that they share.
\<close>

type_synonym store = "nat \<Rightarrow> nat"

section \<open>Operations\<close>

definition il_new :: nat where
  "il_new = 0"

definition il_is_empty :: "nat \<Rightarrow> bool" where
  "il_is_empty next \<longleftrightarrow> next = 0"

definition il_push :: "store \<Rightarrow> nat \<Rightarrow> nat \<Rightarrow> store \<times> nat" where
  "il_push m next item = (m(item := next), item)"

definition il_pop :: "store \<Rightarrow> nat \<Rightarrow> (nat \<times> nat) option" where
  "il_pop m next = (if il_is_empty next then None else Some (next, m next))"

text \<open>The loop of \<open>remove\<close>: on a cyclic chain it would not end.\<close>

partial_function (option) il_remove_loop :: "nat \<Rightarrow> nat \<Rightarrow> store \<Rightarrow> (store \<times> bool) option" where
  "il_remove_loop item current m =
     (if current = 0 then Some (m, False)
      else if m current = item then Some (m(current := m (m current)), True)
      else il_remove_loop item (m current) m)"

definition il_remove :: "store \<Rightarrow> nat \<Rightarrow> nat \<Rightarrow> (store \<times> nat \<times> bool) option" where
  "il_remove m next item =
     (if next = item then Some (m, m next, True)
      else map_option (\<lambda>(m', found). (m', next, found)) (il_remove_loop item next m))"

text \<open>The iterator: its state is the current address.\<close>

definition il_iter_next :: "store \<Rightarrow> nat \<Rightarrow> (nat \<times> nat) option" where
  "il_iter_next m current = (if current = 0 then None else Some (current, m current))"

partial_function (option) il_collect :: "store \<Rightarrow> nat \<Rightarrow> nat list option" where
  "il_collect m current =
     (case il_iter_next m current of
        None \<Rightarrow> Some []
      | Some (item, current') \<Rightarrow> Option.bind (il_collect m current') (\<lambda>items. Some (item # items)))"

section \<open>Abstraction\<close>

fun il_path :: "store \<Rightarrow> nat \<Rightarrow> nat list \<Rightarrow> bool" where
  "il_path m next [] \<longleftrightarrow> next = 0"
| "il_path m next (x # xs) \<longleftrightarrow> next = x \<and> x \<noteq> 0 \<and> il_path m (m x) xs"

definition il_list :: "store \<Rightarrow> nat \<Rightarrow> nat list \<Rightarrow> bool" where
  "il_list m next xs \<longleftrightarrow> il_path m next xs \<and> distinct xs"

lemma il_path_upd [simp]: "a \<notin> set xs \<Longrightarrow> il_path (m(a := v)) next xs = il_path m next xs"
  by (induction xs arbitrary: "next") auto

lemma il_path_nonzero: "il_path m next xs \<Longrightarrow> 0 \<notin> set xs"
  by (induction xs arbitrary: "next") auto

lemma il_path_frame:
  "(\<And>a. a \<in> set xs \<Longrightarrow> m' a = m a) \<Longrightarrow> il_path m' next xs = il_path m next xs"
  by (induction xs arbitrary: "next") auto

lemma il_list_new [simp]: "il_list m il_new []"
  by (simp add: il_list_def il_new_def)

lemma il_is_empty_iff: "il_list m next xs \<Longrightarrow> il_is_empty next \<longleftrightarrow> xs = []"
  by (cases xs) (auto simp: il_list_def il_is_empty_def)

lemma il_push_list:
  assumes "il_list m next xs" "item \<noteq> 0" "item \<notin> set xs" "il_push m next item = (m', next')"
  shows "il_list m' next' (item # xs)"
  using assms by (auto simp: il_list_def il_push_def)

lemma il_pop_list:
  assumes "il_list m next xs"
  shows "il_pop m next = (case xs of [] \<Rightarrow> None | x # _ \<Rightarrow> Some (x, m x))"
    "xs = x # ys \<Longrightarrow> il_list m (m x) ys"
  using assms by (cases xs; auto simp: il_list_def il_pop_def il_is_empty_def)+

lemma il_remove_loop_list:
  assumes "il_path m x (x # xs)" "distinct (x # xs)" "item \<noteq> x" "item \<noteq> 0"
  shows "\<exists>m'. il_remove_loop item x m = Some (m', item \<in> set xs) \<and>
    il_path m' x (x # remove1 item xs) \<and> (\<forall>a. a \<notin> set (x # xs) \<longrightarrow> m' a = m a)"
  using assms
proof (induction xs arbitrary: x)
  case Nil
  then show ?case by (simp add: il_remove_loop.simps [of item x] il_remove_loop.simps [of item 0])
next
  case (Cons y ys)
  show ?case
  proof (cases "item = y")
    case True
    then have "il_remove_loop item x m = Some (m(x := m y), True)"
      using Cons.prems by (simp add: il_remove_loop.simps [of y x])
    then show ?thesis using True Cons.prems by simp
  next
    case False
    have "il_path m y (y # ys)" "distinct (y # ys)" using Cons.prems by simp_all
    then obtain m' where m': "il_remove_loop item y m = Some (m', item \<in> set ys)"
      "il_path m' y (y # remove1 item ys)" "\<forall>a. a \<notin> set (y # ys) \<longrightarrow> m' a = m a"
      using Cons.IH [of y] False Cons.prems(4) by blast
    then have "m' x = y" using Cons.prems(1,2) by simp
    then show ?thesis using m' False Cons.prems by (simp add: il_remove_loop.simps [of item x])
  qed
qed

text \<open>\<open>remove\<close> ends, finds the node exactly when it is linked, unlinks it and writes only to nodes of the list.\<close>

lemma il_remove_list:
  assumes "il_list m next xs" "item \<noteq> 0"
  shows "\<exists>m' next'. il_remove m next item = Some (m', next', item \<in> set xs) \<and>
    il_list m' next' (remove1 item xs) \<and> (\<forall>a. a \<notin> set xs \<longrightarrow> m' a = m a)"
proof (cases xs)
  case Nil
  then show ?thesis using assms
    by (simp add: il_remove_def il_list_def il_remove_loop.simps [of item 0])
next
  case (Cons x ys)
  show ?thesis
  proof (cases "item = x")
    case True
    then show ?thesis using assms Cons by (simp add: il_remove_def il_list_def)
  next
    case False
    have "il_path m x (x # ys)" "distinct (x # ys)" using assms(1) Cons by (auto simp: il_list_def)
    then show ?thesis using il_remove_loop_list [of m x ys item] False assms Cons
      by (auto simp: il_remove_def il_list_def distinct_remove1 notin_set_remove1)
  qed
qed

lemma il_collect_list: "il_list m next xs \<Longrightarrow> il_collect m next = Some xs"
proof -
  have "il_path m next xs \<Longrightarrow> il_collect m next = Some xs" for "next"
    by (induction xs arbitrary: "next") (auto simp: il_collect.simps [of m] il_iter_next_def)
  then show "il_list m next xs \<Longrightarrow> il_collect m next = Some xs" by (simp add: il_list_def)
qed

section \<open>Arrays of lists in one store\<close>

text \<open>Every head of the array leads to its list, and no node is on two lists.\<close>

definition list_array :: "(store \<Rightarrow> nat \<Rightarrow> nat list \<Rightarrow> bool) \<Rightarrow> store \<Rightarrow> nat list \<Rightarrow> nat list list \<Rightarrow> bool" where
  "list_array rep m hs ls \<longleftrightarrow>
     length hs = length ls \<and> (\<forall>i < length ls. rep m (hs ! i) (ls ! i)) \<and>
     (\<forall>i < length ls. \<forall>j < length ls. i \<noteq> j \<longrightarrow> set (ls ! i) \<inter> set (ls ! j) = {})"

definition array_nodes :: "nat list list \<Rightarrow> nat set" where
  "array_nodes ls = (\<Union>l \<in> set ls. set l)"

lemma array_nodes_nth: "a \<in> array_nodes ls \<longleftrightarrow> (\<exists>i < length ls. a \<in> set (ls ! i))"
  unfolding array_nodes_def by (metis UN_iff in_set_conv_nth)

locale store_list =
  fixes rep :: "store \<Rightarrow> nat \<Rightarrow> nat list \<Rightarrow> bool"
    and new_list :: nat
    and push :: "store \<Rightarrow> nat \<Rightarrow> nat \<Rightarrow> store \<times> nat"
    and pop :: "store \<Rightarrow> nat \<Rightarrow> (nat \<times> nat) option"
    and remove :: "store \<Rightarrow> nat \<Rightarrow> nat \<Rightarrow> (store \<times> nat \<times> bool) option"
  assumes rep_new: "rep m new_list []"
    and rep_frame: "rep m h xs \<Longrightarrow> (\<And>a. a \<in> set xs \<Longrightarrow> m' a = m a) \<Longrightarrow> rep m' h xs"
    and rep_push: "rep m h xs \<Longrightarrow> a \<noteq> 0 \<Longrightarrow> a \<notin> set xs \<Longrightarrow>
      rep (fst (push m h a)) (snd (push m h a)) (a # xs)"
    and push_frame: "b \<noteq> a \<Longrightarrow> fst (push m h a) b = m b"
    and rep_pop_Nil: "rep m h [] \<Longrightarrow> pop m h = None"
    and rep_pop_Cons: "rep m h (x # xs) \<Longrightarrow> \<exists>h'. pop m h = Some (x, h') \<and> rep m h' xs"
    and rep_remove: "rep m h xs \<Longrightarrow> a \<noteq> 0 \<Longrightarrow>
      \<exists>m' h'. remove m h a = Some (m', h', a \<in> set xs) \<and> rep m' h' (remove1 a xs) \<and>
        (\<forall>b. b \<notin> set xs \<longrightarrow> m' b = m b)"
    and rep_distinct: "rep m h xs \<Longrightarrow> distinct xs"
begin

lemma array_new: "list_array rep m (replicate n new_list) (replicate n [])"
  by (simp add: list_array_def rep_new)

lemma array_frame:
  assumes "list_array rep m hs ls" "\<And>a. a \<in> array_nodes ls \<Longrightarrow> m' a = m a"
  shows "list_array rep m' hs ls"
  using assms unfolding list_array_def array_nodes_nth by (meson rep_frame)

lemma array_update:
  assumes arr: "list_array rep m hs ls" and i: "i < length ls" and rep: "rep m' h' l'"
    and fresh: "\<And>a. a \<in> set l' \<Longrightarrow> a \<notin> set (ls ! i) \<Longrightarrow> a \<notin> array_nodes ls"
    and frame: "\<And>j a. j < length ls \<Longrightarrow> j \<noteq> i \<Longrightarrow> a \<in> set (ls ! j) \<Longrightarrow> m' a = m a"
  shows "list_array rep m' (hs[i := h']) (ls[i := l'])"
proof -
  have len: "length hs = length ls" using arr by (simp add: list_array_def)
  have reps: "rep m' (hs[i := h'] ! j) (ls[i := l'] ! j)" if "j < length ls" for j
  proof (cases "j = i")
    case False
    then show ?thesis using arr that frame [of j] rep_frame [of m "hs ! j" "ls ! j" m']
      by (simp add: list_array_def)
  qed (use rep i len in simp)
  have disj: "set l' \<inter> set (ls ! j) = {}" if "j < length ls" "j \<noteq> i" for j
  proof -
    have "set (ls ! i) \<inter> set (ls ! j) = {}" using arr i that by (simp add: list_array_def)
    then show ?thesis using fresh that(1) by (auto simp: array_nodes_nth)
  qed
  have "set (ls[i := l'] ! j) \<inter> set (ls[i := l'] ! k) = {}" if "j < length ls" "k < length ls" "j \<noteq> k" for j k
    using disj [of j] disj [of k] that arr i by (auto simp: nth_list_update list_array_def)
  then show ?thesis using reps len by (simp add: list_array_def)
qed

lemma array_push:
  assumes "list_array rep m hs ls" "i < length ls" "a \<noteq> 0" "a \<notin> array_nodes ls"
    and "push m (hs ! i) a = (m', h')"
  shows "list_array rep m' (hs[i := h']) (ls[i := a # ls ! i])"
proof (rule array_update [OF assms(1,2)])
  have "rep m (hs ! i) (ls ! i)" "a \<notin> set (ls ! i)"
    using assms(1,2,4) by (auto simp: list_array_def array_nodes_nth)
  then show "rep m' h' (a # ls ! i)" using rep_push [of m "hs ! i" "ls ! i" a] assms(3,5) by simp
  show "m' b = m b" if "j < length ls" "b \<in> set (ls ! j)" for j b
    using push_frame [of b a m "hs ! i"] assms(4,5) that by (auto simp: array_nodes_nth)
qed (use assms(4) in auto)

lemma array_pop:
  assumes "list_array rep m hs ls" "i < length ls" "ls ! i = x # xs"
  shows "\<exists>h'. pop m (hs ! i) = Some (x, h') \<and> list_array rep m (hs[i := h']) (ls[i := xs])"
proof -
  have "rep m (hs ! i) (x # xs)" using assms unfolding list_array_def by metis
  then obtain h' where "pop m (hs ! i) = Some (x, h')" "rep m h' xs" using rep_pop_Cons by blast
  then show ?thesis using array_update [OF assms(1,2), of m h' xs] assms(3) by auto
qed

lemma array_remove:
  assumes "list_array rep m hs ls" "i < length ls" "a \<noteq> 0"
  shows "\<exists>m' h'. remove m (hs ! i) a = Some (m', h', a \<in> set (ls ! i)) \<and>
    list_array rep m' (hs[i := h']) (ls[i := remove1 a (ls ! i)])"
proof -
  have "rep m (hs ! i) (ls ! i)" using assms(1,2) by (simp add: list_array_def)
  then obtain m' h' where r: "remove m (hs ! i) a = Some (m', h', a \<in> set (ls ! i))"
    "rep m' h' (remove1 a (ls ! i))" "\<forall>b. b \<notin> set (ls ! i) \<longrightarrow> m' b = m b"
    using rep_remove assms(3) by blast
  have "list_array rep m' (hs[i := h']) (ls[i := remove1 a (ls ! i)])"
  proof (rule array_update [OF assms(1,2) r(2)])
    show "m' b = m b" if "j < length ls" "j \<noteq> i" "b \<in> set (ls ! j)" for j b
    proof -
      have "set (ls ! i) \<inter> set (ls ! j) = {}" using assms(1,2) that by (simp add: list_array_def)
      then show ?thesis using r(3) that(3) by blast
    qed
  qed (use notin_set_remove1 in fastforce)
  then show ?thesis using r(1) by blast
qed

end

interpretation il: store_list il_list il_new il_push il_pop il_remove
proof
  show "il_list m' h xs" if "il_list m h xs" "\<And>a. a \<in> set xs \<Longrightarrow> m' a = m a" for m m' h xs
    using that il_path_frame [of xs m' m h] by (simp add: il_list_def)
  show "\<exists>h'. il_pop m h = Some (x, h') \<and> il_list m h' xs" if "il_list m h (x # xs)" for m h x xs
    using il_pop_list [OF that] by simp
  show "il_pop m h = None" if "il_list m h []" for m h using il_pop_list(1) [OF that] by simp
  show "il_list (fst (il_push m h a)) (snd (il_push m h a)) (a # xs)"
    if "il_list m h xs" "a \<noteq> 0" "a \<notin> set xs" for m h xs a
    using il_push_list [OF that] by (metis prod.collapse)
qed (use il_remove_list in \<open>auto simp: il_push_def il_list_def il_new_def\<close>)

end
