(* ===== verification/Buddy.thy ===== *)
theory Buddy
  imports Intrusive_List
begin

text \<open>
  The buddy allocator of physical frames (src/mm/allocator/buddy.rs), the frame handles built on it
  (src/mm/frame.rs, src/mm/allocator.rs) and the size arithmetic of src/constants/memory.rs.  Addresses and
  sizes are natural numbers.  The allocator's state is the store, which holds the links of the free lists in the
  free blocks themselves, and the array of list heads.  \<open>None\<close> is a panic (an index out of bounds, the
  underflow of \<open>ilog2_ceil 0\<close>) or, for \<open>dealloc\<close>, a list walk that does not end.
\<close>

section \<open>Constants and arithmetic\<close>

definition PAGE_SIZE :: nat where
  "PAGE_SIZE = 4096"

definition BUDDY_MAX_ORDER :: nat where
  "BUDDY_MAX_ORDER = 11"

text \<open>\<open>usize::ilog2\<close> on a positive number.\<close>

fun ilog2 :: "nat \<Rightarrow> nat" where
  "ilog2 n = (if n < 2 then 0 else Suc (ilog2 (n div 2)))"

declare ilog2.simps [simp del]

definition ilog2_ceil :: "nat \<Rightarrow> nat option" where
  "ilog2_ceil sz =
     (if sz = 1 then Some 0 else if sz = 0 then None else Some (ilog2 (sz - 1) + 1))"

definition PAGE_SIZE_LOG_2 :: nat where
  "PAGE_SIZE_LOG_2 = the (ilog2_ceil PAGE_SIZE)"

definition align :: "nat \<Rightarrow> nat \<Rightarrow> nat" where
  "align addr al = unat ((of_nat (addr + al - 1) :: u64) AND NOT (of_nat (al - 1)))"

definition order_size :: "nat \<Rightarrow> nat" where
  "order_size order = push_bit PAGE_SIZE_LOG_2 (push_bit order 1)"

definition buddy_address :: "nat \<Rightarrow> nat \<Rightarrow> nat" where
  "buddy_address base order = base XOR order_size order"

definition size_to_order :: "nat \<Rightarrow> nat option" where
  "size_to_order sz =
     map_option (\<lambda>n. if n \<le> PAGE_SIZE_LOG_2 then 0 else min (n - PAGE_SIZE_LOG_2) (BUDDY_MAX_ORDER - 1))
       (ilog2_ceil sz)"

section \<open>The allocator\<close>

record buddy_allocator =
  free_list :: "nat list"

type_synonym buddy_state = "store \<times> buddy_allocator"

definition buddy_new :: buddy_allocator where
  "buddy_new = \<lparr>free_list = replicate BUDDY_MAX_ORDER il_new\<rparr>"

text \<open>\<open>self.free_list[order].push(item)\<close>\<close>

definition fl_push :: "nat \<Rightarrow> nat \<Rightarrow> buddy_state \<Rightarrow> buddy_state" where
  "fl_push order item st =
     (case st of (m, b) \<Rightarrow>
        case il_push m (free_list b ! order) item of (m', h) \<Rightarrow> (m', b\<lparr>free_list := (free_list b)[order := h]\<rparr>))"

fun push_chunks :: "nat \<Rightarrow> nat \<Rightarrow> nat \<Rightarrow> buddy_state \<Rightarrow> nat \<times> buddy_state" where
  "push_chunks 0 order current st = (current, st)"
| "push_chunks (Suc chunks) order current st =
     push_chunks chunks order (current + order_size order) (fl_push order current st)"

fun add_frame_loop :: "nat list \<Rightarrow> nat \<Rightarrow> nat \<Rightarrow> buddy_state \<Rightarrow> buddy_state" where
  "add_frame_loop [] current end_addr st = st"
| "add_frame_loop (order # orders) current end_addr st =
     (if current \<ge> end_addr then st
      else let chunks = (end_addr - current) div order_size order in
        case push_chunks chunks order current st of
          (current', st') \<Rightarrow> add_frame_loop orders current' end_addr st')"

definition add_frame :: "nat \<Rightarrow> nat \<Rightarrow> buddy_state \<Rightarrow> buddy_state" where
  "add_frame start end_addr st = add_frame_loop (rev [0..<BUDDY_MAX_ORDER]) start end_addr st"

definition buddy_add :: "nat \<Rightarrow> nat \<Rightarrow> buddy_state \<Rightarrow> buddy_state" where
  "buddy_add range_start range_end st =
     add_frame (align range_start (push_bit (BUDDY_MAX_ORDER + 11) 1)) range_end st"

fun split_chunk :: "nat list \<Rightarrow> nat \<Rightarrow> buddy_state \<Rightarrow> buddy_state" where
  "split_chunk [] chunk st = st"
| "split_chunk (idx # idxs) chunk st = split_chunk idxs chunk (fl_push idx (chunk + order_size idx) st)"

fun alloc_loop :: "nat list \<Rightarrow> nat \<Rightarrow> buddy_state \<Rightarrow> nat option \<times> buddy_state" where
  "alloc_loop [] order st = (None, st)"
| "alloc_loop (i # is) order st =
     (case st of (m, b) \<Rightarrow>
        if il_is_empty (free_list b ! i) then alloc_loop is order st
        else case il_pop m (free_list b ! i) of
               None \<Rightarrow> (None, st)
             | Some (chunk, h) \<Rightarrow>
                 (Some chunk, split_chunk (rev [order..<i]) chunk (m, b\<lparr>free_list := (free_list b)[i := h]\<rparr>)))"

definition buddy_alloc :: "nat \<Rightarrow> buddy_state \<Rightarrow> nat option \<times> buddy_state" where
  "buddy_alloc order st = alloc_loop [order..<length (free_list (snd st))] order st"

fun dealloc_loop :: "nat list \<Rightarrow> nat \<Rightarrow> nat \<Rightarrow> buddy_state \<Rightarrow> (nat \<times> nat \<times> buddy_state) option" where
  "dealloc_loop [] current_ptr current_order st = Some (current_ptr, current_order, st)"
| "dealloc_loop (i # is) current_ptr current_order st =
     (case st of (m, b) \<Rightarrow>
      let buddy = buddy_address current_ptr current_order in
      case il_remove m (free_list b ! current_order) buddy of
        None \<Rightarrow> None
      | Some (m', h, found) \<Rightarrow>
          let st' = (m', b\<lparr>free_list := (free_list b)[current_order := h]\<rparr>) in
          if found then
            (let current_ptr' = (if buddy < current_ptr then buddy else current_ptr);
                 current_order' = i + 1 in
             if current_order' \<ge> BUDDY_MAX_ORDER then Some (current_ptr', BUDDY_MAX_ORDER - 1, st')
             else dealloc_loop is current_ptr' current_order' st')
          else Some (current_ptr, current_order, st'))"

definition buddy_dealloc :: "nat \<Rightarrow> nat \<Rightarrow> buddy_state \<Rightarrow> buddy_state option" where
  "buddy_dealloc start order st =
     (case dealloc_loop [order..<BUDDY_MAX_ORDER] start order st of
        None \<Rightarrow> None
      | Some (current_ptr, current_order, st') \<Rightarrow>
          if current_order < length (free_list (snd st')) then Some (fl_push current_order current_ptr st')
          else None)"

definition buddy_alloc_frame :: "nat \<Rightarrow> buddy_state \<Rightarrow> (nat option \<times> buddy_state) option" where
  "buddy_alloc_frame sz st = map_option (\<lambda>order. buddy_alloc order st) (size_to_order sz)"

definition buddy_dealloc_frame :: "nat \<Rightarrow> nat \<Rightarrow> buddy_state \<Rightarrow> buddy_state option" where
  "buddy_dealloc_frame start sz st =
     Option.bind (size_to_order sz) (\<lambda>order. buddy_dealloc start order st)"

section \<open>Frames\<close>

record phys_frame =
  frame_start :: nat
  frame_size :: nat

definition alloc_frame :: "nat option \<Rightarrow> buddy_state \<Rightarrow> (phys_frame option \<times> buddy_state) option" where
  "alloc_frame sz st =
     (let sz' = (case sz of None \<Rightarrow> PAGE_SIZE | Some s \<Rightarrow> s) in
      map_option (\<lambda>(r, st').
          (map_option (\<lambda>start. \<lparr>frame_start = start, frame_size = order_size (the (size_to_order sz'))\<rparr>) r, st'))
        (buddy_alloc_frame sz' st))"

definition dealloc_frame :: "phys_frame \<Rightarrow> buddy_state \<Rightarrow> buddy_state option" where
  "dealloc_frame fr st = buddy_dealloc_frame (frame_start fr) (frame_size fr) st"

text \<open>Dropping the frames of a vector, in order.\<close>

fun drop_frames :: "phys_frame list \<Rightarrow> buddy_state \<Rightarrow> buddy_state option" where
  "drop_frames [] st = Some st"
| "drop_frames (fr # frs) st = Option.bind (dealloc_frame fr st) (drop_frames frs)"

text \<open>
  \<open>alloc_frames\<close>: when a piece cannot be had, the vector of the pieces taken so far is dropped.  The loop ends because
  every piece has a positive size.
\<close>

function alloc_frames_loop :: "nat \<Rightarrow> phys_frame list \<Rightarrow> buddy_state \<Rightarrow> (phys_frame list option \<times> buddy_state) option" where
  "alloc_frames_loop remaining frames st =
     (if remaining > 0 then
        case alloc_frame (Some remaining) st of
          None \<Rightarrow> None
        | Some (None, st') \<Rightarrow> map_option (\<lambda>st''. (None, st'')) (drop_frames frames st')
        | Some (Some fr, st') \<Rightarrow> alloc_frames_loop (remaining - frame_size fr) (frames @ [fr]) st'
      else Some (Some frames, st))"
  by auto

lemma order_size_pos: "0 < order_size order"
  by (simp add: order_size_def push_bit_eq_mult)

termination alloc_frames_loop
  by (relation "measure (\<lambda>(remaining, _, _). remaining)")
    (auto simp: alloc_frame_def Let_def buddy_alloc_frame_def intro!: diff_less order_size_pos)

declare alloc_frames_loop.simps [simp del]

definition alloc_frames :: "nat \<Rightarrow> buddy_state \<Rightarrow> (phys_frame list option \<times> buddy_state) option" where
  "alloc_frames sz st = alloc_frames_loop sz [] st"

end
