(* ===== verification/Page_Table.thy ===== *)
theory Page_Table
  imports Bit_Fields Buddy Btree_Map
begin

text \<open>
  Sv39 page tables and address spaces (src/mm/page_table.rs, src/mm/page_table/entry.rs,
  src/mm/page_table/handle.rs).  A page-table page belongs to its handle, so its 512 entries are kept in the
  handle; its frame comes from the buddy allocator, whose state is passed along.  \<open>PageTableHandle::create\<close>
  asks for the default size, which is positive, so the size computation cannot panic.  The TLB fence has
  no effect on this state.
\<close>

datatype mem_error = OutOfMemory | PageTableMissing | AddressSpaceNotFound | NotUserAddressSpace | NullPointer

definition PTE_NUMBER :: nat where
  "PTE_NUMBER = 512"

section \<open>Page tables and handles\<close>

record page_table_handle =
  pth_addr :: u64
  pth_entries :: "u64 list"
  pth_page :: phys_frame

definition page_table_new :: "u64 list" where
  "page_table_new = replicate PTE_NUMBER pte_new"

definition page_table_insert :: "u64 \<Rightarrow> nat \<Rightarrow> u64 list \<Rightarrow> u64 list option" where
  "page_table_insert entry index entries =
     (if index < length entries then Some (entries[index := entry]) else None)"

definition page_table_nth :: "u64 list \<Rightarrow> nat \<Rightarrow> u64 option" where
  "page_table_nth entries index = (if index < length entries then Some (entries ! index) else None)"

definition page_table_nth_as_addr :: "u64 list \<Rightarrow> nat \<Rightarrow> u64 option" where
  "page_table_nth_as_addr entries index =
     map_option (\<lambda>pte. pa_set_ppn (pte_ppn pte) pa_new) (page_table_nth entries index)"

definition pt_create :: "buddy_state \<Rightarrow> (mem_error, page_table_handle) result \<times> buddy_state" where
  "pt_create st =
     (case the (alloc_frame None st) of
        (None, st') \<Rightarrow> (Err OutOfMemory, st')
      | (Some page, st') \<Rightarrow>
          (Ok \<lparr>pth_addr = of_nat (frame_start page), pth_entries = page_table_new, pth_page = page\<rparr>, st'))"

definition copy_low_half :: "page_table_handle \<Rightarrow> page_table_handle \<Rightarrow> page_table_handle" where
  "copy_low_half h to =
     to\<lparr>pth_entries := map (\<lambda>i. if i < 256 then pth_entries h ! i else pth_entries to ! i) [0..<PTE_NUMBER]\<rparr>"

definition copy_high_half :: "page_table_handle \<Rightarrow> page_table_handle \<Rightarrow> page_table_handle" where
  "copy_high_half h to =
     to\<lparr>pth_entries := map (\<lambda>i. if 256 \<le> i then pth_entries h ! i else pth_entries to ! i) [0..<PTE_NUMBER]\<rparr>"

definition copy_from :: "page_table_handle \<Rightarrow> page_table_handle \<Rightarrow> page_table_handle" where
  "copy_from h to = copy_high_half h (copy_low_half h to)"

definition entry_phys_addr :: "u64 \<Rightarrow> u64" where
  "entry_phys_addr pte = pa_set_ppn (pte_ppn pte) pa_new"

section \<open>Address spaces\<close>

record address_space =
  as_root :: page_table_handle
  as_tables :: "(u64, page_table_handle) btree"

type_synonym mm = "address_space \<times> buddy_state"

text \<open>The level-1 table for an address, created on demand: the first block of \<open>map\<close>.\<close>

definition as_map_l1 :: "nat \<Rightarrow> mm \<Rightarrow> (mem_error, u64) result \<times> mm" where
  "as_map_l1 vpn2 mm =
     (case mm of (sp, st) \<Rightarrow>
      let pte2 = pth_entries (as_root sp) ! vpn2 in
      if \<not> pte_v pte2 then
        case pt_create st of
          (Inl e, st') \<Rightarrow> (Err e, (sp, st'))
        | (Inr new_pt, st') \<Rightarrow>
            (let addr = pth_addr new_pt;
                 pte2' = pte_set_v True (pte_set_ppn (pa_ppn addr) pte2);
                 root = (as_root sp)\<lparr>pth_entries := (pth_entries (as_root sp))[vpn2 := pte2']\<rparr> in
             (Ok (pa_set_ppn (pte_ppn pte2') pa_new),
              (sp\<lparr>as_root := root, as_tables := bt_insert addr new_pt (as_tables sp)\<rparr>, st')))
      else (Ok (pa_set_ppn (pte_ppn pte2) pa_new), (sp, st)))"

text \<open>The level-0 table, in the level-1 table at \<open>pt1_addr\<close>: the second block.\<close>

definition as_map_l0 :: "u64 \<Rightarrow> nat \<Rightarrow> mm \<Rightarrow> (mem_error, u64) result \<times> mm" where
  "as_map_l0 pt1_addr vpn1 mm =
     (case mm of (sp, st) \<Rightarrow>
      case bt_get (as_tables sp) pt1_addr of
        None \<Rightarrow> (Err PageTableMissing, (sp, st))
      | Some pt1 \<Rightarrow>
          if \<not> pte_v (pth_entries pt1 ! vpn1) then
            case pt_create st of
              (Inl e, st') \<Rightarrow> (Err e, (sp, st'))
            | (Inr new_pt, st') \<Rightarrow>
                (let addr = pth_addr new_pt;
                     pte1 = pte_set_v True (pte_set_ppn (pa_ppn addr) (pth_entries pt1 ! vpn1));
                     pt1' = pt1\<lparr>pth_entries := (pth_entries pt1)[vpn1 := pte1]\<rparr>;
                     tables = bt_insert addr new_pt (bt_insert pt1_addr pt1' (as_tables sp)) in
                 case bt_get tables pt1_addr of
                   None \<Rightarrow> (Err PageTableMissing, (sp\<lparr>as_tables := tables\<rparr>, st'))
                 | Some pt1'' \<Rightarrow>
                     (Ok (pa_set_ppn (pte_ppn (pth_entries pt1'' ! vpn1)) pa_new), (sp\<lparr>as_tables := tables\<rparr>, st')))
          else (Ok (pa_set_ppn (pte_ppn (pth_entries pt1 ! vpn1)) pa_new), (sp, st)))"

text \<open>The leaf entry: number and flags written, the other bits of the entry kept.\<close>

definition leaf_entry :: "u64 \<Rightarrow> u64 \<Rightarrow> u64 \<Rightarrow> u64" where
  "leaf_entry pa flags pte0 =
     pte_set_d (pte_d flags) (pte_set_a (pte_a flags) (pte_set_g (pte_g flags) (pte_set_u (pte_u flags)
       (pte_set_x (pte_x flags) (pte_set_w (pte_w flags) (pte_set_r (pte_r flags) (pte_set_v True
         (pte_set_ppn (pa_ppn pa) pte0))))))))"

definition as_map_leaf :: "u64 \<Rightarrow> nat \<Rightarrow> u64 \<Rightarrow> u64 \<Rightarrow> mm \<Rightarrow> (mem_error, unit) result \<times> mm" where
  "as_map_leaf pt0_addr vpn0 pa flags mm =
     (case mm of (sp, st) \<Rightarrow>
      case bt_get (as_tables sp) pt0_addr of
        None \<Rightarrow> (Err PageTableMissing, (sp, st))
      | Some pt0 \<Rightarrow>
          (let pt0' = pt0\<lparr>pth_entries := (pth_entries pt0)[vpn0 := leaf_entry pa flags (pth_entries pt0 ! vpn0)]\<rparr> in
           (Ok (), (sp\<lparr>as_tables := bt_insert pt0_addr pt0' (as_tables sp)\<rparr>, st))))"

definition as_map :: "u64 \<Rightarrow> u64 \<Rightarrow> u64 \<Rightarrow> mm \<Rightarrow> (mem_error, unit) result \<times> mm" where
  "as_map va pa flags mm =
     (case as_map_l1 (unat (va_vpn2 va)) mm of
        (Inl e, mm1) \<Rightarrow> (Err e, mm1)
      | (Inr pt1_addr, mm1) \<Rightarrow>
          (case as_map_l0 pt1_addr (unat (va_vpn1 va)) mm1 of
             (Inl e, mm2) \<Rightarrow> (Err e, mm2)
           | (Inr pt0_addr, mm2) \<Rightarrow> as_map_leaf pt0_addr (unat (va_vpn0 va)) pa flags mm2))"

definition as_unmap :: "u64 \<Rightarrow> address_space \<Rightarrow> address_space" where
  "as_unmap va sp =
     (let pte2 = pth_entries (as_root sp) ! unat (va_vpn2 va) in
      if \<not> pte_v pte2 then sp
      else case bt_get (as_tables sp) (pa_set_ppn (pte_ppn pte2) pa_new) of
             None \<Rightarrow> sp
           | Some pt1 \<Rightarrow>
               (let pte1 = pth_entries pt1 ! unat (va_vpn1 va) in
                if \<not> pte_v pte1 then sp
                else let pt0_addr = pa_set_ppn (pte_ppn pte1) pa_new in
                  case bt_get (as_tables sp) pt0_addr of
                    None \<Rightarrow> sp
                  | Some pt0 \<Rightarrow>
                      (let pt0' = pt0\<lparr>pth_entries := (pth_entries pt0)[unat (va_vpn0 va) := pte_new]\<rparr> in
                       sp\<lparr>as_tables := bt_insert pt0_addr pt0' (as_tables sp)\<rparr>)))"

text \<open>Dropping page-table handles gives their frames back, the root's first.\<close>

definition as_drop :: "address_space \<Rightarrow> buddy_state \<Rightarrow> buddy_state option" where
  "as_drop sp st = drop_frames (pth_page (as_root sp) # map (\<lambda>(_, h). pth_page h) (as_tables sp)) st"

text \<open>
  The first loop of \<open>try_clone\<close>: a copy of every table, and the map from old to new addresses.  When an allocation
  fails the copies made so far are returned with the error; the caller drops them.
\<close>

fun clone_tables :: "(u64, page_table_handle) btree \<Rightarrow> (u64, page_table_handle) btree \<Rightarrow> (u64, u64) btree \<Rightarrow>
    buddy_state \<Rightarrow> mem_error option \<times> (u64, page_table_handle) btree \<times> (u64, u64) btree \<times> buddy_state" where
  "clone_tables [] tables remap st = (None, tables, remap, st)"
| "clone_tables ((_, h) # hs) tables remap st =
     (case pt_create st of
        (Inl e, st') \<Rightarrow> (Some e, tables, remap, st')
      | (Inr new_pt, st') \<Rightarrow>
          (let copy = copy_from h new_pt in
           clone_tables hs (bt_insert (pth_addr copy) copy tables) (bt_insert (pth_addr h) (pth_addr copy) remap) st'))"

text \<open>Rewriting the numbers of the entries that point to a copied table.\<close>

definition remap_entries :: "(u64, u64) btree \<Rightarrow> u64 list \<Rightarrow> u64 list \<Rightarrow> u64 list" where
  "remap_entries remap olds news =
     map2 (\<lambda>pte new. case bt_get remap (entry_phys_addr pte) of
             None \<Rightarrow> new | Some new_addr \<Rightarrow> pte_set_ppn (pa_ppn new_addr) new) olds news"

fun remap_tables :: "(u64, u64) btree \<Rightarrow> (u64, page_table_handle) btree \<Rightarrow> (u64, page_table_handle) btree \<Rightarrow>
    (mem_error, (u64, page_table_handle) btree) result" where
  "remap_tables remap [] tables = Ok tables"
| "remap_tables remap ((old_addr, h) # hs) tables =
     (case bt_get remap old_addr of
        None \<Rightarrow> Err PageTableMissing
      | Some new_addr \<Rightarrow>
          (case bt_get tables new_addr of
             None \<Rightarrow> Err PageTableMissing
           | Some new_handle \<Rightarrow>
               remap_tables remap hs
                 (bt_insert new_addr
                   (new_handle\<lparr>pth_entries := remap_entries remap (pth_entries h) (pth_entries new_handle)\<rparr>) tables)))"

text \<open>An early return drops the locals in reverse order: the copies, then the root.\<close>

definition drop_clone :: "page_table_handle \<Rightarrow> (u64, page_table_handle) btree \<Rightarrow> buddy_state \<Rightarrow> buddy_state option" where
  "drop_clone root tables st = drop_frames (map (\<lambda>(_, h). pth_page h) tables @ [pth_page root]) st"

text \<open>\<open>try_clone\<close>; the outer \<open>None\<close> is a failed deallocation of a partial copy.\<close>

definition as_try_clone :: "address_space \<Rightarrow> buddy_state \<Rightarrow> ((mem_error, address_space) result \<times> buddy_state) option" where
  "as_try_clone sp st =
     (case pt_create st of
        (Inl e, st') \<Rightarrow> Some (Err e, st')
      | (Inr root0, st') \<Rightarrow>
          (let root = copy_from (as_root sp) root0 in
           case clone_tables (as_tables sp) [] [] st' of
             (Some e, tables, remap, st'') \<Rightarrow>
               map_option (\<lambda>st3. (Err e, st3)) (drop_clone root tables st'')
           | (None, tables, remap, st'') \<Rightarrow>
               (let root' = root\<lparr>pth_entries := remap_entries remap (pth_entries (as_root sp)) (pth_entries root)\<rparr> in
                case remap_tables remap (as_tables sp) tables of
                  Inl e \<Rightarrow> map_option (\<lambda>st3. (Err e, st3)) (drop_clone root' tables st'')
                | Inr tables' \<Rightarrow> Some (Ok \<lparr>as_root = root', as_tables = tables'\<rparr>, st''))))"

section \<open>The manager\<close>

datatype address_space_id = KernelSpace | UserSpace nat

record address_space_manager =
  asm_kernel :: address_space
  asm_user :: "(nat, address_space) btree"

type_synonym mgr = "address_space_manager \<times> buddy_state"

definition asm_new :: "buddy_state \<Rightarrow> mgr option" where
  "asm_new st =
     (case pt_create st of
        (Inl _, _) \<Rightarrow> None
      | (Inr root, st') \<Rightarrow> Some (\<lparr>asm_kernel = \<lparr>as_root = root, as_tables = []\<rparr>, asm_user = []\<rparr>, st'))"

definition asm_kernel_map :: "u64 \<Rightarrow> u64 \<Rightarrow> u64 \<Rightarrow> mgr \<Rightarrow> (mem_error, unit) result \<times> mgr" where
  "asm_kernel_map va pa flags g =
     (case g of (a, st) \<Rightarrow>
      case as_map va pa flags (asm_kernel a, st) of (r, (sp, st')) \<Rightarrow> (r, (a\<lparr>asm_kernel := sp\<rparr>, st')))"

definition asm_kernel_unmap :: "u64 \<Rightarrow> mgr \<Rightarrow> (mem_error, unit) result \<times> mgr" where
  "asm_kernel_unmap va g =
     (case g of (a, st) \<Rightarrow> (Ok (), (a\<lparr>asm_kernel := as_unmap va (asm_kernel a)\<rparr>, st)))"

definition asm_user_map :: "nat \<Rightarrow> u64 \<Rightarrow> u64 \<Rightarrow> u64 \<Rightarrow> mgr \<Rightarrow> (mem_error, unit) result \<times> mgr" where
  "asm_user_map tid va pa flags g =
     (case g of (a, st) \<Rightarrow>
      case bt_get (asm_user a) tid of
        None \<Rightarrow> (Err AddressSpaceNotFound, g)
      | Some sp \<Rightarrow>
          (case as_map va pa flags (sp, st) of
             (r, (sp', st')) \<Rightarrow> (r, (a\<lparr>asm_user := bt_insert tid sp' (asm_user a)\<rparr>, st'))))"

definition asm_user_unmap :: "nat \<Rightarrow> u64 \<Rightarrow> mgr \<Rightarrow> (mem_error, unit) result \<times> mgr" where
  "asm_user_unmap tid va g =
     (case g of (a, st) \<Rightarrow>
      case bt_get (asm_user a) tid of
        None \<Rightarrow> (Err AddressSpaceNotFound, g)
      | Some sp \<Rightarrow> (Ok (), (a\<lparr>asm_user := bt_insert tid (as_unmap va sp) (asm_user a)\<rparr>, st)))"

definition asm_map :: "address_space_id \<Rightarrow> u64 \<Rightarrow> u64 \<Rightarrow> u64 \<Rightarrow> mgr \<Rightarrow> (mem_error, unit) result \<times> mgr" where
  "asm_map i va pa flags g =
     (case i of KernelSpace \<Rightarrow> asm_kernel_map va pa flags g | UserSpace tid \<Rightarrow> asm_user_map tid va pa flags g)"

definition asm_unmap :: "address_space_id \<Rightarrow> u64 \<Rightarrow> mgr \<Rightarrow> (mem_error, unit) result \<times> mgr" where
  "asm_unmap i va g =
     (case i of KernelSpace \<Rightarrow> asm_kernel_unmap va g | UserSpace tid \<Rightarrow> asm_user_unmap tid va g)"

text \<open>Inserting under a thread id drops the space it replaces; \<open>None\<close> is a failed deallocation.\<close>

definition asm_insert_user :: "nat \<Rightarrow> address_space \<Rightarrow> mgr \<Rightarrow> mgr option" where
  "asm_insert_user tid sp g =
     (case g of (a, st) \<Rightarrow>
      map_option (\<lambda>st'. (a\<lparr>asm_user := bt_insert tid sp (asm_user a)\<rparr>, st'))
        (case bt_get (asm_user a) tid of None \<Rightarrow> Some st | Some old \<Rightarrow> as_drop old st))"

definition asm_remove_user :: "nat \<Rightarrow> mgr \<Rightarrow> address_space option \<times> mgr" where
  "asm_remove_user tid g =
     (case g of (a, st) \<Rightarrow> (bt_get (asm_user a) tid, (a\<lparr>asm_user := bt_remove tid (asm_user a)\<rparr>, st)))"

definition asm_create_user :: "nat \<Rightarrow> mgr \<Rightarrow> ((mem_error, unit) result \<times> mgr) option" where
  "asm_create_user tid g =
     (case g of (a, st) \<Rightarrow>
      case pt_create st of
        (Inl e, st') \<Rightarrow> Some (Err e, (a, st'))
      | (Inr page_table, st') \<Rightarrow>
          map_option (\<lambda>g'. (Ok (), g'))
            (asm_insert_user tid
               \<lparr>as_root = copy_low_half (as_root (asm_kernel a)) page_table, as_tables = []\<rparr> (a, st')))"

definition asm_kernel_root_addr :: "address_space_manager \<Rightarrow> u64" where
  "asm_kernel_root_addr a = pth_addr (as_root (asm_kernel a))"

definition asm_user_root_addr :: "nat \<Rightarrow> address_space_manager \<Rightarrow> (mem_error, u64) result" where
  "asm_user_root_addr tid a =
     (case bt_get (asm_user a) tid of
        None \<Rightarrow> Err AddressSpaceNotFound | Some sp \<Rightarrow> Ok (pth_addr (as_root sp)))"

text \<open>The value that \<open>activate\<close> writes to \<open>satp\<close>.\<close>

definition asm_activate :: "address_space_id \<Rightarrow> address_space_manager \<Rightarrow> (mem_error, u64) result" where
  "asm_activate i a =
     (case (case i of KernelSpace \<Rightarrow> Ok (asm_kernel_root_addr a) | UserSpace tid \<Rightarrow> asm_user_root_addr tid a) of
        Inl e \<Rightarrow> Err e
      | Inr root \<Rightarrow> Ok (satp_set_mode SATP_SV39 (satp_set_ppn (pa_ppn root) 0)))"

definition asm_clone :: "address_space_id \<Rightarrow> nat \<Rightarrow> mgr \<Rightarrow> ((mem_error, unit) result \<times> mgr) option" where
  "asm_clone i new_tid g =
     (case g of (a, st) \<Rightarrow>
      case (case i of KernelSpace \<Rightarrow> Some (asm_kernel a) | UserSpace tid \<Rightarrow> bt_get (asm_user a) tid) of
        None \<Rightarrow> Some (Err AddressSpaceNotFound, g)
      | Some sp \<Rightarrow>
          (case as_try_clone sp st of
             None \<Rightarrow> None
           | Some (Inl e, st') \<Rightarrow> Some (Err e, (a, st'))
           | Some (Inr space, st') \<Rightarrow> map_option (\<lambda>g'. (Ok (), g')) (asm_insert_user new_tid space (a, st'))))"

text \<open>\<open>(start..end).step_by(PAGE_SIZE)\<close>\<close>

definition page_steps :: "nat \<Rightarrow> nat \<Rightarrow> nat list" where
  "page_steps start end_addr = map (\<lambda>k. start + k * PAGE_SIZE) [0..<(end_addr - start + PAGE_SIZE - 1) div PAGE_SIZE]"

fun identity_map_loop :: "u64 \<Rightarrow> nat list \<Rightarrow> mgr \<Rightarrow> (mem_error, unit) result \<times> mgr" where
  "identity_map_loop flags [] g = (Ok (), g)"
| "identity_map_loop flags (i # is) g =
     (case asm_kernel_map (of_nat i) (of_nat i) flags g of
        (Inl e, g') \<Rightarrow> (Err e, g')
      | (Inr _, g') \<Rightarrow> identity_map_loop flags is g')"

definition asm_identity_map :: "nat \<Rightarrow> nat \<Rightarrow> mgr \<Rightarrow> (mem_error, unit) result \<times> mgr" where
  "asm_identity_map start end_addr g =
     identity_map_loop (pte_set_x True (pte_set_w True (pte_set_r True 0))) (page_steps start end_addr) g"

end
