(* ===== verification/Memory_Map.thy ===== *)
theory Memory_Map
  imports Abi Page_Table "HOL-Library.Monad_Syntax"
begin

text \<open>
  Anonymous memory mappings: \<open>mmap\<close>, \<open>munmap\<close> and \<open>mremap\<close> (src/mm/memory_map.rs) on the memory set of a task
  (src/task.rs).  The state an operation works on is the memory set, the address-space manager, the frame allocator
  and the contents of physical memory.  Addresses and sizes are natural numbers below \<open>2 ^ 64\<close>: a sum that the
  source does not check is \<open>checked_add\<close> in the option monad, where \<open>None\<close> is a panic (arithmetic overflow,
  \<open>unreachable!\<close>, a failed deallocation); the errors of the source are the left values of a result.  Free-list
  links live in free blocks only, so they are kept apart from the contents (\<open>km_phys\<close>).
\<close>

section \<open>State\<close>

record user_mapping =
  um_va :: u64
  um_frames :: "phys_frame list"
  um_flags :: u64

record memory_set =
  ms_mappings :: "user_mapping list"
  ms_user_root_page_table :: u64

record kmem =
  km_asm :: address_space_manager
  km_buddy :: buddy_state
  km_phys :: "nat \<Rightarrow> u8"

type_synonym 'a mm_result = "((error_code, 'a) result \<times> memory_set \<times> kmem) option"

definition USER_STACK_SIZE :: nat where "USER_STACK_SIZE = PAGE_SIZE * 8"
definition USER_STACK_TOP :: nat where "USER_STACK_TOP = 0x100000000"
definition USER_STACK_LOWER_BOUND :: nat where "USER_STACK_LOWER_BOUND = USER_STACK_TOP - USER_STACK_SIZE"

definition LOW_HALF_END :: nat where "LOW_HALF_END = 0x4000000000"
definition HIGH_HALF_START :: nat where "HIGH_HALF_START = 0xffffffc000000000"

definition PROT_MASK :: u64 where "PROT_MASK = PROT_READ OR PROT_WRITE OR PROT_EXEC"

section \<open>Ranges\<close>

definition align_up :: "nat \<Rightarrow> nat option" where
  "align_up addr = do { a \<leftarrow> checked_add addr PAGE_SIZE; Some ((a - 1) div PAGE_SIZE * PAGE_SIZE) }"

definition mem_errno :: "mem_error \<Rightarrow> error_code" where
  "mem_errno err = (case err of OutOfMemory \<Rightarrow> ENOMEM | _ \<Rightarrow> EINVAL)"

fun sum_sizes :: "nat \<Rightarrow> phys_frame list \<Rightarrow> nat option" where
  "sum_sizes acc [] = Some acc"
| "sum_sizes acc (f # fs) = do { a \<leftarrow> align_up (frame_size f); acc' \<leftarrow> checked_add acc a; sum_sizes acc' fs }"

definition mapping_range :: "user_mapping \<Rightarrow> (nat \<times> nat) option" where
  "mapping_range m =
     do { let start = unat (um_va m) div PAGE_SIZE * PAGE_SIZE;
          sz \<leftarrow> sum_sizes 0 (um_frames m);
          e \<leftarrow> checked_add start sz;
          Some (start, e) }"

definition overlaps :: "user_mapping \<Rightarrow> nat \<Rightarrow> nat \<Rightarrow> bool option" where
  "overlaps m start stop = do { (s, e) \<leftarrow> mapping_range m; Some (s < stop \<and> start < e) }"

fun overlapping_from :: "nat \<Rightarrow> user_mapping list \<Rightarrow> nat \<Rightarrow> nat \<Rightarrow> nat list option" where
  "overlapping_from i [] start stop = Some []"
| "overlapping_from i (m # ms) start stop =
     do { b \<leftarrow> overlaps m start stop;
          is \<leftarrow> overlapping_from (i + 1) ms start stop;
          Some (if b then i # is else is) }"

definition overlapping_indices :: "memory_set \<Rightarrow> nat \<Rightarrow> nat \<Rightarrow> nat list option" where
  "overlapping_indices ms start stop = overlapping_from 0 (ms_mappings ms) start stop"

fun any_overlaps :: "user_mapping list \<Rightarrow> nat \<Rightarrow> nat \<Rightarrow> bool option" where
  "any_overlaps [] start stop = Some False"
| "any_overlaps (m # ms) start stop =
     do { b \<leftarrow> overlaps m start stop; if b then Some True else any_overlaps ms start stop }"

definition range_is_free :: "memory_set \<Rightarrow> nat \<Rightarrow> nat \<Rightarrow> bool option" where
  "range_is_free ms start stop = map_option Not (any_overlaps (ms_mappings ms) start stop)"

text \<open>\<open>None\<close> is the \<open>unreachable!\<close> beyond the segments.\<close>

fun phys_at_offset :: "phys_frame list \<Rightarrow> nat \<Rightarrow> nat option" where
  "phys_at_offset [] remaining = None"
| "phys_at_offset (f # fs) remaining =
     (if remaining < frame_size f then checked_add (frame_start f) remaining
      else phys_at_offset fs (remaining - frame_size f))"

fun page_phys_in :: "user_mapping list \<Rightarrow> nat \<Rightarrow> nat option option" where
  "page_phys_in [] va = Some None"
| "page_phys_in (m # ms) va =
     do { (s, e) \<leftarrow> mapping_range m;
          if va \<ge> s \<and> va < e then map_option Some (phys_at_offset (um_frames m) (va - s)) else page_phys_in ms va }"

definition page_phys :: "memory_set \<Rightarrow> nat \<Rightarrow> nat option option" where
  "page_phys ms va = page_phys_in (ms_mappings ms) va"

fun all_mapped :: "memory_set \<Rightarrow> nat list \<Rightarrow> bool option" where
  "all_mapped ms [] = Some True"
| "all_mapped ms (va # vas) =
     do { p \<leftarrow> page_phys ms va; if p \<noteq> None then all_mapped ms vas else Some False }"

definition range_fully_mapped :: "memory_set \<Rightarrow> nat \<Rightarrow> nat \<Rightarrow> bool option" where
  "range_fully_mapped ms start stop = all_mapped ms (page_steps start stop)"

fun first_flags :: "user_mapping list \<Rightarrow> nat \<Rightarrow> nat \<Rightarrow> u64 option option" where
  "first_flags [] va va1 = Some None"
| "first_flags (m # ms) va va1 =
     do { b \<leftarrow> overlaps m va va1; if b then Some (Some (um_flags m)) else first_flags ms va va1 }"

definition flags_of_first :: "memory_set \<Rightarrow> nat \<Rightarrow> u64 option option" where
  "flags_of_first ms va = do { va1 \<leftarrow> checked_add va 1; first_flags (ms_mappings ms) va va1 }"

text \<open>The search below the user stack, over the ranges in descending order.\<close>

fun free_region_loop :: "nat \<Rightarrow> nat \<Rightarrow> (nat \<times> nat) list \<Rightarrow> nat option" where
  "free_region_loop len hi [] = (if hi \<ge> len then Some (hi - len) else None)"
| "free_region_loop len hi ((s, e) # rs) =
     (if hi > e \<and> hi - e \<ge> len then Some (hi - len) else free_region_loop len s rs)"

fun ranges_of :: "user_mapping list \<Rightarrow> (nat \<times> nat) list option" where
  "ranges_of [] = Some []"
| "ranges_of (m # ms) = do { r \<leftarrow> mapping_range m; rs \<leftarrow> ranges_of ms; Some (r # rs) }"

definition find_free_region :: "memory_set \<Rightarrow> nat \<Rightarrow> nat option option" where
  "find_free_region ms len =
     do { rs \<leftarrow> ranges_of (ms_mappings ms);
          let ranges = sort_key fst (filter (\<lambda>(_, e). e \<le> USER_STACK_LOWER_BOUND) rs);
          Some (free_region_loop len USER_STACK_LOWER_BOUND (rev ranges)) }"

definition is_canonical_user_range :: "nat \<Rightarrow> nat \<Rightarrow> bool" where
  "is_canonical_user_range start stop \<longleftrightarrow> stop \<le> LOW_HALF_END \<or> start \<ge> HIGH_HALF_START"

definition prot_to_page_flags :: "u64 \<Rightarrow> u64" where
  "prot_to_page_flags prot =
     (let flags = pte_set_d True (pte_set_a True (pte_set_u True 0));
          flags = (if prot AND PROT_MASK \<noteq> 0 then pte_set_r True flags else flags);
          flags = (if prot AND PROT_WRITE \<noteq> 0 then pte_set_w True flags else flags) in
      if prot AND PROT_EXEC \<noteq> 0 then pte_set_x True flags else flags)"

section \<open>Mapping and unmapping\<close>

definition km_mgr :: "kmem \<Rightarrow> mgr" where
  "km_mgr km = (km_asm km, km_buddy km)"

definition km_set_mgr :: "mgr \<Rightarrow> kmem \<Rightarrow> kmem" where
  "km_set_mgr g km = km\<lparr>km_asm := fst g, km_buddy := snd g\<rparr>"

definition km_drop :: "phys_frame list \<Rightarrow> kmem \<Rightarrow> kmem option" where
  "km_drop frames km = map_option (\<lambda>st. km\<lparr>km_buddy := st\<rparr>) (drop_frames frames (km_buddy km))"

text \<open>
  The two loops of \<open>map_frame\<close>; a failing page gives the error and how many bytes before it are mapped.
\<close>

fun map_segment :: "nat \<Rightarrow> nat \<Rightarrow> nat \<Rightarrow> nat \<Rightarrow> u64 \<Rightarrow> nat list \<Rightarrow> mgr \<Rightarrow> ((mem_error \<times> nat) option \<times> mgr) option" where
  "map_segment tid addr mapped start flags [] g = Some (None, g)"
| "map_segment tid addr mapped start flags (step # steps) g =
     do { a \<leftarrow> checked_add addr mapped;
          va \<leftarrow> checked_add a step;
          pa \<leftarrow> checked_add start step;
          case asm_user_map tid (of_nat va) (of_nat pa) flags g of
            (Inl err, g') \<Rightarrow> Some (Some (err, mapped + step), g')
          | (Inr _, g') \<Rightarrow> map_segment tid addr mapped start flags steps g' }"

fun map_segments :: "nat \<Rightarrow> nat \<Rightarrow> nat \<Rightarrow> u64 \<Rightarrow> phys_frame list \<Rightarrow> mgr \<Rightarrow> ((mem_error \<times> nat) option \<times> mgr) option" where
  "map_segments tid addr mapped flags [] g = Some (None, g)"
| "map_segments tid addr mapped flags (f # fs) g =
     do { (r, g') \<leftarrow> map_segment tid addr mapped (frame_start f) flags (page_steps 0 (frame_size f)) g;
          case r of
            Some x \<Rightarrow> Some (Some x, g')
          | None \<Rightarrow> do { mapped' \<leftarrow> checked_add mapped (frame_size f); map_segments tid addr mapped' flags fs g' } }"

fun unmap_pages :: "nat \<Rightarrow> nat list \<Rightarrow> mgr \<Rightarrow> mgr" where
  "unmap_pages tid [] g = g"
| "unmap_pages tid (va # vas) g = unmap_pages tid vas (snd (asm_user_unmap tid (of_nat va) g))"

definition map_frame :: "nat \<Rightarrow> nat \<Rightarrow> phys_frame list \<Rightarrow> u64 \<Rightarrow> memory_set \<Rightarrow> kmem \<Rightarrow> unit mm_result" where
  "map_frame tid addr frames flags ms km =
     (let push = ms\<lparr>ms_mappings := ms_mappings ms @ [\<lparr>um_va = of_nat addr, um_frames = frames, um_flags = flags\<rparr>]\<rparr> in
      if pte_r flags \<or> pte_w flags \<or> pte_x flags then
        do { (r, g) \<leftarrow> map_segments tid addr 0 flags frames (km_mgr km);
             case r of
               Some (err, mapped) \<Rightarrow>
                 do { km' \<leftarrow> km_drop frames
                        (km_set_mgr (unmap_pages tid (map (\<lambda>rollback. addr + rollback) (page_steps 0 mapped)) g) km);
                      Some (Err (mem_errno err), ms, km') }
             | None \<Rightarrow> Some (Ok (), push, km_set_mgr g km) }
      else Some (Ok (), push, km))"

definition write_zeros :: "nat \<Rightarrow> nat \<Rightarrow> (nat \<Rightarrow> u8) \<Rightarrow> nat \<Rightarrow> u8" where
  "write_zeros start sz phys = (\<lambda>a. if start \<le> a \<and> a < start + sz then 0 else phys a)"

definition copy_page :: "nat \<Rightarrow> nat \<Rightarrow> (nat \<Rightarrow> u8) \<Rightarrow> nat \<Rightarrow> u8" where
  "copy_page src dst phys = (\<lambda>a. if dst \<le> a \<and> a < dst + PAGE_SIZE then phys (src + (a - dst)) else phys a)"

fun zero_frames :: "phys_frame list \<Rightarrow> (nat \<Rightarrow> u8) \<Rightarrow> nat \<Rightarrow> u8" where
  "zero_frames [] phys = phys"
| "zero_frames (f # fs) phys = zero_frames fs (write_zeros (frame_start f) (frame_size f) phys)"

text \<open>
  Copying the pages at \<open>va\<close>, \<open>va + PAGE_SIZE\<close>, \<dots> into fresh segments: the loops of \<open>unmap_range\<close> and \<open>rebuild\<close>.
  A page without a mapping stops the loop (\<open>False\<close>).
\<close>

fun copy_pages :: "memory_set \<Rightarrow> nat \<Rightarrow> phys_frame list \<Rightarrow> nat list \<Rightarrow> (nat \<Rightarrow> u8) \<Rightarrow> (bool \<times> (nat \<Rightarrow> u8)) option" where
  "copy_pages ms va frames [] phys = Some (True, phys)"
| "copy_pages ms va frames (off # offs) phys =
     do { a \<leftarrow> checked_add va off;
          src \<leftarrow> page_phys ms a;
          case src of
            None \<Rightarrow> Some (False, phys)
          | Some src \<Rightarrow>
              do { dst \<leftarrow> phys_at_offset frames off; copy_pages ms va frames offs (copy_page src dst phys) } }"

record keep =
  keep_va :: nat
  keep_size :: nat
  keep_flags :: u64

fun collect_keeps :: "nat \<Rightarrow> nat \<Rightarrow> user_mapping list \<Rightarrow> keep list option" where
  "collect_keeps start stop [] = Some []"
| "collect_keeps start stop (m # ms) =
     do { b \<leftarrow> overlaps m start stop;
          if \<not> b then collect_keeps start stop ms
          else do { (s, e) \<leftarrow> mapping_range m;
                    let o_start = max s start;
                    let o_end = min e stop;
                    rest \<leftarrow> collect_keeps start stop ms;
                    Some ((if s < o_start then [\<lparr>keep_va = s, keep_size = o_start - s, keep_flags = um_flags m\<rparr>] else []) @
                          (if o_end < e then [\<lparr>keep_va = o_end, keep_size = e - o_end, keep_flags = um_flags m\<rparr>] else []) @
                          rest) } }"

text \<open>An early return drops the segments of the failing piece first, then the buffers.\<close>

fun alloc_keeps :: "memory_set \<Rightarrow> keep list \<Rightarrow> (phys_frame list \<times> keep) list \<Rightarrow> kmem \<Rightarrow>
    ((error_code, (phys_frame list \<times> keep) list) result \<times> kmem) option" where
  "alloc_keeps ms [] buffers km = Some (Ok buffers, km)"
| "alloc_keeps ms (k # ks) buffers km =
     do { (r, st) \<leftarrow> alloc_frames (keep_size k) (km_buddy km);
          let km1 = km\<lparr>km_buddy := st\<rparr>;
          case r of
            None \<Rightarrow> do { km2 \<leftarrow> km_drop (concat (map fst buffers)) km1; Some (Err ENOMEM, km2) }
          | Some frames \<Rightarrow>
              do { (ok, phys) \<leftarrow> copy_pages ms (keep_va k) frames (page_steps 0 (keep_size k)) (km_phys km1);
                   let km2 = km1\<lparr>km_phys := phys\<rparr>;
                   if ok then alloc_keeps ms ks (buffers @ [(frames, k)]) km2
                   else do { km3 \<leftarrow> km_drop (frames @ concat (map fst buffers)) km2; Some (Err EFAULT, km3) } } }"

definition vec_remove :: "nat \<Rightarrow> 'a list \<Rightarrow> 'a list" where
  "vec_remove i xs = take i xs @ drop (Suc i) xs"

fun teardown :: "nat \<Rightarrow> nat list \<Rightarrow> memory_set \<Rightarrow> kmem \<Rightarrow> (memory_set \<times> kmem) option" where
  "teardown tid [] ms km = Some (ms, km)"
| "teardown tid (i # is) ms km =
     do { let m = ms_mappings ms ! i;
          (s, e) \<leftarrow> mapping_range m;
          km' \<leftarrow> km_drop (um_frames m) (km_set_mgr (unmap_pages tid (page_steps s e) (km_mgr km)) km);
          teardown tid is (ms\<lparr>ms_mappings := vec_remove i (ms_mappings ms)\<rparr>) km' }"

fun remap_keeps :: "nat \<Rightarrow> (phys_frame list \<times> keep) list \<Rightarrow> memory_set \<Rightarrow> kmem \<Rightarrow> unit mm_result" where
  "remap_keeps tid [] ms km = Some (Ok (), ms, km)"
| "remap_keeps tid ((frames, k) # bs) ms km =
     do { (r, ms', km') \<leftarrow> map_frame tid (keep_va k) frames (keep_flags k) ms km;
          case r of
            Inl e \<Rightarrow> do { km'' \<leftarrow> km_drop (concat (map fst bs)) km'; Some (Err e, ms', km'') }
          | Inr _ \<Rightarrow> remap_keeps tid bs ms' km' }"

definition unmap_range :: "nat \<Rightarrow> nat \<Rightarrow> nat \<Rightarrow> memory_set \<Rightarrow> kmem \<Rightarrow> unit mm_result" where
  "unmap_range tid start stop ms km =
     do { keeps \<leftarrow> collect_keeps start stop (ms_mappings ms);
          (r, km1) \<leftarrow> alloc_keeps ms keeps [] km;
          case r of
            Inl e \<Rightarrow> Some (Err e, ms, km1)
          | Inr buffers \<Rightarrow>
              do { idxs \<leftarrow> overlapping_indices ms start stop;
                   (ms2, km2) \<leftarrow> teardown tid (rev idxs) ms km1;
                   remap_keeps tid buffers ms2 km2 } }"

definition rebuild :: "nat \<Rightarrow> nat \<Rightarrow> nat \<Rightarrow> nat \<Rightarrow> nat \<Rightarrow> u64 \<Rightarrow> memory_set \<Rightarrow> kmem \<Rightarrow> unit mm_result" where
  "rebuild tid old_start old_end dest new_size flags ms km =
     do { old_size \<leftarrow> checked_sub old_end old_start;
          let copy_len = min old_size new_size;
          (r, st) \<leftarrow> alloc_frames new_size (km_buddy km);
          let km1 = km\<lparr>km_buddy := st\<rparr>;
          case r of
            None \<Rightarrow> Some (Err ENOMEM, ms, km1)
          | Some frames \<Rightarrow>
              do { let phys1 = zero_frames frames (km_phys km1);
                   (ok, phys2) \<leftarrow> copy_pages ms old_start frames (page_steps 0 copy_len) phys1;
                   let km2 = km1\<lparr>km_phys := phys2\<rparr>;
                   if \<not> ok then do { km3 \<leftarrow> km_drop frames km2; Some (Err EFAULT, ms, km3) }
                   else do { (u, ms3, km3) \<leftarrow> unmap_range tid old_start old_end ms km2;
                             case u of
                               Inl e \<Rightarrow> do { km4 \<leftarrow> km_drop frames km3; Some (Err e, ms3, km4) }
                             | Inr _ \<Rightarrow> map_frame tid dest frames flags ms3 km3 } } }"

section \<open>The system calls\<close>

text \<open>
  \<open>mmap\<close>, \<open>munmap\<close> and \<open>mremap\<close> lock the task table and work on the memory set of the calling task, whose entry is
  written back whatever the outcome; without a task they fail with \<open>ESRCH\<close>.
\<close>

type_synonym memory_sets = "(nat, memory_set) btree"
type_synonym 'a call_result = "((error_code, 'a) result \<times> memory_sets \<times> kmem) option"

definition with_task :: "nat \<Rightarrow> (memory_set \<Rightarrow> kmem \<Rightarrow> 'a mm_result) \<Rightarrow> memory_sets \<Rightarrow> kmem \<Rightarrow> 'a call_result" where
  "with_task tid f tasks km =
     (case bt_get tasks tid of
        None \<Rightarrow> Some (Err ESRCH, tasks, km)
      | Some ms \<Rightarrow> map_option (\<lambda>(r, ms', km'). (r, bt_insert tid ms' tasks, km')) (f ms km))"

definition mmap_target :: "nat \<Rightarrow> nat \<Rightarrow> bool \<Rightarrow> memory_set \<Rightarrow> (error_code, nat) result option" where
  "mmap_target addr len fixed ms =
     (if fixed then Some (if PAGE_SIZE dvd addr then Ok addr else Err EINVAL)
      else do { hint \<leftarrow> (if addr \<noteq> 0 \<and> PAGE_SIZE dvd addr then
                            case checked_add addr len of
                              None \<Rightarrow> Some False | Some hint_end \<Rightarrow> range_is_free ms addr hint_end
                          else Some False);
                if hint then Some (Ok addr)
                else map_option (\<lambda>r. case r of None \<Rightarrow> Err ENOMEM | Some a \<Rightarrow> Ok a) (find_free_region ms len) })"

text \<open>Allocating, clearing and mapping: the end of \<open>mmap\<close>.\<close>

definition mmap_install :: "nat \<Rightarrow> nat \<Rightarrow> nat \<Rightarrow> u64 \<Rightarrow> memory_set \<Rightarrow> kmem \<Rightarrow> nat mm_result" where
  "mmap_install tid target len prot ms km =
     do { (r, st) \<leftarrow> alloc_frames len (km_buddy km);
          let km1 = km\<lparr>km_buddy := st\<rparr>;
          case r of
            None \<Rightarrow> Some (Err ENOMEM, ms, km1)
          | Some frames \<Rightarrow>
              do { (u, ms', km') \<leftarrow> map_frame tid target frames (prot_to_page_flags prot) ms
                     (km1\<lparr>km_phys := zero_frames frames (km_phys km1)\<rparr>);
                   Some (case u of Inl e \<Rightarrow> Err e | Inr _ \<Rightarrow> Ok target, ms', km') } }"

definition mmap_in :: "nat \<Rightarrow> nat \<Rightarrow> nat \<Rightarrow> u64 \<Rightarrow> bool \<Rightarrow> bool \<Rightarrow> memory_set \<Rightarrow> kmem \<Rightarrow> nat mm_result" where
  "mmap_in tid addr len prot fixed noreplace ms km =
     do { t \<leftarrow> mmap_target addr len fixed ms;
          case t of
            Inl e \<Rightarrow> Some (Err e, ms, km)
          | Inr target \<Rightarrow>
              (case checked_add target len of
                 None \<Rightarrow> Some (Err ENOMEM, ms, km)
               | Some stop \<Rightarrow>
                   if \<not> is_canonical_user_range target stop then Some (Err ENOMEM, ms, km)
                   else do { busy \<leftarrow> (if noreplace then map_option Not (range_is_free ms target stop) else Some False);
                             if busy then Some (Err EEXIST, ms, km)
                             else if fixed \<and> \<not> noreplace then
                               do { (u, ms', km') \<leftarrow> unmap_range tid target stop ms km;
                                    case u of
                                      Inl e \<Rightarrow> Some (Err e, ms', km')
                                    | Inr _ \<Rightarrow> mmap_install tid target len prot ms' km' }
                             else mmap_install tid target len prot ms km }) }"

definition mmap :: "nat \<Rightarrow> nat \<Rightarrow> nat \<Rightarrow> u64 \<Rightarrow> u64 \<Rightarrow> int \<Rightarrow> nat \<Rightarrow> memory_sets \<Rightarrow> kmem \<Rightarrow> nat call_result" where
  "mmap tid addr len prot flags fd off tasks km =
     (if flags AND MAP_ANONYMOUS = 0 then Some (Err ENOSYS, tasks, km)
      else if fd \<noteq> -1 \<or> off \<noteq> 0 then Some (Err EINVAL, tasks, km)
      else if prot AND NOT PROT_MASK \<noteq> 0 then Some (Err EINVAL, tasks, km)
      else if len = 0 \<or> len \<ge> usize_max - PAGE_SIZE then Some (Err EINVAL, tasks, km)
      else do { len' \<leftarrow> align_up len;
                let noreplace = (flags AND MAP_FIXED_NOREPLACE \<noteq> 0);
                let fixed = (flags AND (MAP_FIXED OR MAP_FIXED_NOREPLACE) \<noteq> 0);
                with_task tid (mmap_in tid addr len' prot fixed noreplace) tasks km })"

definition munmap :: "nat \<Rightarrow> nat \<Rightarrow> nat \<Rightarrow> memory_sets \<Rightarrow> kmem \<Rightarrow> unit call_result" where
  "munmap tid addr len tasks km =
     (if \<not> PAGE_SIZE dvd addr \<or> len = 0 then Some (Err EINVAL, tasks, km)
      else case checked_add addr len of
             None \<Rightarrow> Some (Err EINVAL, tasks, km)
           | Some stop \<Rightarrow> with_task tid (unmap_range tid addr stop) tasks km)"

definition rebuild_at :: "nat \<Rightarrow> nat \<Rightarrow> nat \<Rightarrow> nat \<Rightarrow> nat \<Rightarrow> memory_set \<Rightarrow> kmem \<Rightarrow> nat mm_result" where
  "rebuild_at tid old_start old_end dest new_size ms km =
     do { f \<leftarrow> flags_of_first ms old_start;
          case f of
            None \<Rightarrow> Some (Err EFAULT, ms, km)
          | Some flags \<Rightarrow>
              do { (u, ms', km') \<leftarrow> rebuild tid old_start old_end dest new_size flags ms km;
                   Some (case u of Inl e \<Rightarrow> Err e | Inr _ \<Rightarrow> Ok dest, ms', km') } }"

definition move_to :: "nat \<Rightarrow> nat \<Rightarrow> nat \<Rightarrow> nat \<Rightarrow> nat \<Rightarrow> bool \<Rightarrow> memory_set \<Rightarrow> kmem \<Rightarrow> nat mm_result" where
  "move_to tid old_start old_end dest new_size replace ms km =
     (case checked_add dest new_size of
        None \<Rightarrow> Some (Err ENOMEM, ms, km)
      | Some dest_end \<Rightarrow>
          if \<not> is_canonical_user_range dest dest_end then Some (Err ENOMEM, ms, km)
          else if dest < old_end \<and> old_start < dest_end then Some (Err ENOMEM, ms, km)
          else if replace then
            do { (u, ms', km') \<leftarrow> unmap_range tid dest dest_end ms km;
                 case u of
                   Inl e \<Rightarrow> Some (Err e, ms', km')
                 | Inr _ \<Rightarrow> rebuild_at tid old_start old_end dest new_size ms' km' }
          else do { free \<leftarrow> range_is_free ms dest dest_end;
                    if \<not> free then Some (Err ENOMEM, ms, km)
                    else rebuild_at tid old_start old_end dest new_size ms km })"

text \<open>Growing: in place when the pages behind the old end are free, else by moving.\<close>

definition mremap_grow :: "nat \<Rightarrow> nat \<Rightarrow> nat \<Rightarrow> nat \<Rightarrow> nat \<Rightarrow> u64 \<Rightarrow> nat \<Rightarrow> memory_set \<Rightarrow> kmem \<Rightarrow> nat mm_result" where
  "mremap_grow tid old_address old_end old_size new_size flags new_address ms km =
     do { let growth = new_size - old_size;
          in_place \<leftarrow> (case checked_add old_end growth of
                           None \<Rightarrow> Some False
                         | Some e \<Rightarrow>
                             map_option (\<lambda>b. b \<and> is_canonical_user_range old_address e) (range_is_free ms old_end e));
          if in_place then rebuild_at tid old_address old_end old_address new_size ms km
          else if flags AND MREMAP_FIXED \<noteq> 0 then move_to tid old_address old_end new_address new_size True ms km
          else if flags AND MREMAP_MAYMOVE \<noteq> 0 then
            do { d \<leftarrow> find_free_region ms new_size;
                 case d of
                   None \<Rightarrow> Some (Err ENOMEM, ms, km)
                 | Some dest \<Rightarrow> move_to tid old_address old_end dest new_size False ms km }
          else Some (Err ENOMEM, ms, km) }"

definition mremap_in :: "nat \<Rightarrow> nat \<Rightarrow> nat \<Rightarrow> nat \<Rightarrow> nat \<Rightarrow> u64 \<Rightarrow> nat \<Rightarrow> memory_set \<Rightarrow> kmem \<Rightarrow> nat mm_result" where
  "mremap_in tid old_address old_end old_size new_size flags new_address ms km =
     (if new_size = old_size then
        (if flags AND MREMAP_FIXED \<noteq> 0 \<and> new_address \<noteq> old_address
         then move_to tid old_address old_end new_address old_size True ms km
         else Some (Ok old_address, ms, km))
      else do { full \<leftarrow> range_fully_mapped ms old_address old_end;
                if \<not> full then Some (Err EFAULT, ms, km)
                else if new_size < old_size then rebuild_at tid old_address old_end old_address new_size ms km
                else mremap_grow tid old_address old_end old_size new_size flags new_address ms km })"

definition mremap :: "nat \<Rightarrow> nat \<Rightarrow> nat \<Rightarrow> nat \<Rightarrow> u64 \<Rightarrow> nat \<Rightarrow> memory_sets \<Rightarrow> kmem \<Rightarrow> nat call_result" where
  "mremap tid old_address old_size new_size flags new_address tasks km =
     (if \<not> PAGE_SIZE dvd old_address \<or> old_size = 0 \<or> new_size = 0 \<or> \<not> PAGE_SIZE dvd old_size \<or>
         \<not> PAGE_SIZE dvd new_size \<or> new_size \<ge> usize_max - PAGE_SIZE
      then Some (Err EINVAL, tasks, km)
      else case checked_add old_address old_size of
             None \<Rightarrow> Some (Err EINVAL, tasks, km)
           | Some old_end \<Rightarrow>
               if flags AND MREMAP_FIXED \<noteq> 0 \<and> \<not> PAGE_SIZE dvd new_address then Some (Err EINVAL, tasks, km)
               else with_task tid (mremap_in tid old_address old_end old_size new_size flags new_address) tasks km)"

end
