(* ===== verification/Fs_Error.thy ===== *)
theory Fs_Error
  imports Abi
begin

text \<open>
  The file system error and its errno number (src/fs/fs_error.rs).  Constructors that other error types share carry
  the prefix \<open>Fs\<close>.
\<close>

datatype fs_error =
  NotFound | NotDir | IsDir | AlreadyExists | NotEmpty | PermissionDenied | NameTooLong | TooManyLinks
| CrossDevice | NoSpace | Invalid | FsIo | FsOutOfMemory | Unsupported

fun fs_errno :: "fs_error \<Rightarrow> int" where
  "fs_errno NotFound = 2"
| "fs_errno FsIo = 5"
| "fs_errno FsOutOfMemory = 12"
| "fs_errno PermissionDenied = 13"
| "fs_errno AlreadyExists = 17"
| "fs_errno CrossDevice = 18"
| "fs_errno NotDir = 20"
| "fs_errno IsDir = 21"
| "fs_errno Invalid = 22"
| "fs_errno NoSpace = 28"
| "fs_errno NameTooLong = 36"
| "fs_errno NotEmpty = 39"
| "fs_errno TooManyLinks = 40"
| "fs_errno Unsupported = 95"

end
