(* ===== verification/Block_Device.thy ===== *)
theory Block_Device
  imports Fs_Error "HOL-Library.Monad_Syntax"
begin

text \<open>
  The byte-addressed block device of src/driver/traits.rs (\<open>ReadAt\<close>, \<open>WriteAt\<close>) as a pair of functions on a device
  state, and the contract its clients rely on.  A buffer is the list of its bytes: a read returns the buffer after the
  call together with the result.  The outer \<open>None\<close> is a panic.
\<close>

datatype io_error = Request | NotReady

record 'd block_dev =
  dev_read_at :: "u8 list \<Rightarrow> nat \<Rightarrow> 'd \<Rightarrow> ((io_error, nat) result \<times> u8 list \<times> 'd) option"
  dev_write_at :: "u8 list \<Rightarrow> nat \<Rightarrow> 'd \<Rightarrow> ((io_error, nat) result \<times> 'd) option"

text \<open>\<open>From<IoError> for FsError\<close>\<close>

definition fs_error_of_io :: "io_error \<Rightarrow> fs_error" where
  "fs_error_of_io e = FsIo"

section \<open>Byte ranges\<close>

text \<open>The bytes of a range of a disk, and the disk after a range is overwritten.\<close>

definition bytes_at :: "(nat \<Rightarrow> u8) \<Rightarrow> nat \<Rightarrow> nat \<Rightarrow> u8 list" where
  "bytes_at disk off n = map disk [off..<off + n]"

definition store_bytes :: "nat \<Rightarrow> u8 list \<Rightarrow> (nat \<Rightarrow> u8) \<Rightarrow> nat \<Rightarrow> u8" where
  "store_bytes off bs disk = (\<lambda>a. if off \<le> a \<and> a < off + length bs then bs ! (a - off) else disk a)"

lemma length_bytes_at [simp]: "length (bytes_at disk off n) = n"
  by (simp add: bytes_at_def)

lemma nth_bytes_at [simp]: "i < n \<Longrightarrow> bytes_at disk off n ! i = disk (off + i)"
  by (simp add: bytes_at_def)

lemma bytes_at_0 [simp]: "bytes_at disk off 0 = []"
  by (simp add: bytes_at_def)

lemma bytes_at_append: "bytes_at disk off (m + n) = bytes_at disk off m @ bytes_at disk (off + m) n"
  by (rule nth_equalityI) (auto simp: nth_append)

lemma bytes_at_store [simp]: "bytes_at (store_bytes off bs disk) off (length bs) = bs"
  by (rule nth_equalityI) (auto simp: store_bytes_def)

lemma bytes_at_store_other:
  "off' + n \<le> off \<or> off + length bs \<le> off' \<Longrightarrow> bytes_at (store_bytes off bs disk) off' n = bytes_at disk off' n"
  by (rule nth_equalityI) (auto simp: store_bytes_def)

lemma store_bytes_Nil [simp]: "store_bytes off [] disk = disk"
  by (auto simp: store_bytes_def fun_eq_iff)

lemma store_bytes_append: "store_bytes (off + length xs) ys (store_bytes off xs disk) = store_bytes off (xs @ ys) disk"
  by (auto simp: store_bytes_def fun_eq_iff nth_append)

lemma store_bytes_same: "store_bytes off (bytes_at disk off n) disk = disk"
  by (auto simp: store_bytes_def fun_eq_iff)

text \<open>\<open>dst[i..i + n].copy_from_slice(src)\<close>\<close>

definition copy_into :: "nat \<Rightarrow> u8 list \<Rightarrow> u8 list \<Rightarrow> u8 list" where
  "copy_into i src dst = take i dst @ src @ drop (i + length src) dst"

lemma nth_copy_into:
  "i + length src \<le> length dst \<Longrightarrow> j < length dst \<Longrightarrow>
     copy_into i src dst ! j = (if i \<le> j \<and> j < i + length src then src ! (j - i) else dst ! j)"
  by (auto simp: copy_into_def nth_append)

lemma length_copy_into: "i + length src \<le> length dst \<Longrightarrow> length (copy_into i src dst) = length dst"
  by (simp add: copy_into_def)

section \<open>The contract\<close>

text \<open>
  A device with \<open>cap\<close> bytes that does not fail: a read inside the capacity fills the buffer with the stored bytes, a
  write inside it replaces exactly the bytes of its range.
\<close>

locale block_device =
  fixes dev :: "'d block_dev"
    and disk :: "'d \<Rightarrow> nat \<Rightarrow> u8"
    and cap :: nat
  assumes read_ok: "off + length buf \<le> cap \<Longrightarrow>
      \<exists>d'. dev_read_at dev buf off d = Some (Ok (length buf), bytes_at (disk d) off (length buf), d') \<and> disk d' = disk d"
    and write_ok: "off + length bs \<le> cap \<Longrightarrow>
      \<exists>d'. dev_write_at dev bs off d = Some (Ok (length bs), d') \<and> disk d' = store_bytes off bs (disk d)"
begin

lemma read_after_write:
  assumes "off + length bs \<le> cap" "length buf = length bs" "dev_write_at dev bs off d = Some (r, d')"
  shows "\<exists>d''. dev_read_at dev buf off d' = Some (Ok (length bs), bs, d'')"
proof -
  have "disk d' = store_bytes off bs (disk d)" using write_ok [OF assms(1), of d] assms(3) by auto
  then show ?thesis using read_ok [of off buf d'] assms(1,2) by auto
qed

end

end
