(* ===== verification/Tasks.thy ===== *)
theory Tasks
  imports Memory_Map Id_Alloc Block_Device
begin

text \<open>
  Tasks and their life cycle: the task table and the round-robin choice (src/task.rs), the scheduler
  (src/task/scheduler.rs), exit, wait and the lookup of descriptors (src/task/process.rs), the trap context
  (src/arch/riscv64/trap.rs) and the system calls on tasks and memory (src/syscall.rs).  The globals \<open>TASKS\<close>,
  \<open>CURRENT_TASK\<close> (one hart), \<open>TID_ALLOCATOR\<close> and the memory state of Memory_Map form one record; each
  operation runs under the locks it takes, so it is one step on the record.  Open files are a type parameter: the table
  only stores and copies them.  The outer \<open>None\<close> of a result is a panic.
\<close>

section \<open>Errors\<close>

datatype proc_error = NoOtherTask | ArgsTooLong

datatype elf_error = NotElf | Not64Bit | NotLsb | NotRiscv

datatype dev_error =
  DevMem mem_error | MemoryProbeFailed | VirtioHandshakeFailed | VirtioNotSupported | VirtioFeaturesNotOk
| VirtioBlockFailed | VirtioRngFailed | NoVirtioBlock | NoUart

datatype kernel_error =
  Fdt string | NoTidAvailable | Elf elf_error | Mem mem_error | Dev dev_error | Proc proc_error | Io io_error

section \<open>Task control blocks\<close>

definition A0_INDEX :: nat where
  "A0_INDEX = 10"

record trap_context =
  tc_context :: "u64 list"
  tc_satp :: u64
  tc_sepc :: u64
  tc_sstatus :: u64

definition clone_child :: "u64 list \<Rightarrow> u64 \<Rightarrow> u64 \<Rightarrow> trap_context \<Rightarrow> trap_context option" where
  "clone_child frame sepc satp tc =
     do { next_pc \<leftarrow> checked_add (unat sepc) 4;
          Some (tc\<lparr>tc_context := frame[A0_INDEX := 0], tc_satp := satp, tc_sepc := of_nat next_pc\<rparr>) }"

datatype task_status = Running | Waiting | Sleeping | Zombie | Stopped | Dead

definition is_runnable :: "task_status \<Rightarrow> bool" where
  "is_runnable s \<longleftrightarrow> (case s of Running \<Rightarrow> True | _ \<Rightarrow> False)"

record 'f task =
  t_parent :: "nat option"
  t_children :: "nat list"
  t_status :: task_status
  t_memory_set :: memory_set
  t_trap_context :: trap_context
  t_exit_code :: u32
  t_fd_table :: "'f list"

definition mark_runnable :: "'f task \<Rightarrow> 'f task" where
  "mark_runnable t = t\<lparr>t_status := Running\<rparr>"

definition set_exit_code :: "u32 \<Rightarrow> 'f task \<Rightarrow> 'f task" where
  "set_exit_code code t = t\<lparr>t_exit_code := code\<rparr>"

record 'f tasks =
  tasks_map :: "(nat, 'f task) btree"
  tasks_cursor :: "nat option"

definition tasks_new :: "'f tasks" where
  "tasks_new = \<lparr>tasks_map = [], tasks_cursor = None\<rparr>"

record 'f kernel =
  k_tasks :: "'f tasks"
  k_current :: "nat option"
  k_tids :: id_alloc
  k_mem :: kmem

definition TID_MAX :: nat where
  "TID_MAX = 1024"

definition TID_ALLOCATOR :: "(IdAllocError, id_alloc) result" where
  "TID_ALLOCATOR = ia_from_range 64 0 1 TID_MAX"

section \<open>The task table\<close>

text \<open>\<open>get_mut\<close> on the table: the entry, if there is one, is replaced by its update.\<close>

definition modify_task :: "nat \<Rightarrow> ('f task \<Rightarrow> 'f task) \<Rightarrow> 'f tasks \<Rightarrow> 'f tasks" where
  "modify_task tid f ts =
     (case bt_get (tasks_map ts) tid of
        None \<Rightarrow> ts
      | Some t \<Rightarrow> ts\<lparr>tasks_map := bt_insert tid (f t) (tasks_map ts)\<rparr>)"

text \<open>\<open>Tasks::add\<close>; the entry the insertion replaces is returned, the caller drops it.\<close>

definition tasks_add :: "nat \<Rightarrow> nat option \<Rightarrow> 'f task \<Rightarrow> 'f tasks \<Rightarrow> 'f task option \<times> 'f tasks" where
  "tasks_add tid parent tcb ts =
     (let ts1 = modify_task (case parent of None \<Rightarrow> 1 | Some p \<Rightarrow> p) (\<lambda>p. p\<lparr>t_children := t_children p @ [tid]\<rparr>) ts in
      (bt_get (tasks_map ts1) tid, ts1\<lparr>tasks_map := bt_insert tid tcb (tasks_map ts1)\<rparr>))"

definition select_first :: "'f kernel \<Rightarrow> (kernel_error, trap_context) result \<times> 'f kernel" where
  "select_first k =
     (case tasks_map (k_tasks k) of
        [] \<Rightarrow> (Err (Proc NoOtherTask), k)
      | (tid, tcb) # rest \<Rightarrow>
          (Ok (t_trap_context tcb),
           k\<lparr>k_tasks := \<lparr>tasks_map = (tid, mark_runnable tcb) # rest, tasks_cursor = Some tid\<rparr>, k_current := Some tid\<rparr>))"

text \<open>The first runnable task after the cursor, else the first of all.\<close>

definition next_runnable :: "(nat, 'f task) btree \<Rightarrow> nat option" where
  "next_runnable m = map_option fst (find (\<lambda>(_, t). is_runnable (t_status t)) m)"

definition next_tid :: "'f tasks \<Rightarrow> nat option" where
  "next_tid ts =
     (case tasks_cursor ts of
        Some current \<Rightarrow>
          (case next_runnable (filter (\<lambda>(tid, _). current < tid) (tasks_map ts)) of
             Some tid \<Rightarrow> Some tid
           | None \<Rightarrow> next_runnable (tasks_map ts))
      | None \<Rightarrow> next_runnable (tasks_map ts))"

definition select_next :: "'f kernel \<Rightarrow> (kernel_error, nat \<times> trap_context) result \<times> 'f kernel" where
  "select_next k =
     (case next_tid (k_tasks k) of
        None \<Rightarrow> (Err (Proc NoOtherTask), k)
      | Some tid \<Rightarrow>
          (let k1 = k\<lparr>k_tasks := (k_tasks k)\<lparr>tasks_cursor := Some tid\<rparr>\<rparr> in
           case bt_get (tasks_map (k_tasks k1)) tid of
             None \<Rightarrow> (Err (Proc NoOtherTask), k1)
           | Some tcb \<Rightarrow>
               (Ok (tid, t_trap_context tcb),
                k1\<lparr>k_tasks := modify_task tid mark_runnable (k_tasks k1), k_current := Some tid\<rparr>)))"

text \<open>The iterator over all tasks, cyclic in the order of the ids.\<close>

definition cursor_next :: "nat option \<Rightarrow> 'f tasks \<Rightarrow> (nat \<times> 'f task) option" where
  "cursor_next current ts =
     (let first = (case tasks_map ts of [] \<Rightarrow> None | x # _ \<Rightarrow> Some x) in
      case current of
        Some c \<Rightarrow> (case filter (\<lambda>(tid, _). c < tid) (tasks_map ts) of x # _ \<Rightarrow> Some x | [] \<Rightarrow> first)
      | None \<Rightarrow> first)"

section \<open>Copying a task\<close>

definition frame_try_clone :: "phys_frame \<Rightarrow> kmem \<Rightarrow> (phys_frame option \<times> kmem) option" where
  "frame_try_clone f km =
     do { (r, st) \<leftarrow> alloc_frame (Some (frame_size f)) (km_buddy km);
          let km1 = km\<lparr>km_buddy := st\<rparr>;
          Some (case r of
            None \<Rightarrow> (None, km1)
          | Some fr \<Rightarrow>
              (Some fr, km1\<lparr>km_phys := (\<lambda>a. if frame_start fr \<le> a \<and> a < frame_start fr + frame_size f
                 then km_phys km1 (frame_start f + (a - frame_start fr)) else km_phys km1 a)\<rparr>)) }"

fun clone_frames :: "phys_frame list \<Rightarrow> phys_frame list \<Rightarrow> kmem \<Rightarrow> (bool \<times> phys_frame list \<times> kmem) option" where
  "clone_frames [] cloned km = Some (True, cloned, km)"
| "clone_frames (f # fs) cloned km =
     do { (r, km') \<leftarrow> frame_try_clone f km;
          case r of
            None \<Rightarrow> Some (False, cloned, km')
          | Some fr \<Rightarrow> clone_frames fs (cloned @ [fr]) km' }"

text \<open>The first loop of \<open>MemorySet::try_clone\<close>: when an allocation fails, all copies are dropped.\<close>

fun clone_mappings :: "user_mapping list \<Rightarrow> (user_mapping \<times> phys_frame list) list \<Rightarrow> kmem \<Rightarrow>
    ((kernel_error, (user_mapping \<times> phys_frame list) list) result \<times> kmem) option" where
  "clone_mappings [] frames km = Some (Ok frames, km)"
| "clone_mappings (m # ms) frames km =
     do { (ok, cloned, km1) \<leftarrow> clone_frames (um_frames m) [] km;
          if ok then clone_mappings ms (frames @ [(m, cloned)]) km1
          else do { km2 \<leftarrow> km_drop (cloned @ concat (map snd frames)) km1; Some (Err (Mem OutOfMemory), km2) } }"

text \<open>The second loop: the copies are mapped in the new space; an error drops them all.\<close>

fun install_mappings :: "nat \<Rightarrow> (user_mapping \<times> phys_frame list) list \<Rightarrow> user_mapping list \<Rightarrow> kmem \<Rightarrow>
    ((kernel_error, user_mapping list) result \<times> kmem) option" where
  "install_mappings new_tid [] mappings km = Some (Ok mappings, km)"
| "install_mappings new_tid ((m, frames) # rest) mappings km =
     do { (r, g) \<leftarrow> (if pte_r (um_flags m) \<or> pte_w (um_flags m) \<or> pte_x (um_flags m)
                       then map_segments new_tid (unat (um_va m)) 0 (um_flags m) frames (km_mgr km)
                       else Some (None, km_mgr km));
          let km1 = km_set_mgr g km;
          case r of
            Some (e, _) \<Rightarrow>
              do { km2 \<leftarrow> km_drop (frames @ concat (map snd rest) @ concat (map um_frames mappings)) km1;
                   Some (Err (Mem e), km2) }
          | None \<Rightarrow> install_mappings new_tid rest
                (mappings @ [\<lparr>um_va = um_va m, um_frames = frames, um_flags = um_flags m\<rparr>]) km1 }"

definition memory_set_try_clone :: "nat \<Rightarrow> nat \<Rightarrow> memory_set \<Rightarrow> kmem \<Rightarrow> ((kernel_error, memory_set) result \<times> kmem) option" where
  "memory_set_try_clone owner new_tid ms km =
     do { (r, g) \<leftarrow> asm_clone (UserSpace owner) new_tid (km_mgr km);
          let km1 = km_set_mgr g km;
          case r of
            Inl e \<Rightarrow> Some (Err (Mem e), km1)
          | Inr _ \<Rightarrow>
              (case asm_user_root_addr new_tid (km_asm km1) of
                 Inl e \<Rightarrow> Some (Err (Mem e), km1)
               | Inr root \<Rightarrow>
                   do { (fr, km2) \<leftarrow> clone_mappings (ms_mappings ms) [] km1;
                        case fr of
                          Inl e \<Rightarrow> Some (Err e, km2)
                        | Inr frames \<Rightarrow>
                            do { (mr, km3) \<leftarrow> install_mappings new_tid frames [] km2;
                                 Some (case mr of
                                   Inl e \<Rightarrow> Err e
                                 | Inr mappings \<Rightarrow> Ok \<lparr>ms_mappings = mappings, ms_user_root_page_table = root\<rparr>, km3) } }) }"

definition task_try_clone :: "nat \<Rightarrow> nat \<Rightarrow> u64 list \<Rightarrow> u64 \<Rightarrow> 'f task \<Rightarrow> kmem \<Rightarrow> ((kernel_error, 'f task) result \<times> kmem) option" where
  "task_try_clone tid new_tid frame sepc t km =
     do { (r, km') \<leftarrow> memory_set_try_clone tid new_tid (t_memory_set t) km;
          case r of
            Inl e \<Rightarrow> Some (Err e, km')
          | Inr ms \<Rightarrow>
              do { let satp = satp_set_mode SATP_SV39 (satp_set_ppn (pa_ppn (ms_user_root_page_table ms)) 0);
                   tc \<leftarrow> clone_child frame sepc satp (t_trap_context t);
                   Some (Ok \<lparr>t_parent = Some tid, t_children = [], t_status = Running, t_memory_set = ms,
                     t_trap_context = tc, t_exit_code = 0, t_fd_table = t_fd_table t\<rparr>, km') } }"

definition alloc_tid :: "'f kernel \<Rightarrow> nat option \<times> 'f kernel" where
  "alloc_tid k = (case ia_alloc 64 (k_tids k) of None \<Rightarrow> (None, k) | Some (tid, a) \<Rightarrow> (Some tid, k\<lparr>k_tids := a\<rparr>))"

definition dealloc_tid :: "nat \<Rightarrow> 'f kernel \<Rightarrow> 'f kernel" where
  "dealloc_tid tid k = (case ia_dealloc 64 0 (k_tids k) tid of Inl _ \<Rightarrow> k | Inr a \<Rightarrow> k\<lparr>k_tids := a\<rparr>)"

definition drop_task :: "'f task \<Rightarrow> kmem \<Rightarrow> kmem option" where
  "drop_task t km = km_drop (concat (map um_frames (ms_mappings (t_memory_set t)))) km"

text \<open>Entering a task into the table; a task it replaces is dropped.\<close>

definition register_task :: "nat \<Rightarrow> nat option \<Rightarrow> 'f task \<Rightarrow> 'f kernel \<Rightarrow> 'f kernel option" where
  "register_task tid parent tcb k =
     (case tasks_add tid parent tcb (k_tasks k) of
        (None, ts) \<Rightarrow> Some (k\<lparr>k_tasks := ts\<rparr>)
      | (Some old, ts) \<Rightarrow> map_option (\<lambda>km. k\<lparr>k_tasks := ts, k_mem := km\<rparr>) (drop_task old (k_mem k)))"

definition clone_task :: "u64 list \<Rightarrow> u64 \<Rightarrow> 'f kernel \<Rightarrow> ((kernel_error, nat) result \<times> 'f kernel) option" where
  "clone_task frame sepc k =
     (case k_current k of
        None \<Rightarrow> Some (Err (Proc NoOtherTask), k)
      | Some tid \<Rightarrow>
          (case alloc_tid k of
             (None, k1) \<Rightarrow> Some (Err NoTidAvailable, k1)
           | (Some new_tid, k1) \<Rightarrow>
               do { (r, km) \<leftarrow> (case bt_get (tasks_map (k_tasks k1)) tid of
                      Some tcb \<Rightarrow> task_try_clone tid new_tid frame sepc tcb (k_mem k1)
                    | None \<Rightarrow> Some (Err (Proc NoOtherTask), k_mem k1));
                    let k2 = k1\<lparr>k_mem := km\<rparr>;
                    case r of
                      Inl e \<Rightarrow> Some (Err e, dealloc_tid new_tid k2)
                    | Inr tcb \<Rightarrow> map_option (\<lambda>k3. (Ok new_tid, k3)) (register_task new_tid (Some tid) tcb k2) }))"

section \<open>Exit and wait\<close>

text \<open>\<open>exit\<close>: the children go to task 1; the exit of task 1 is a panic.\<close>

definition exit :: "u32 \<Rightarrow> 'f kernel \<Rightarrow> 'f kernel option" where
  "exit code k =
     (case k_current k of
        None \<Rightarrow> Some k
      | Some tid \<Rightarrow>
          if tid = 1 then None
          else (case bt_get (tasks_map (k_tasks k)) tid of
                  None \<Rightarrow> Some k
                | Some task \<Rightarrow>
                    (let ts1 = modify_task tid (\<lambda>t. t\<lparr>t_exit_code := code, t_status := Zombie, t_children := []\<rparr>) (k_tasks k);
                         ts2 = modify_task 1 (\<lambda>i. i\<lparr>t_children := t_children i @ t_children task\<rparr>) ts1 in
                     Some (k\<lparr>k_tasks := ts2\<rparr>))))"

record wait_result =
  wr_tid :: nat
  wr_exit_code :: u32

text \<open>The search stops at the first child that has left the table.\<close>

fun zombie_among :: "nat list \<Rightarrow> 'f tasks \<Rightarrow> nat option" where
  "zombie_among [] ts = None"
| "zombie_among (c # cs) ts =
     (case bt_get (tasks_map ts) c of
        None \<Rightarrow> None
      | Some t \<Rightarrow> if t_status t = Zombie then Some c else zombie_among cs ts)"

definition find_zombie_child :: "nat \<Rightarrow> nat option \<Rightarrow> 'f tasks \<Rightarrow> nat option" where
  "find_zombie_child parent target ts =
     (case bt_get (tasks_map ts) parent of
        None \<Rightarrow> None
      | Some task \<Rightarrow>
          (case target of
             Some tgt \<Rightarrow>
               (if tgt \<notin> set (t_children task) then None
                else case bt_get (tasks_map ts) tgt of
                       None \<Rightarrow> None
                     | Some t \<Rightarrow> if t_status t = Zombie then Some tgt else None)
           | None \<Rightarrow> zombie_among (t_children task) ts))"

text \<open>\<open>wait4\<close>: without \<open>WNOHANG\<close> the caller is marked waiting and yields (\<open>None\<close>).\<close>

definition wait4 :: "int \<Rightarrow> bool \<Rightarrow> 'f kernel \<Rightarrow> wait_result option \<times> 'f kernel" where
  "wait4 tid nohang k =
     (case k_current k of
        None \<Rightarrow> (None, k)
      | Some current \<Rightarrow>
          (let target = (if tid \<le> 0 then None else Some (nat tid)) in
           if nohang then
             (case find_zombie_child current target (k_tasks k) of
                None \<Rightarrow> (Some \<lparr>wr_tid = 0, wr_exit_code = 0\<rparr>, k)
              | Some t \<Rightarrow>
                  (Some \<lparr>wr_tid = t, wr_exit_code =
                     (case bt_get (tasks_map (k_tasks k)) t of None \<Rightarrow> 0 | Some task \<Rightarrow> t_exit_code task)\<rparr>, k))
           else (None, k\<lparr>k_tasks := modify_task current (\<lambda>t. t\<lparr>t_status := Waiting\<rparr>) (k_tasks k)\<rparr>)))"

datatype fd_error = NoTask | BadFd | NotReadable | NotWritable | FdIo fs_error

definition file_for_fd :: "u64 \<Rightarrow> 'f kernel \<Rightarrow> (fd_error, 'f) result" where
  "file_for_fd fd k =
     (case k_current k of
        None \<Rightarrow> Err NoTask
      | Some current \<Rightarrow>
          (case bt_get (tasks_map (k_tasks k)) current of
             None \<Rightarrow> Err BadFd
           | Some task \<Rightarrow> if unat fd < length (t_fd_table task) then Ok (t_fd_table task ! unat fd) else Err BadFd))"

section \<open>The scheduler\<close>

definition save_current :: "u64 list \<Rightarrow> u64 \<Rightarrow> u64 \<Rightarrow> u64 \<Rightarrow> 'f kernel \<Rightarrow> 'f kernel" where
  "save_current frame sepc sstatus satp k =
     (case k_current k of
        None \<Rightarrow> k
      | Some current \<Rightarrow>
          k\<lparr>k_tasks := modify_task current
              (\<lambda>t. t\<lparr>t_trap_context := \<lparr>tc_context = frame, tc_satp = satp, tc_sepc = sepc, tc_sstatus = sstatus\<rparr>\<rparr>) (k_tasks k)\<rparr>)"

text \<open>One round of the loop of \<open>switch\<close>: spin on an empty table, panic (\<open>unwrap\<close>) without a runnable task, or resume.\<close>

datatype 'f switch_result = Spin | Panic | Resume trap_context "'f kernel"

definition switch_round :: "'f kernel \<Rightarrow> 'f switch_result" where
  "switch_round k =
     (if tasks_map (k_tasks k) = [] then Spin
      else case select_next k of
             (Inl _, _) \<Rightarrow> Panic
           | (Inr (tid, ctx), k') \<Rightarrow> Resume ctx (k'\<lparr>k_current := Some tid\<rparr>))"

end
