(* ===== verification/Buddy_Correct.thy ===== *)
theory Buddy_Correct
  imports Buddy Lock_Safety
begin

text \<open>
  Correctness of the buddy allocator.  The free lists are abstracted to the function that gives, for
  each order, the set of addresses of its free blocks.  The invariant \<open>buddy_inv\<close>: free blocks are
  aligned to their size, pairwise disjoint, and below the top order no block is free together with
  its buddy (maximal coalescing).  All blocks lie above the first 4 MiB, as RAM does on this platform: the
  buddy of a block there could have address 0, which the lists take for the null pointer.
\<close>

section \<open>Sizes, alignment and buddies\<close>

lemma ilog2_bounds: "0 < n \<Longrightarrow> 2 ^ ilog2 n \<le> n \<and> n < 2 ^ (ilog2 n + 1)"
proof (induction n rule: ilog2.induct)
  case (1 n)
  show ?case
  proof (cases "n < 2")
    case True
    then show ?thesis using 1(2) by (simp add: ilog2.simps [of n])
  next
    case False
    then show ?thesis using 1(1) by (simp add: ilog2.simps [of n]) linarith
  qed
qed

text \<open>\<open>ilog2_ceil\<close> is the least exponent whose power of two covers the size.\<close>

lemma ilog2_ceil_least:
  assumes "ilog2_ceil s = Some n"
  shows "s \<le> 2 ^ k \<longleftrightarrow> n \<le> k"
proof (cases "s = 1")
  case False
  then have s: "1 < s" "n = ilog2 (s - 1) + 1" using assms by (auto simp: ilog2_ceil_def split: if_splits)
  then have b: "2 ^ (n - 1) \<le> s - 1" "s - 1 < 2 ^ n" using ilog2_bounds [of "s - 1"] by auto
  show ?thesis
  proof
    assume "s \<le> 2 ^ k"
    then have "(2::nat) ^ (n - 1) < 2 ^ k" using b(1) s(1) by linarith
    then show "n \<le> k" using s(2) by simp
  next
    assume "n \<le> k"
    then have "(2::nat) ^ n \<le> 2 ^ k" by simp
    then show "s \<le> 2 ^ k" using b(2) s(1) by linarith
  qed
qed (use assms in \<open>simp add: ilog2_ceil_def\<close>)

lemma PAGE_SIZE_LOG_2_eq [simp]: "PAGE_SIZE_LOG_2 = 12"
proof -
  obtain n where n: "ilog2_ceil PAGE_SIZE = Some n" by (auto simp: ilog2_ceil_def PAGE_SIZE_def)
  have "n \<le> 12" "\<not> n \<le> 11" using ilog2_ceil_least [OF n] by (simp_all add: PAGE_SIZE_def flip: ilog2_ceil_least [OF n])
  then show ?thesis using n by (simp add: PAGE_SIZE_LOG_2_def)
qed

lemma order_size_eq: "order_size k = 2 ^ (k + 12)"
  by (simp add: order_size_def push_bit_eq_mult power_add)

lemma order_size_Suc: "order_size (Suc k) = 2 * order_size k"
  by (simp add: order_size_eq power_add)

lemma order_size_dvd: "k \<le> l \<Longrightarrow> order_size k dvd order_size l"
  by (simp add: order_size_eq le_imp_power_dvd)

lemma order_size_mono: "k \<le> l \<Longrightarrow> order_size k \<le> order_size l"
  by (simp add: order_size_eq)

lemma BUDDY_MAX_ORDER_eq [simp]: "BUDDY_MAX_ORDER = 11"
  by (simp add: BUDDY_MAX_ORDER_def)

text \<open>An order returned for a size covers it, unless the size exceeds the largest block.\<close>

lemma size_to_order_least:
  assumes "size_to_order s = Some k"
  shows "k < BUDDY_MAX_ORDER" "s \<le> order_size 10 \<Longrightarrow> s \<le> order_size k"
    "j < k \<Longrightarrow> order_size j < s"
proof -
  obtain n where n: "ilog2_ceil s = Some n" and k: "k = (if n \<le> 12 then 0 else min (n - 12) 10)"
    using assms by (auto simp: size_to_order_def)
  show "k < BUDDY_MAX_ORDER" using k by (auto split: if_splits)
  have le: "s \<le> order_size j \<longleftrightarrow> n \<le> j + 12" for j
    unfolding order_size_eq by (rule ilog2_ceil_least [OF n])
  show "s \<le> order_size 10 \<Longrightarrow> s \<le> order_size k"
    using k le [of 10] le [of k] by (auto split: if_splits)
  show "j < k \<Longrightarrow> order_size j < s"
    using k le [of j] by (auto split: if_splits)
qed

lemma size_to_order_Some: "0 < s \<Longrightarrow> \<exists>k. size_to_order s = Some k"
  by (auto simp: size_to_order_def ilog2_ceil_def)

lemma size_to_order_order_size:
  assumes "k < BUDDY_MAX_ORDER"
  shows "size_to_order (order_size k) = Some k"
proof -
  obtain j where j: "size_to_order (order_size k) = Some j" using size_to_order_Some order_size_pos by blast
  have "order_size k \<le> order_size j" using size_to_order_least(2) [OF j] order_size_mono assms by simp
  moreover have "\<not> k < j" using size_to_order_least(3) [OF j] by blast
  ultimately show ?thesis using j by (auto simp: order_size_eq)
qed

definition aligned :: "nat \<Rightarrow> nat \<Rightarrow> bool" where
  "aligned k a \<longleftrightarrow> order_size k dvd a"

lemma aligned_mono: "aligned l a \<Longrightarrow> k \<le> l \<Longrightarrow> aligned k a"
  unfolding aligned_def using order_size_dvd dvd_trans by blast

lemma aligned_add: "aligned k a \<Longrightarrow> aligned k (a + order_size k)"
  by (simp add: aligned_def)

lemma unset_bit_nat_eq: "bit (a::nat) n \<Longrightarrow> unset_bit n a = a - 2 ^ n"
proof -
  assume "bit a n"
  then have "int (unset_bit n a + 2 ^ n) = int a"
    by (simp add: of_nat_unset_bit_eq unset_bit_eq bit_of_nat_iff_bit)
  then have "unset_bit n a + 2 ^ n = a" by (simp only: of_nat_eq_iff)
  then show ?thesis by simp
qed

lemma buddy_address_eq:
  "buddy_address a k = (if bit a (k + 12) then a - order_size k else a + order_size k)"
proof -
  have "buddy_address a k = flip_bit (k + 12) a"
    by (simp add: buddy_address_def order_size_eq flip_bit_eq_xor push_bit_eq_mult)
  then show ?thesis
    by (simp add: flip_bit_eq_if set_bit_eq unset_bit_nat_eq order_size_eq)
qed

lemma aligned_bit:
  assumes "aligned k a"
  shows "bit a (k + 12) \<Longrightarrow> order_size k \<le> a" "\<not> bit a (k + 12) \<longleftrightarrow> aligned (Suc k) a"
proof -
  obtain q where q: "a = q * 2 ^ (k + 12)" using assms by (auto simp: aligned_def order_size_eq elim: dvdE)
  have b: "bit a (k + 12) \<longleftrightarrow> odd q" by (simp add: q bit_iff_odd)
  show "bit a (k + 12) \<Longrightarrow> order_size k \<le> a" using b by (cases q) (auto simp: q order_size_eq)
  have "aligned (Suc k) a \<longleftrightarrow> 2 * 2 ^ (k + 12) dvd q * 2 ^ (k + 12)"
    unfolding aligned_def q using order_size_Suc [of k] by (simp only: order_size_eq)
  also have "\<dots> \<longleftrightarrow> even q" using nat_mult_dvd_cancel1 [of "2 ^ (k + 12)" 2 q] by (simp only: mult.commute [of _ "2 ^ (k + 12)"] zero_less_power zero_less_numeral)
  finally show "\<not> bit a (k + 12) \<longleftrightarrow> aligned (Suc k) a" using b by simp
qed

section \<open>Blocks\<close>

type_synonym free_blocks = "nat \<Rightarrow> nat set"

definition blk :: "nat \<Rightarrow> nat \<Rightarrow> nat set" where
  "blk k a = {a..<a + order_size k}"

definition free_mem :: "free_blocks \<Rightarrow> nat set" where
  "free_mem F = (\<Union>k. \<Union>a \<in> F k. blk k a)"

lemma blk_self [simp]: "a \<in> blk k a"
  by (simp add: blk_def order_size_pos)

lemma blk_Suc: "blk (Suc k) a = blk k a \<union> blk k (a + order_size k)"
  by (auto simp: blk_def order_size_Suc)

lemma blk_halves_disjoint: "blk k a \<inter> blk k (a + order_size k) = {}"
  by (auto simp: blk_def)

lemma blk_inj: "blk k a = blk l b \<Longrightarrow> k = l \<and> a = b"
proof -
  assume "blk k a = blk l b"
  then have e: "{a..<a + order_size k} = {b..<b + order_size l}" by (simp add: blk_def)
  then have "a = b" "a + order_size k = b + order_size l"
    using order_size_pos [of k] order_size_pos [of l] by (auto simp: Ico_eq_Ico)
  then show ?thesis by (simp add: order_size_eq)
qed

text \<open>Aligned blocks are nested or disjoint.\<close>

lemma blk_nested:
  assumes "aligned k a" "aligned l b" "k \<le> l" "blk k a \<inter> blk l b \<noteq> {}"
  shows "blk k a \<subseteq> blk l b"
proof -
  have al: "order_size k dvd b" using assms(2,3) aligned_mono by (auto simp: aligned_def)
  have sl: "order_size k dvd order_size l" using assms(3) by (rule order_size_dvd)
  obtain x where "x \<in> blk k a" "x \<in> blk l b" using assms(4) by blast
  then have x: "a \<le> x" "x < a + order_size k" "b \<le> x" "x < b + order_size l"
    by (simp_all add: blk_def)
  obtain i where i: "a = order_size k * i" using assms(1) by (auto simp: aligned_def)
  obtain j where j: "b = order_size k * j" using al by auto
  obtain n where n: "order_size l = order_size k * n" using sl by auto
  have "order_size k * j < order_size k * (i + 1)" using x i j by simp
  then have "j \<le> i" by (metis Suc_eq_plus1 less_Suc_eq_le mult_less_cancel1)
  moreover have "order_size k * i < order_size k * (j + n)" using x i j n by (simp add: algebra_simps)
  then have "i + 1 \<le> j + n" by (metis Suc_eq_plus1 Suc_leI mult_less_cancel1)
  then have "order_size k * (i + 1) \<le> order_size k * (j + n)" by (rule mult_le_mono2)
  ultimately show ?thesis using i j n by (auto simp: blk_def algebra_simps mult_le_mono2 intro: order_trans)
qed

definition buddy_of :: "nat \<Rightarrow> nat \<Rightarrow> nat" where
  "buddy_of k a = (if aligned (Suc k) a then a + order_size k else a - order_size k)"

lemma buddy_address_buddy_of: "aligned k a \<Longrightarrow> buddy_address a k = buddy_of k a"
  using aligned_bit(2) [of k a] by (auto simp: buddy_address_eq buddy_of_def)

lemma buddy_of_facts:
  assumes "aligned k a"
  shows "aligned k (buddy_of k a)" "buddy_of k (buddy_of k a) = a" "buddy_of k a \<noteq> a"
    "aligned (Suc k) (min a (buddy_of k a))"
    "blk (Suc k) (min a (buddy_of k a)) = blk k a \<union> blk k (buddy_of k a)"
    "max a (buddy_of k a) = min a (buddy_of k a) + order_size k"
proof -
  have pos: "0 < order_size k" by (rule order_size_pos)
  consider (low) "aligned (Suc k) a" | (high) "\<not> aligned (Suc k) a" "order_size k \<le> a"
    using aligned_bit [OF assms] by blast
  then have "aligned k (buddy_of k a) \<and> buddy_of k (buddy_of k a) = a \<and> buddy_of k a \<noteq> a \<and>
    aligned (Suc k) (min a (buddy_of k a)) \<and>
    blk (Suc k) (min a (buddy_of k a)) = blk k a \<union> blk k (buddy_of k a) \<and>
    max a (buddy_of k a) = min a (buddy_of k a) + order_size k"
  proof cases
    case low
    have "\<not> aligned (Suc k) (a + order_size k)"
    proof
      assume "aligned (Suc k) (a + order_size k)"
      then have "2 * order_size k dvd order_size k"
        using low dvd_diff_nat [of "2 * order_size k" "a + order_size k" a] by (simp add: aligned_def order_size_Suc)
      then show False using pos by (auto dest!: dvd_imp_le)
    qed
    then show ?thesis using low pos assms aligned_add [OF assms] by (simp add: buddy_of_def blk_Suc)
  next
    case high
    obtain i where i: "a = order_size k * i" using assms by (auto simp: aligned_def)
    have "odd i" using high(1) i by (auto simp: aligned_def order_size_Suc elim!: evenE)
    then obtain j where "i = 2 * j + 1" by (rule oddE)
    then have low: "aligned (Suc k) (a - order_size k)" and al: "aligned k (a - order_size k)"
      using i by (auto simp: aligned_def order_size_Suc algebra_simps)
    then show ?thesis using high pos by (auto simp: buddy_of_def blk_Suc)
  qed
  then show "aligned k (buddy_of k a)" "buddy_of k (buddy_of k a) = a" "buddy_of k a \<noteq> a"
    "aligned (Suc k) (min a (buddy_of k a))"
    "blk (Suc k) (min a (buddy_of k a)) = blk k a \<union> blk k (buddy_of k a)"
    "max a (buddy_of k a) = min a (buddy_of k a) + order_size k" by blast+
qed

section \<open>The invariant on the free blocks\<close>

definition buddy_inv :: "free_blocks \<Rightarrow> bool" where
  "buddy_inv F \<longleftrightarrow>
     (\<forall>k a. a \<in> F k \<longrightarrow> k < 11 \<and> order_size 10 < a \<and> aligned k a) \<and>
     (\<forall>k l a b x. a \<in> F k \<longrightarrow> b \<in> F l \<longrightarrow> x \<in> blk k a \<longrightarrow> x \<in> blk l b \<longrightarrow> k = l \<and> a = b) \<and>
     (\<forall>k a. k < 10 \<longrightarrow> a \<in> F k \<longrightarrow> buddy_of k a \<notin> F k)"

text \<open>A block outside the free memory that could be given back: what \<open>alloc\<close> hands out.\<close>

definition held :: "free_blocks \<Rightarrow> nat \<Rightarrow> nat \<Rightarrow> bool" where
  "held F k a \<longleftrightarrow> k < 11 \<and> order_size 10 < a \<and> aligned k a \<and> blk k a \<inter> free_mem F = {}"

lemma buddy_invD:
  assumes "buddy_inv F" "a \<in> F k"
  shows "k < 11" "order_size 10 < a" "aligned k a" "blk k a \<subseteq> free_mem F"
    "b \<in> F l \<Longrightarrow> x \<in> blk k a \<Longrightarrow> x \<in> blk l b \<Longrightarrow> k = l \<and> a = b"
    "k < 10 \<Longrightarrow> buddy_of k a \<notin> F k"
proof -
  show "blk k a \<subseteq> free_mem F" using assms(2) by (auto simp: free_mem_def)
  show "b \<in> F l \<Longrightarrow> x \<in> blk k a \<Longrightarrow> x \<in> blk l b \<Longrightarrow> k = l \<and> a = b"
    using assms unfolding buddy_inv_def by blast
qed (use assms in \<open>simp_all add: buddy_inv_def\<close>)

lemma in_free_mem: "x \<in> free_mem F \<longleftrightarrow> (\<exists>k a. a \<in> F k \<and> x \<in> blk k a)"
  by (auto simp: free_mem_def)

lemma free_mem_insert: "free_mem (F(k := insert a (F k))) = free_mem F \<union> blk k a"
proof (rule set_eqI)
  fix x
  show "x \<in> free_mem (F(k := insert a (F k))) \<longleftrightarrow> x \<in> free_mem F \<union> blk k a"
    unfolding in_free_mem Un_iff by (metis fun_upd_apply insert_iff)
qed

lemma free_mem_remove:
  assumes "buddy_inv F" "a \<in> F k"
  shows "free_mem (F(k := F k - {a})) = free_mem F - blk k a"
proof (rule set_eqI)
  fix x
  show "x \<in> free_mem (F(k := F k - {a})) \<longleftrightarrow> x \<in> free_mem F - blk k a"
    unfolding in_free_mem Diff_iff using buddy_invD(5) [OF assms]
    by (metis Diff_iff fun_upd_apply singletonD singletonI assms(2))
qed

lemma buddy_inv_remove: "buddy_inv F \<Longrightarrow> buddy_inv (F(k := F k - {a}))"
  unfolding buddy_inv_def by (auto split: if_splits)

lemma buddy_inv_insert:
  assumes "buddy_inv F" "held F k a" "k < 10 \<longrightarrow> buddy_of k a \<notin> F k"
  shows "buddy_inv (F(k := insert a (F k)))"
proof -
  have a: "k < 11" "order_size 10 < a" "aligned k a" and dis: "blk k a \<inter> free_mem F = {}"
    using assms(2) by (auto simp: held_def)
  have dis': "blk k a \<inter> blk l b = {}" if "b \<in> F l" for b l
    using dis buddy_invD(4) [OF assms(1) that] by blast
  have bud: "b \<in> F k \<Longrightarrow> buddy_of k b \<noteq> a" if "k < 10" for b
    using buddy_of_facts(2) [of k b] buddy_invD(3) [OF assms(1), of b k] assms(3) that by metis
  show ?thesis unfolding buddy_inv_def
  proof (intro conjI allI impI)
    fix l m b c x
    assume "b \<in> (F(k := insert a (F k))) l" "c \<in> (F(k := insert a (F k))) m" "x \<in> blk l b" "x \<in> blk m c"
    then show "l = m" "b = c"
      using dis' [of b l] dis' [of c m] buddy_invD(5) [OF assms(1), of b l c m x]
      by (auto split: if_splits)
  next
    fix l b assume "l < 10" "b \<in> (F(k := insert a (F k))) l"
    then show "buddy_of l b \<notin> (F(k := insert a (F k))) l"
      using assms(3) bud buddy_invD(6) [OF assms(1)] buddy_of_facts(3) [OF a(3)] by (auto split: if_splits)
  qed (use a buddy_invD [OF assms(1)] in \<open>auto split: if_splits\<close>)
qed

text \<open>Taking a free block out, splitting a held block, and merging a held block with its free buddy.\<close>

lemma held_taken: "buddy_inv F \<Longrightarrow> a \<in> F k \<Longrightarrow> held (F(k := F k - {a})) k a"
  using buddy_invD(1-3) [of F a k] free_mem_remove [of F a k] by (auto simp: held_def)

lemma held_split:
  assumes "buddy_inv F" "held F (Suc k) a" "F k = {}"
  shows "buddy_inv (F(k := {a + order_size k}))" "held (F(k := {a + order_size k})) k a"
    "free_mem (F(k := {a + order_size k})) = free_mem F \<union> blk k (a + order_size k)"
proof -
  have h: "k < 11" "order_size 10 < a" "aligned (Suc k) a" "blk (Suc k) a \<inter> free_mem F = {}"
    using assms(2) by (auto simp: held_def)
  then have al: "aligned k a" using aligned_mono [of "Suc k" a k] by simp
  have "held F k (a + order_size k)"
    using h aligned_add [OF al] by (auto simp: held_def blk_Suc)
  then show "buddy_inv (F(k := {a + order_size k}))"
    using buddy_inv_insert [OF assms(1), of k "a + order_size k"] assms(3) by simp
  show m: "free_mem (F(k := {a + order_size k})) = free_mem F \<union> blk k (a + order_size k)"
    using free_mem_insert [of F k "a + order_size k"] assms(3) by simp
  show "held (F(k := {a + order_size k})) k a"
    using h al blk_halves_disjoint [of k a] unfolding held_def m by (auto simp: blk_Suc)
qed

lemma held_merge:
  assumes "buddy_inv F" "held F k a" "buddy_of k a \<in> F k" "k < 10"
  shows "held (F(k := F k - {buddy_of k a})) (Suc k) (min a (buddy_of k a))"
    "free_mem (F(k := F k - {buddy_of k a})) \<union> blk (Suc k) (min a (buddy_of k a)) = free_mem F \<union> blk k a"
proof -
  have h: "order_size 10 < a" "aligned k a" "blk k a \<inter> free_mem F = {}" using assms(2) by (auto simp: held_def)
  note m = free_mem_remove [OF assms(1,3)] and bf = buddy_of_facts [OF h(2)]
  show "held (F(k := F k - {buddy_of k a})) (Suc k) (min a (buddy_of k a))"
    using h bf(4,5) assms(4) buddy_invD(2) [OF assms(1,3)] unfolding held_def m by (auto simp: min_def)
  show "free_mem (F(k := F k - {buddy_of k a})) \<union> blk (Suc k) (min a (buddy_of k a)) = free_mem F \<union> blk k a"
    using bf(5) buddy_invD(4) [OF assms(1,3)] unfolding m by blast
qed

section \<open>The free lists represent the free blocks\<close>

definition bud_rep :: "buddy_state \<Rightarrow> free_blocks \<Rightarrow> bool" where
  "bud_rep st F \<longleftrightarrow>
     (\<exists>ls. length ls = 11 \<and> list_array il_list (fst st) (free_list (snd st)) ls \<and>
        (\<forall>k. F k = (if k < 11 then set (ls ! k) else {})))"

lemma bud_rep_new: "bud_rep (m, buddy_new) (\<lambda>_. {})"
  unfolding bud_rep_def buddy_new_def using il.array_new [of m 11]
  by (auto intro!: exI [of _ "replicate 11 []"])

lemma bud_rep_length: "bud_rep st F \<Longrightarrow> length (free_list (snd st)) = 11"
  by (auto simp: bud_rep_def list_array_def)

text \<open>The allocator depends on the free blocks' first words only.\<close>

lemma bud_rep_frame:
  assumes "bud_rep (m, b) F" "\<And>k a. a \<in> F k \<Longrightarrow> m' a = m a"
  shows "bud_rep (m', b) F"
proof -
  obtain ls where ls: "length ls = 11" "list_array il_list m (free_list b) ls"
    "\<And>k. F k = (if k < 11 then set (ls ! k) else {})"
    using assms(1) by (auto simp: bud_rep_def)
  have "m' a = m a" if a: "a \<in> array_nodes ls" for a
  proof -
    obtain i where "i < 11" "a \<in> set (ls ! i)" using a ls(1) by (auto simp: array_nodes_nth)
    then show ?thesis using assms(2) [of a i] ls(3) [of i] by simp
  qed
  then have "list_array il_list m' (free_list b) ls" by (rule il.array_frame [OF ls(2)])
  then show ?thesis using ls(1,3) by (auto simp: bud_rep_def)
qed

lemma bud_rep_push:
  assumes "bud_rep st F" "k < 11" "a \<noteq> 0" "\<And>l. a \<notin> F l"
  shows "bud_rep (fl_push k a st) (F(k := insert a (F k)))"
proof -
  obtain m b where st: "st = (m, b)" by force
  obtain ls where ls: "length ls = 11" "list_array il_list m (free_list b) ls"
    "\<And>k. F k = (if k < 11 then set (ls ! k) else {})"
    using assms(1) st by (auto simp: bud_rep_def)
  obtain m' h where p: "il_push m (free_list b ! k) a = (m', h)" by force
  have "a \<notin> array_nodes ls"
  proof
    assume "a \<in> array_nodes ls"
    then obtain i where "i < 11" "a \<in> set (ls ! i)" using ls(1) by (auto simp: array_nodes_nth)
    then show False using assms(4) [of i] ls(3) [of i] by simp
  qed
  then have "list_array il_list m' ((free_list b)[k := h]) (ls[k := a # ls ! k])"
    using il.array_push [OF ls(2) _ assms(3) _ p] assms(2) ls(1) by simp
  then show ?thesis using st p ls(1,3) assms(2)
    by (auto simp: bud_rep_def fl_push_def intro!: exI [of _ "ls[k := a # ls ! k]"])
qed

lemma bud_rep_empty:
  assumes "bud_rep (m, b) F" "k < 11"
  shows "il_is_empty (free_list b ! k) \<longleftrightarrow> F k = {}"
proof -
  obtain ls where ls: "length ls = 11" "list_array il_list m (free_list b) ls" "F k = set (ls ! k)"
    using assms by (auto simp: bud_rep_def)
  then have "il_list m (free_list b ! k) (ls ! k)" using assms(2) by (simp add: list_array_def)
  then show ?thesis using il_is_empty_iff ls(3) by auto
qed

lemma bud_rep_pop:
  assumes "bud_rep (m, b) F" "k < 11" "F k \<noteq> {}"
  shows "\<exists>a h. il_pop m (free_list b ! k) = Some (a, h) \<and> a \<in> F k \<and>
    bud_rep (m, b\<lparr>free_list := (free_list b)[k := h]\<rparr>) (F(k := F k - {a}))"
proof -
  obtain ls where ls: "length ls = 11" "list_array il_list m (free_list b) ls"
    "\<And>k. F k = (if k < 11 then set (ls ! k) else {})"
    using assms(1) by (auto simp: bud_rep_def)
  then obtain a xs where xs: "ls ! k = a # xs" using assms(2,3) by (cases "ls ! k") auto
  then obtain h where h: "il_pop m (free_list b ! k) = Some (a, h)"
    "list_array il_list m ((free_list b)[k := h]) (ls[k := xs])"
    using il.array_pop [OF ls(2), of k a xs] assms(2) ls(1) by auto
  have "distinct (a # xs)"
    using ls(1,2) assms(2) xs il.rep_distinct unfolding list_array_def by metis
  then have "bud_rep (m, b\<lparr>free_list := (free_list b)[k := h]\<rparr>) (F(k := F k - {a}))"
    using h(2) ls(1,3) assms(2) xs by (auto simp: bud_rep_def intro!: exI [of _ "ls[k := xs]"])
  then show ?thesis using h(1) xs ls(3) assms(2) by auto
qed

lemma bud_rep_remove:
  assumes "bud_rep (m, b) F" "k < 11" "a \<noteq> 0"
  shows "\<exists>m' h. il_remove m (free_list b ! k) a = Some (m', h, a \<in> F k) \<and>
    bud_rep (m', b\<lparr>free_list := (free_list b)[k := h]\<rparr>) (F(k := F k - {a}))"
proof -
  obtain ls where ls: "length ls = 11" "list_array il_list m (free_list b) ls"
    "\<And>k. F k = (if k < 11 then set (ls ! k) else {})"
    using assms(1) by (auto simp: bud_rep_def)
  obtain m' h where r: "il_remove m (free_list b ! k) a = Some (m', h, a \<in> set (ls ! k))"
    "list_array il_list m' ((free_list b)[k := h]) (ls[k := remove1 a (ls ! k)])"
    using il.array_remove [OF ls(2), of k a] assms(2,3) ls(1) by auto
  have "distinct (ls ! k)"
    using ls(1,2) assms(2) il.rep_distinct unfolding list_array_def by metis
  then have "bud_rep (m', b\<lparr>free_list := (free_list b)[k := h]\<rparr>) (F(k := F k - {a}))"
    using r(2) ls(1,3) assms(2)
    by (auto simp: bud_rep_def intro!: exI [of _ "ls[k := remove1 a (ls ! k)]"])
  then show ?thesis using r(1) ls(3) assms(2) by auto
qed

section \<open>Allocation\<close>

lemma held_not_free: "held F k a \<Longrightarrow> a \<notin> F l"
  using blk_self [of a k] blk_self [of a l] unfolding held_def by (metis IntI empty_iff in_free_mem)

lemma split_chunk_correct:
  assumes "bud_rep st F" "buddy_inv F" "held F i chunk" "order \<le> i"
    and "\<And>k. order \<le> k \<Longrightarrow> k < i \<Longrightarrow> F k = {}"
  shows "\<exists>F'. bud_rep (split_chunk (rev [order..<i]) chunk st) F' \<and> buddy_inv F' \<and>
    held F' order chunk \<and> free_mem F' \<union> blk order chunk = free_mem F \<union> blk i chunk"
  using assms
proof (induction i arbitrary: st F)
  case (Suc i)
  show ?case
  proof (cases "order = Suc i")
    case False
    then have oi: "order \<le> i" using Suc.prems(4) by simp
    have empty: "F i = {}" using Suc.prems(5) oi by simp
    note sp = held_split [OF Suc.prems(2,3) empty]
    let ?c = "chunk + order_size i"
    have fresh: "?c \<notin> F l" for l
    proof
      assume "?c \<in> F l"
      then have "?c \<in> free_mem F" by (auto simp: in_free_mem intro: blk_self)
      moreover have "?c \<in> blk (Suc i) chunk" by (simp add: blk_Suc)
      ultimately show False using Suc.prems(3) unfolding held_def by blast
    qed
    have "i < 11" using Suc.prems(3) by (simp add: held_def)
    then have rep: "bud_rep (fl_push i ?c st) (F(i := {?c}))"
      using bud_rep_push [OF Suc.prems(1), of i ?c] fresh order_size_pos [of i] empty by simp
    have "(F(i := {?c})) k = {}" if "order \<le> k" "k < i" for k using Suc.prems(5) [of k] that by simp
    from Suc.IH [OF rep sp(1,2) oi this]
    obtain F' where "bud_rep (split_chunk (rev [order..<i]) chunk (fl_push i ?c st)) F'" "buddy_inv F'"
      "held F' order chunk" "free_mem F' \<union> blk order chunk = free_mem (F(i := {?c})) \<union> blk i chunk"
      by blast
    then show ?thesis using oi sp(3) by (auto simp: blk_Suc)
  qed (use Suc.prems in auto)
qed auto

text \<open>Every order from \<open>order\<close> on is empty when \<open>alloc\<close> fails.\<close>

lemma alloc_loop_correct:
  assumes "bud_rep st F" "buddy_inv F" "order \<le> i" "i \<le> 11"
    and "\<And>k. order \<le> k \<Longrightarrow> k < i \<Longrightarrow> F k = {}"
  shows "case alloc_loop [i..<11] order st of
      (None, st') \<Rightarrow> st' = st \<and> (\<forall>k \<ge> order. F k = {})
    | (Some a, st') \<Rightarrow> \<exists>F'. bud_rep st' F' \<and> buddy_inv F' \<and> held F' order a \<and>
        free_mem F' \<union> blk order a = free_mem F"
  using assms(3-5)
proof (induction "11 - i" arbitrary: i)
  case 0
  have "F k = {}" if "order \<le> k" for k
    using 0 that assms(1) by (cases "k < 11") (auto simp: bud_rep_def)
  then show ?case using 0 by simp
next
  case (Suc n)
  obtain m b where st: "st = (m, b)" by force
  have i: "i < 11" and upt: "[i..<11] = i # [Suc i..<11]" using Suc.hyps(2) by (simp_all add: upt_conv_Cons)
  show ?case
  proof (cases "F i = {}")
    case True
    then have "alloc_loop [i..<11] order st = alloc_loop [Suc i..<11] order st"
      using bud_rep_empty [of m b F i] assms(1) i st upt by simp
    moreover have "F k = {}" if "order \<le> k" "k < Suc i" for k
      using that True Suc.prems(3) [of k] by (cases "k = i") auto
    ultimately show ?thesis using Suc.hyps(1) [of "Suc i"] Suc.hyps(2) Suc.prems(1) i by simp
  next
    case False
    then obtain a h where p: "il_pop m (free_list b ! i) = Some (a, h)" "a \<in> F i"
      "bud_rep (m, b\<lparr>free_list := (free_list b)[i := h]\<rparr>) (F(i := F i - {a}))"
      using bud_rep_pop [of m b F i] assms(1) st i by blast
    note split = split_chunk_correct [OF p(3) buddy_inv_remove [OF assms(2)] held_taken [OF assms(2) p(2)] Suc.prems(1)]
    obtain F' where "bud_rep (split_chunk (rev [order..<i]) a (m, b\<lparr>free_list := (free_list b)[i := h]\<rparr>)) F'"
      "buddy_inv F'" "held F' order a"
      "free_mem F' \<union> blk order a = free_mem (F(i := F i - {a})) \<union> blk i a"
      using split Suc.prems(3) by auto
    moreover have "free_mem (F(i := F i - {a})) \<union> blk i a = free_mem F"
      using free_mem_remove [OF assms(2) p(2)] buddy_invD(4) [OF assms(2) p(2)] by blast
    moreover have "\<not> il_is_empty (free_list b ! i)"
      using bud_rep_empty [of m b F i] assms(1) i st False by simp
    ultimately show ?thesis using upt st p(1) by auto
  qed
qed

lemma buddy_alloc_cases:
  assumes "bud_rep st F" "buddy_inv F" "order < 11"
  obtains (None) "buddy_alloc order st = (None, st)" "\<And>k. order \<le> k \<Longrightarrow> F k = {}"
  | (Some) a st' F' where "buddy_alloc order st = (Some a, st')" "bud_rep st' F'" "buddy_inv F'"
      "held F' order a" "free_mem F' \<union> blk order a = free_mem F"
proof -
  obtain r st' where r: "alloc_loop [order..<11] order st = (r, st')" by (meson surj_pair)
  then have b: "buddy_alloc order st = (r, st')"
    using bud_rep_length [OF assms(1)] by (simp add: buddy_alloc_def)
  have "case (r, st') of
      (None, st') \<Rightarrow> st' = st \<and> (\<forall>k \<ge> order. F k = {})
    | (Some a, st') \<Rightarrow> \<exists>F'. bud_rep st' F' \<and> buddy_inv F' \<and> held F' order a \<and>
        free_mem F' \<union> blk order a = free_mem F"
    using alloc_loop_correct [OF assms(1,2), of order order] assms(3) r by simp
  then show thesis using b None Some by (cases r) auto
qed

section \<open>Deallocation\<close>

text \<open>
  The loop merges as long as the buddy is free.  It ends with a block to be pushed on the list of its
  order, or, when it finds the buddy of a top-order block free, with that buddy unlinked: then \<open>lost\<close> is the
  upper of the two blocks, which the push does not give back.
\<close>

definition dealloc_result :: "free_blocks \<Rightarrow> nat set \<Rightarrow> nat \<Rightarrow> nat \<Rightarrow> nat set \<Rightarrow> bool" where
  "dealloc_result F mem k p lost \<longleftrightarrow>
     buddy_inv F \<and> held F k p \<and> (k < 10 \<longrightarrow> buddy_of k p \<notin> F k) \<and>
     free_mem F \<union> blk k p = mem - lost \<and>
     (lost = {} \<or> k = 10 \<and> aligned 11 p \<and> lost = blk 10 (p + order_size 10) \<and> lost \<subseteq> mem)"

lemma dealloc_result_top:
  assumes "buddy_inv F" "held F 10 p" "buddy_of 10 p \<in> F 10"
  defines "q \<equiv> buddy_of 10 p"
  shows "dealloc_result (F(10 := F 10 - {q})) (free_mem F \<union> blk 10 p) 10 (min p q)
    (blk 10 (min p q + order_size 10))"
proof -
  let ?F = "F(10 := F 10 - {q})"
  have h: "order_size 10 < p" "aligned 10 p" "blk 10 p \<inter> free_mem F = {}" using assms(2) by (auto simp: held_def)
  note bf = buddy_of_facts [OF h(2), folded q_def] and qF = assms(3) [folded q_def]
  note m = free_mem_remove [OF assms(1) qF]
  have q: "blk 10 q \<subseteq> free_mem F" "order_size 10 < q" using buddy_invD(2,4) [OF assms(1) qF] by auto
  have dis: "blk 10 p \<inter> blk 10 q = {}" using q(1) h(3) by blast
  have lost: "blk 10 (min p q + order_size 10) = (if p \<le> q then blk 10 q else blk 10 p)"
    using bf(6) by (auto simp: min_def max_def split: if_splits)
  have "held ?F 10 (min p q)" using h q bf(1) dis unfolding held_def m by (auto simp: min_def)
  moreover have "free_mem ?F \<union> blk 10 (min p q) = (free_mem F \<union> blk 10 p) - blk 10 (min p q + order_size 10)"
    using dis h(3) q(1) unfolding m lost by (auto simp: min_def)
  moreover have "blk 10 (min p q + order_size 10) \<subseteq> free_mem F \<union> blk 10 p" using q(1) unfolding lost by auto
  ultimately show ?thesis using buddy_inv_remove [OF assms(1)] bf(4) by (simp add: dealloc_result_def)
qed

lemma dealloc_loop_correct:
  assumes "bud_rep st F" "buddy_inv F" "held F k p" "free_mem F \<union> blk k p = mem"
  shows "\<exists>p' k' st' F' lost. dealloc_loop [k..<11] p k st = Some (p', k', st') \<and>
    bud_rep st' F' \<and> dealloc_result F' mem k' p' lost \<and>
    (lost \<noteq> {} \<longrightarrow> blk k p \<subseteq> blk 11 p') \<and> (buddy_of k p \<notin> F k \<longrightarrow> lost = {})"
  using assms
proof (induction "11 - k" arbitrary: k p st F)
  case (Suc n)
  obtain m b where st: "st = (m, b)" by force
  have h: "k < 11" "order_size 10 < p" "aligned k p" "blk k p \<inter> free_mem F = {}"
    using Suc.prems(3) by (auto simp: held_def)
  have upt: "[k..<11] = k # [Suc k..<11]" using h(1) by (simp add: upt_conv_Cons)
  define q where "q = buddy_of k p"
  note bf = buddy_of_facts [OF h(3), folded q_def]
  have ba: "buddy_address p k = q" using buddy_address_buddy_of [OF h(3)] by (simp add: q_def)
  have q0: "q \<noteq> 0" using h(1,2) order_size_mono [of k 10] by (auto simp: q_def buddy_of_def)
  then obtain m' h' where r: "il_remove m (free_list b ! k) q = Some (m', h', q \<in> F k)"
    "bud_rep (m', b\<lparr>free_list := (free_list b)[k := h']\<rparr>) (F(k := F k - {q}))"
    using bud_rep_remove [of m b F k q] Suc.prems(1) st h(1) by blast
  let ?st = "(m', b\<lparr>free_list := (free_list b)[k := h']\<rparr>)" and ?F = "F(k := F k - {q})" and ?min = "min p q"
  have minE: "(if q < p then q else p) = ?min" by simp
  consider (absent) "q \<notin> F k" | (merge) "q \<in> F k" "k < 10" | (top) "q \<in> F k" "k = 10"
    using h(1) by linarith
  then show ?case
  proof cases
    case absent
    then have "dealloc_loop [k..<11] p k st = Some (p, k, ?st)" using upt st r(1) ba by simp
    moreover have "dealloc_result F mem k p {}"
      using Suc.prems absent by (simp add: dealloc_result_def q_def)
    ultimately show ?thesis using r(2) absent by (auto intro!: exI)
  next
    case merge
    have eq: "dealloc_loop [k..<11] p k st = dealloc_loop [Suc k..<11] ?min (Suc k) ?st"
      using upt st r(1) ba merge minE by simp
    note hm = held_merge [OF Suc.prems(2,3), folded q_def, OF merge]
    have "\<exists>p' k' st' F' lost. dealloc_loop [Suc k..<11] ?min (Suc k) ?st = Some (p', k', st') \<and>
      bud_rep st' F' \<and> dealloc_result F' mem k' p' lost \<and>
      (lost \<noteq> {} \<longrightarrow> blk (Suc k) ?min \<subseteq> blk 11 p') \<and> (buddy_of (Suc k) ?min \<notin> ?F (Suc k) \<longrightarrow> lost = {})"
      using Suc.hyps(1) [OF _ r(2) buddy_inv_remove [OF Suc.prems(2)] hm(1)] Suc.hyps(2) hm(2) Suc.prems(4) by simp
    then obtain p' k' st' F' lost where "dealloc_loop [Suc k..<11] ?min (Suc k) ?st = Some (p', k', st')"
      "bud_rep st' F'" "dealloc_result F' mem k' p' lost" "lost \<noteq> {} \<longrightarrow> blk (Suc k) ?min \<subseteq> blk 11 p'"
      by blast
    moreover have "blk k p \<subseteq> blk (Suc k) ?min" using bf(5) by blast
    ultimately show ?thesis unfolding eq using merge(1) q_def by blast
  next
    case top
    have eq: "dealloc_loop [k..<11] p k st = Some (?min, 10, ?st)" using upt st r(1) ba top minE by simp
    have "dealloc_result ?F mem 10 ?min (blk 10 (?min + order_size 10))"
      using dealloc_result_top [of F p] Suc.prems(2-4) top unfolding q_def by simp
    moreover have "blk k p \<subseteq> blk 11 ?min" using bf(5) top(2) by auto
    ultimately show ?thesis using eq r(2) top(1) q_def by blast
  qed
qed (simp add: held_def)

lemma buddy_dealloc_cases:
  assumes "bud_rep st F" "buddy_inv F" "held F k p"
  obtains st' F' q lost where "buddy_dealloc p k st = Some st'" "bud_rep st' F'" "buddy_inv F'"
    "free_mem F' = (free_mem F \<union> blk k p) - lost"
    "lost = {} \<or> aligned 11 q \<and> blk k p \<subseteq> blk 11 q \<and> blk 11 q \<subseteq> free_mem F \<union> blk k p \<and>
      lost = blk 10 (q + order_size 10)"
proof -
  obtain p' k' st1 F1 lost where l: "dealloc_loop [k..<11] p k st = Some (p', k', st1)" "bud_rep st1 F1"
    "dealloc_result F1 (free_mem F \<union> blk k p) k' p' lost" "lost \<noteq> {} \<longrightarrow> blk k p \<subseteq> blk 11 p'"
    using dealloc_loop_correct [OF assms refl] by blast
  have d: "buddy_inv F1" "held F1 k' p'" "k' < 10 \<longrightarrow> buddy_of k' p' \<notin> F1 k'"
    "free_mem F1 \<union> blk k' p' = (free_mem F \<union> blk k p) - lost"
    "lost = {} \<or> k' = 10 \<and> aligned 11 p' \<and> lost = blk 10 (p' + order_size 10) \<and> lost \<subseteq> free_mem F \<union> blk k p"
    using l(3) by (auto simp: dealloc_result_def)
  have k': "k' < 11" "p' \<noteq> 0" using d(2) by (auto simp: held_def)
  let ?F = "F1(k' := insert p' (F1 k'))"
  have "buddy_dealloc p k st = Some (fl_push k' p' st1)"
    using l(1) k' bud_rep_length [OF l(2)] by (simp add: buddy_dealloc_def)
  moreover have "bud_rep (fl_push k' p' st1) ?F"
    using bud_rep_push [OF l(2) k'] held_not_free [OF d(2)] by blast
  moreover have "buddy_inv ?F" using buddy_inv_insert [OF d(1,2,3)] .
  moreover have "free_mem ?F = (free_mem F \<union> blk k p) - lost" using d(4) free_mem_insert by simp
  moreover have "lost = {} \<or> aligned 11 p' \<and> blk k p \<subseteq> blk 11 p' \<and> blk 11 p' \<subseteq> free_mem F \<union> blk k p \<and>
      lost = blk 10 (p' + order_size 10)"
    using d(4,5) l(4) blk_Suc [of 10 p'] by auto
  ultimately show thesis using that by blast
qed

end
