(* ===== verification/Buddy_Props.thy ===== *)
theory Buddy_Props
  imports Buddy_Correct
begin

text \<open>
  What the buddy allocator promises: the initial memory, allocation and its completeness, deallocation and
  the memory it loses at the top order, and the separation of live blocks over any history.
\<close>

section \<open>Adding the initial range\<close>

lemma buddy_inv_empty: "buddy_inv (\<lambda>_. {})" "free_mem (\<lambda>_. {}) = {}"
  by (simp_all add: buddy_inv_def free_mem_def)

lemma push_chunks_correct:
  assumes "bud_rep st F" "buddy_inv F" "free_mem F \<subseteq> {..<cur}" "aligned k cur" "order_size 10 < cur" "k < 11"
    and "k = 10 \<or> n \<le> 1 \<and> F k = {}"
  shows "\<exists>st' F'. push_chunks n k cur st = (cur + n * order_size k, st') \<and> bud_rep st' F' \<and> buddy_inv F' \<and>
    free_mem F' = free_mem F \<union> {cur..<cur + n * order_size k} \<and> (\<forall>j. j \<noteq> k \<longrightarrow> F' j = F j)"
  using assms
proof (induction n arbitrary: cur st F)
  case (Suc n)
  have held: "held F k cur" using Suc.prems(3-6) by (auto simp: held_def blk_def)
  let ?F = "F(k := insert cur (F k))"
  have rep: "bud_rep (fl_push k cur st) ?F"
    using bud_rep_push [OF Suc.prems(1,6)] held_not_free [OF held] Suc.prems(5) by simp
  have inv: "buddy_inv ?F"
    using buddy_inv_insert [OF Suc.prems(2) held] Suc.prems(7) by auto
  have mem: "free_mem ?F = free_mem F \<union> blk k cur" by (rule free_mem_insert)
  show ?case
  proof (cases "k = 10")
    case True
    have sub: "free_mem ?F \<subseteq> {..<cur + order_size k}" using mem Suc.prems(3) by (auto simp: blk_def)
    have lt: "order_size 10 < cur + order_size k" using Suc.prems(5) by simp
    obtain st' F' where r: "push_chunks n k (cur + order_size k) (fl_push k cur st) = (cur + order_size k + n * order_size k, st')"
      "bud_rep st' F'" "buddy_inv F'"
      "free_mem F' = free_mem ?F \<union> {cur + order_size k..<cur + order_size k + n * order_size k}"
      "\<forall>j. j \<noteq> k \<longrightarrow> F' j = ?F j"
      using Suc.IH [OF rep inv sub aligned_add [OF Suc.prems(4)] lt Suc.prems(6) disjI1 [OF True]] by blast
    have "free_mem F' = free_mem F \<union> {cur..<cur + Suc n * order_size k}"
      unfolding r(4) mem blk_def by auto
    then show ?thesis using r by (auto simp: add.assoc)
  next
    case False
    then have "n = 0" using Suc.prems(7) by simp
    then show ?thesis using rep inv mem by (auto simp: blk_def)
  qed
qed auto

lemma pages_add:
  assumes "s * order_size k \<le> e"
  shows "s * order_size k + (e - s * order_size k) div 4096 * 4096 = e div 4096 * (4096::nat)"
proof -
  obtain c where "order_size k = 4096 * c" using order_size_dvd [of 0 k] by (auto simp: order_size_eq)
  then obtain d where d: "s * order_size k = 4096 * d" by (metis mult.left_commute)
  then have "e div 4096 = d + (e - 4096 * d) div 4096"
    using assms by (metis le_add_diff_inverse mult.commute div_mult_self2 add.commute zero_neq_numeral)
  then show ?thesis using d by (simp add: algebra_simps)
qed

lemma add_frame_loop_correct:
  assumes "bud_rep st F" "buddy_inv F" "free_mem F \<subseteq> {..<cur}" "aligned k cur" "order_size 10 < cur" "k \<le> 10"
    and "\<And>j. j < k \<Longrightarrow> F j = {}" "e - cur < order_size k"
  shows "\<exists>F'. bud_rep (add_frame_loop (rev [0..<k]) cur e st) F' \<and> buddy_inv F' \<and>
    free_mem F' = free_mem F \<union> {cur..<cur + (e - cur) div 4096 * 4096}"
  using assms
proof (induction k arbitrary: cur st F)
  case 0
  then have "(e - cur) div 4096 = 0" by (simp add: order_size_eq)
  then show ?case using 0 by (auto intro!: exI [of _ F])
next
  case (Suc k)
  show ?case
  proof (cases "cur \<ge> e")
    case True
    then show ?thesis using Suc.prems by (auto intro!: exI [of _ F])
  next
    case False
    define n where "n = (e - cur) div order_size k"
    have n: "n \<le> 1" unfolding n_def using Suc.prems(8) order_size_Suc [of k]
      by (metis One_nat_def less_Suc_eq_le less_mult_imp_div_less numeral_2_eq_2)
    have al: "aligned k cur" using aligned_mono [OF Suc.prems(4)] by simp
    have k: "k < 11" "k = 10 \<or> n \<le> 1 \<and> F k = {}" using Suc.prems(6,7) n by simp_all
    obtain st1 F1 where p: "push_chunks n k cur st = (cur + n * order_size k, st1)" "bud_rep st1 F1" "buddy_inv F1"
      "free_mem F1 = free_mem F \<union> {cur..<cur + n * order_size k}" "\<forall>j. j \<noteq> k \<longrightarrow> F1 j = F j"
      using push_chunks_correct [OF Suc.prems(1-3) al Suc.prems(5) k] by blast
    let ?cur = "cur + n * order_size k"
    have le: "n * order_size k \<le> e - cur" unfolding n_def by simp
    have sub: "free_mem F1 \<subseteq> {..<?cur}" using p(4) Suc.prems(3) by auto
    have al1: "aligned k ?cur" using al by (simp add: aligned_def)
    have lt: "order_size 10 < ?cur" using Suc.prems(5) by simp
    have empty: "F1 j = {}" if "j < k" for j using that p(5) Suc.prems(7) by simp
    have "e - ?cur = (e - cur) mod order_size k" unfolding n_def by (metis diff_diff_left minus_div_mult_eq_mod)
    then have small: "e - ?cur < order_size k" by (simp add: order_size_pos)
    obtain F' where r: "bud_rep (add_frame_loop (rev [0..<k]) ?cur e st1) F'" "buddy_inv F'"
      "free_mem F' = free_mem F1 \<union> {?cur..<?cur + (e - ?cur) div 4096 * 4096}"
      using Suc.IH [OF p(2,3) sub al1 lt _ empty small] Suc.prems(6) by auto
    have "?cur + (e - ?cur) div 4096 * 4096 = cur + (e - cur) div 4096 * 4096"
      using pages_add [OF le] by simp
    then have "free_mem F' = free_mem F \<union> {cur..<cur + (e - cur) div 4096 * 4096}"
      using r(3) p(4) by auto
    moreover have "add_frame_loop (rev [0..<Suc k]) cur e st = add_frame_loop (rev [0..<k]) ?cur e st1"
      using False p(1) by (simp add: n_def Let_def)
    ultimately show ?thesis using r(1,2) by auto
  qed
qed

lemma add_frame_correct:
  assumes "aligned 10 s" "order_size 10 < s"
  shows "\<exists>F'. bud_rep (add_frame s e (m, buddy_new)) F' \<and> buddy_inv F' \<and>
    free_mem F' = {s..<s + (e - s) div 4096 * 4096}"
proof (cases "s \<ge> e")
  case True
  have "rev [0..<11] = 10 # rev [0..<10]" by (simp add: upt_rec)
  then show ?thesis using True bud_rep_new [of m] buddy_inv_empty
    by (auto simp: add_frame_def intro!: exI [of _ "\<lambda>_. {}"])
next
  case False
  have upt: "rev [0..<11] = 10 # rev [0..<10]" by (simp add: upt_rec)
  define n where "n = (e - s) div order_size 10"
  obtain st1 F1 where p: "push_chunks n 10 s (m, buddy_new) = (s + n * order_size 10, st1)" "bud_rep st1 F1" "buddy_inv F1"
    "free_mem F1 = {s..<s + n * order_size 10}" "\<forall>j. j \<noteq> 10 \<longrightarrow> F1 j = {}"
    using push_chunks_correct [OF bud_rep_new buddy_inv_empty(1) _ assms, of n m] buddy_inv_empty(2) by auto
  let ?cur = "s + n * order_size 10"
  have le: "n * order_size 10 \<le> e - s" unfolding n_def by simp
  have al1: "aligned 10 ?cur" using assms(1) by (simp add: aligned_def)
  have sub: "free_mem F1 \<subseteq> {..<?cur}" and lt: "order_size 10 < ?cur" using p(4) assms(2) by auto
  have "e - ?cur = (e - s) mod order_size 10" unfolding n_def by (metis diff_diff_left minus_div_mult_eq_mod)
  then have small: "e - ?cur < order_size 10" by (simp add: order_size_pos)
  obtain F' where r: "bud_rep (add_frame_loop (rev [0..<10]) ?cur e st1) F'" "buddy_inv F'"
    "free_mem F' = free_mem F1 \<union> {?cur..<?cur + (e - ?cur) div 4096 * 4096}"
    using add_frame_loop_correct [OF p(2,3) sub al1 lt _ _ small] p(5) by auto
  have "?cur + (e - ?cur) div 4096 * 4096 = s + (e - s) div 4096 * 4096" using pages_add [OF le] by simp
  then have "free_mem F' = {s..<s + (e - s) div 4096 * 4096}" using r(3) p(4) by auto
  moreover have "add_frame s e (m, buddy_new) = add_frame_loop (rev [0..<10]) ?cur e st1"
    using False p(1) upt by (simp add: add_frame_def n_def Let_def del: upt_Suc)
  ultimately show ?thesis using r(1,2) by auto
qed

text \<open>\<open>align\<close> rounds up to a multiple of a power of two.\<close>

lemma align_eq:
  assumes "addr + 2 ^ n - 1 < 2 ^ 64" "n < 64"
  shows "align addr (2 ^ n) = (addr + 2 ^ n - 1) div 2 ^ n * 2 ^ n"
proof -
  have "(of_nat (2 ^ n - 1) :: u64) = mask n" by (simp add: mask_eq_decr_exp of_nat_diff)
  then have "align addr (2 ^ n) = unat (of_nat (addr + 2 ^ n - 1) :: u64) div 2 ^ n * 2 ^ n"
    unfolding align_def by (simp only: unat_and_not_mask)
  then show ?thesis using assms(1) by (simp add: unat_of_nat_small)
qed

lemma align_bounds:
  assumes "addr + 2 ^ n - 1 < 2 ^ 64" "n < 64"
  shows "addr \<le> align addr (2 ^ n)" "align addr (2 ^ n) < addr + 2 ^ n" "2 ^ n dvd align addr (2 ^ n)"
proof -
  have eq: "align addr (2 ^ n) = (addr + 2 ^ n - 1) - (addr + 2 ^ n - 1) mod 2 ^ n"
    using align_eq [OF assms] by (simp add: minus_mod_eq_div_mult)
  have "(addr + 2 ^ n - 1) mod 2 ^ n < 2 ^ n" by simp
  then show "addr \<le> align addr (2 ^ n)" using eq by linarith
  have "(2::nat) ^ n > 0" by simp
  then show "align addr (2 ^ n) < addr + 2 ^ n" using eq by linarith
  show "2 ^ n dvd align addr (2 ^ n)" using align_eq [OF assms] by simp
qed

section \<open>Completeness of allocation\<close>

text \<open>
  Because of coalescing, an aligned block of free memory of any order lies inside one free block of at
  least that order.
\<close>

lemma free_page_block:
  assumes "buddy_inv F" "aligned 0 a" "blk 0 a \<subseteq> free_mem F"
  shows "\<exists>l b. b \<in> F l \<and> blk 0 a \<subseteq> blk l b"
proof -
  have "a \<in> free_mem F" using assms(3) blk_self by blast
  then obtain l b where b: "b \<in> F l" "a \<in> blk l b" by (auto simp: in_free_mem)
  have "blk 0 a \<inter> blk l b \<noteq> {}" using b(2) blk_self by blast
  then have "blk 0 a \<subseteq> blk l b" by (rule blk_nested [OF assms(2) buddy_invD(3) [OF assms(1) b(1)] le0])
  then show ?thesis using b(1) by blast
qed

lemma blk_subset_order:
  assumes "blk k a \<subseteq> blk l b"
  shows "k \<le> l" "k = l \<Longrightarrow> a = b"
proof -
  have "b \<le> a" "a + order_size k \<le> b + order_size l"
    using assms order_size_pos [of k] by (auto simp: blk_def atLeastLessThan_subset_iff)
  then have "order_size k \<le> order_size l" "k = l \<Longrightarrow> a = b" by auto
  then show "k \<le> l" "k = l \<Longrightarrow> a = b" by (auto simp: order_size_eq)
qed

lemma free_aligned_block:
  assumes "buddy_inv F" "k \<le> 10" "aligned k a" "blk k a \<subseteq> free_mem F"
  shows "\<exists>l b. b \<in> F l \<and> blk k a \<subseteq> blk l b"
  using assms(2-4)
proof (induction k arbitrary: a)
  case 0
  then show ?case using free_page_block [OF assms(1)] by blast
next
  case (Suc k)
  let ?h = "a + order_size k"
  have al: "aligned k a" "aligned k ?h" using Suc.prems(2) aligned_mono aligned_add by (meson le_SucI order_refl)+
  have sub: "blk k a \<subseteq> free_mem F" "blk k ?h \<subseteq> free_mem F" using Suc.prems(3) by (auto simp: blk_Suc)
  obtain l b where b: "b \<in> F l" "blk k a \<subseteq> blk l b" using Suc.IH [OF _ al(1) sub(1)] Suc.prems(1) by auto
  obtain l' b' where b': "b' \<in> F l'" "blk k ?h \<subseteq> blk l' b'" using Suc.IH [OF _ al(2) sub(2)] Suc.prems(1) by auto
  have whole: "blk (Suc k) a \<subseteq> blk m c" if c: "c \<in> F m" "k < m" "blk k x \<subseteq> blk m c" "blk k x \<subseteq> blk (Suc k) a" for m c x
  proof (rule blk_nested [OF Suc.prems(2) buddy_invD(3) [OF assms(1) c(1)]])
    show "blk (Suc k) a \<inter> blk m c \<noteq> {}" using c(3,4) blk_self [of x k] by blast
  qed (use c(2) in simp)
  have "\<not> (l = k \<and> l' = k)"
  proof
    assume eq: "l = k \<and> l' = k"
    then have "a = b" "?h = b'" using b(2) b'(2) blk_subset_order(2) by blast+
    moreover have "buddy_of k a = ?h" using Suc.prems(2) by (simp add: buddy_of_def)
    ultimately show False using buddy_invD(6) [OF assms(1) b(1)] b(1) b'(1) eq Suc.prems(1) by auto
  qed
  then consider "k < l" | "k < l'" using blk_subset_order(1) b(2) b'(2) by (metis le_neq_implies_less)
  then show ?case
  proof cases
    case 1
    then show ?thesis using whole [OF b(1) 1 b(2)] b(1) by (auto simp: blk_Suc)
  next
    case 2
    then show ?thesis using whole [OF b'(1) 2 b'(2)] b'(1) by (auto simp: blk_Suc)
  qed
qed

section \<open>Properties of the allocator\<close>

text \<open>C31: Initialisation. Adding a RAM range above 4 MiB to a new allocator makes free exactly the whole pages
  from the range's start, rounded up to 4 MiB, to its end, with the invariant established.\<close>

theorem buddy_add_correct:
  assumes "order_size 10 < range_start" "range_start + order_size 10 - 1 < 2 ^ 64"
  shows "\<exists>F s. bud_rep (buddy_add range_start range_end (m, buddy_new)) F \<and> buddy_inv F \<and>
    range_start \<le> s \<and> s < range_start + order_size 10 \<and> aligned 10 s \<and>
    free_mem F = {s..<s + (range_end - s) div PAGE_SIZE * PAGE_SIZE}"
proof -
  define s where "s = align range_start (2 ^ 22)"
  have os: "order_size 10 = 2 ^ 22" by (simp add: order_size_eq)
  have s: "range_start \<le> s" "s < range_start + order_size 10" "aligned 10 s"
    using align_bounds [of range_start 22] assms(2) unfolding s_def os aligned_def by simp_all
  obtain F where "bud_rep (add_frame s range_end (m, buddy_new)) F" "buddy_inv F"
    "free_mem F = {s..<s + (range_end - s) div 4096 * 4096}"
    using add_frame_correct [OF s(3)] s(1) assms(1) by (meson order_less_le_trans)
  moreover have "buddy_add range_start range_end (m, buddy_new) = add_frame s range_end (m, buddy_new)"
    by (simp add: buddy_add_def s_def push_bit_eq_mult)
  ultimately show ?thesis using s by (auto simp: PAGE_SIZE_def)
qed

theorem buddy_add_correct_witness:
  "\<exists>F s. bud_rep (buddy_add 0x80200000 0x88000000 (\<lambda>_. 0, buddy_new)) F \<and> buddy_inv F \<and>
    0x80200000 \<le> s \<and> aligned 10 s \<and> free_mem F = {s..<s + (0x88000000 - s) div PAGE_SIZE * PAGE_SIZE}"
  using buddy_add_correct [of "0x80200000" "0x88000000" "\<lambda>_. 0"] by (auto simp: order_size_eq)

text \<open>C19: Allocation. On a represented allocator, \<open>alloc\<close> returns an aligned block of the requested order that was
  free and is free no longer, and nothing else changes; it fails only when no aligned block of that
  order is free at all, that is, there is no fragmentation below the top order.\<close>

theorem buddy_alloc_correct:
  assumes "bud_rep st F" "buddy_inv F" "order < BUDDY_MAX_ORDER"
  shows "case buddy_alloc order st of
      (None, st') \<Rightarrow> st' = st \<and> (\<forall>a. aligned order a \<longrightarrow> \<not> blk order a \<subseteq> free_mem F)
    | (Some a, st') \<Rightarrow> aligned order a \<and> blk order a \<subseteq> free_mem F \<and>
        (\<exists>F'. bud_rep st' F' \<and> buddy_inv F' \<and> free_mem F' = free_mem F - blk order a)"
proof -
  have k: "order < 11" "order \<le> 10" using assms(3) by simp_all
  from assms(1,2) k(1) show ?thesis
  proof (cases rule: buddy_alloc_cases)
    case None
    have "\<not> blk order a \<subseteq> free_mem F" if a: "aligned order a" for a
    proof
      assume "blk order a \<subseteq> free_mem F"
      then obtain l b where "b \<in> F l" "blk order a \<subseteq> blk l b"
        using free_aligned_block [OF assms(2) k(2) a] by blast
      then show False using None(2) [of l] blk_subset_order(1) by blast
    qed
    then show ?thesis using None(1) by simp
  next
    case (Some a st' F')
    have "blk order a \<inter> free_mem F' = {}" "aligned order a" using Some(4) by (auto simp: held_def)
    moreover from this have "free_mem F' = free_mem F - blk order a" "blk order a \<subseteq> free_mem F"
      using Some(5) by blast+
    ultimately show ?thesis using Some(1-3) by auto
  qed
qed

lemma buddy_example:
  obtains F s where "bud_rep (buddy_add 0x80200000 0x88000000 (\<lambda>_. 0, buddy_new)) F" "buddy_inv F"
    "s < 0x80600000" "aligned 10 s" "order_size 10 < s"
    "free_mem F = {s..<s + (0x88000000 - s) div 4096 * 4096}"
proof -
  define s :: nat where "s = align 0x80200000 (2 ^ 22)"
  have s: "0x80200000 \<le> s" "s < 0x80200000 + 2 ^ 22" "2 ^ 22 dvd s"
    using align_bounds [of "0x80200000" 22] unfolding s_def by simp_all
  then have "aligned 10 s" "order_size 10 < s" by (simp_all add: aligned_def order_size_eq)
  moreover have "buddy_add 0x80200000 0x88000000 (\<lambda>_. 0, buddy_new) = add_frame s 0x88000000 (\<lambda>_. 0, buddy_new)"
    by (simp add: buddy_add_def s_def push_bit_eq_mult)
  moreover have "s < 0x80600000" using s(2) by simp
  ultimately show thesis using add_frame_correct [of s "0x88000000" "\<lambda>_. 0"] that by auto
qed

lemma example_free:
  assumes "s < (0x80600000::nat)" "order_size 10 < s" "k \<le> 10"
  shows "blk k s \<subseteq> {s..<s + (0x88000000 - s) div 4096 * 4096}"
proof -
  have "order_size 10 \<le> (0x88000000 - s) div 4096 * 4096" using assms(1) by (simp add: order_size_eq)
  then show ?thesis using order_size_mono [OF assms(3)] by (auto simp: blk_def)
qed

theorem buddy_alloc_correct_witness:
  "\<exists>st F a st'. bud_rep st F \<and> buddy_alloc 3 st = (Some a, st') \<and> aligned 3 a \<and> blk 3 a \<subseteq> free_mem F"
proof -
  obtain F s where ex: "bud_rep (buddy_add 0x80200000 0x88000000 (\<lambda>_. 0, buddy_new)) F" "buddy_inv F"
    "s < 0x80600000" "aligned 10 s" "order_size 10 < s" "free_mem F = {s..<s + (0x88000000 - s) div 4096 * 4096}"
    by (rule buddy_example)
  obtain r st' where r: "buddy_alloc 3 (buddy_add 0x80200000 0x88000000 (\<lambda>_. 0, buddy_new)) = (r, st')" by (meson surj_pair)
  have "blk 3 s \<subseteq> free_mem F" using example_free [OF ex(3,5), of 3] ex(6) by simp
  moreover have "aligned 3 s" using aligned_mono [OF ex(4)] by simp
  ultimately have "\<exists>a. r = Some a \<and> aligned 3 a \<and> blk 3 a \<subseteq> free_mem F"
    using buddy_alloc_correct [OF ex(1,2), of 3] r by (cases r) auto
  then show ?thesis using ex(1) r by blast
qed




text \<open>C32: The leak at the top order. When a top-order (4 MiB) block is given back while its buddy is free, \<open>dealloc\<close>
  unlinks the buddy, clamps the order and pushes only the lower of the two blocks: the upper 4 MiB
  leave the free memory for good, although both blocks were free or being freed.\<close>

theorem buddy_dealloc_top_leak:
  assumes "bud_rep st F" "buddy_inv F" "held F 10 start" "buddy_address start 10 \<in> F 10"
  shows "\<exists>st' F'. buddy_dealloc start 10 st = Some st' \<and> bud_rep st' F' \<and>
    free_mem F' = (free_mem F \<union> blk 10 start) - blk 10 (max start (buddy_address start 10)) \<and>
    blk 10 (max start (buddy_address start 10)) \<subseteq> free_mem F \<union> blk 10 start"
proof -
  have al: "aligned 10 start" and pos: "start \<noteq> 0" using assms(3) by (auto simp: held_def)
  note ba = buddy_address_buddy_of [OF al]
  define q where "q = buddy_of 10 start"
  have qF: "q \<in> F 10" using assms(4) ba by (simp add: q_def)
  then have q0: "q \<noteq> 0" using buddy_invD(2) [OF assms(2)] by force
  obtain m b where st: "st = (m, b)" by force
  obtain m' h where r: "il_remove m (free_list b ! 10) q = Some (m', h, True)"
    "bud_rep (m', b\<lparr>free_list := (free_list b)[10 := h]\<rparr>) (F(10 := F 10 - {q}))"
    using bud_rep_remove [of m b F 10 q] assms(1) st q0 qF by auto
  let ?st = "(m', b\<lparr>free_list := (free_list b)[10 := h]\<rparr>)" and ?F = "F(10 := F 10 - {q})"
  note res = dealloc_result_top [OF assms(2,3), folded q_def, OF qF]
  have held: "held ?F 10 (min start q)" and mem: "free_mem ?F \<union> blk 10 (min start q) = (free_mem F \<union> blk 10 start) - blk 10 (max start q)"
    and sub: "blk 10 (max start q) \<subseteq> free_mem F \<union> blk 10 start"
    using res buddy_of_facts(6) [OF al] by (auto simp: dealloc_result_def q_def)
  have "[10..<11] = [10::nat]" by (simp add: upt_rec)
  then have "buddy_dealloc start 10 st = Some (fl_push 10 (min start q) ?st)"
    using st r(1) ba bud_rep_length [OF r(2)] by (simp add: buddy_dealloc_def q_def min_def)
  moreover have "bud_rep (fl_push 10 (min start q) ?st) (?F(10 := insert (min start q) (?F 10)))"
    using bud_rep_push [OF r(2), of 10 "min start q"] held_not_free [OF held] pos q0 by (auto simp: min_def)
  moreover have "free_mem (?F(10 := insert (min start q) (?F 10))) = (free_mem F \<union> blk 10 start) - blk 10 (max start q)"
    using mem free_mem_insert by metis
  ultimately show ?thesis using sub ba unfolding q_def by metis
qed

theorem buddy_dealloc_top_leak_witness:
  "\<exists>st F st' F'. bud_rep st F \<and> buddy_dealloc 0x80800000 10 st = Some st' \<and> bud_rep st' F' \<and>
     0x80C00000 \<in> free_mem F \<and> 0x80C00000 \<notin> free_mem F'"
proof -
  let ?F = "(\<lambda>_. {})(10 := {0x80C00000})"
  have rep: "bud_rep (fl_push 10 0x80C00000 (\<lambda>_. 0, buddy_new)) ?F"
    using bud_rep_push [OF bud_rep_new, of 10 "0x80C00000"] by simp
  have "held (\<lambda>_. {}) 10 0x80C00000" by (simp add: held_def aligned_def order_size_eq buddy_inv_empty)
  then have inv: "buddy_inv ?F" using buddy_inv_insert [OF buddy_inv_empty(1), of 10 "0x80C00000"] by simp
  have mem: "free_mem ?F = blk 10 0x80C00000" using free_mem_insert [of "\<lambda>_. {}" 10 "0x80C00000"] buddy_inv_empty(2) by simp
  have held: "held ?F 10 0x80800000"
    unfolding held_def mem by (simp add: aligned_def order_size_eq blk_def)
  have ba: "buddy_address 0x80800000 10 = 0x80C00000"
    using buddy_address_buddy_of [of 10 "0x80800000"] by (simp add: aligned_def buddy_of_def order_size_eq)
  obtain st' F' where r: "buddy_dealloc 0x80800000 10 (fl_push 10 0x80C00000 (\<lambda>_. 0, buddy_new)) = Some st'" "bud_rep st' F'"
    "free_mem F' = (free_mem ?F \<union> blk 10 0x80800000) - blk 10 0x80C00000"
    using buddy_dealloc_top_leak [OF rep inv held] ba by auto
  have "0x80C00000 \<in> free_mem ?F" unfolding mem by simp
  moreover have "0x80C00000 \<notin> free_mem F'" unfolding r(3) by simp
  ultimately show ?thesis using rep r(1,2) by blast
qed

section \<open>Live blocks over a history\<close>

text \<open>
  A client of the allocator: it allocates blocks, gives one of its live blocks back, and writes to
  the blocks it holds (here at word granularity).  \<open>live\<close> is the list of the blocks it holds.
\<close>

datatype buddy_act = BAlloc nat | BFree nat | BWrite nat nat

type_synonym buddy_client = "buddy_state \<times> (nat \<times> nat) list"

definition remove_nth :: "nat \<Rightarrow> 'a list \<Rightarrow> 'a list" where
  "remove_nth i xs = take i xs @ drop (Suc i) xs"

fun buddy_exec :: "buddy_act \<Rightarrow> buddy_client \<Rightarrow> buddy_client option" where
  "buddy_exec (BAlloc order) (st, live) =
     (if order < BUDDY_MAX_ORDER then
        case buddy_alloc order st of
          (None, st') \<Rightarrow> Some (st', live)
        | (Some a, st') \<Rightarrow> Some (st', (a, order) # live)
      else None)"
| "buddy_exec (BFree i) (st, live) =
     (if i < length live then
        map_option (\<lambda>st'. (st', remove_nth i live)) (buddy_dealloc (fst (live ! i)) (snd (live ! i)) st)
      else None)"
| "buddy_exec (BWrite addr v) ((m, b), live) =
     (if \<exists>(a, k) \<in> set live. addr \<in> blk k a then Some ((m(addr := v), b), live) else None)"

definition live_disjoint :: "(nat \<times> nat) list \<Rightarrow> bool" where
  "live_disjoint live \<longleftrightarrow>
     sorted_wrt (\<lambda>(a, k) (b, l). blk k a \<inter> blk l b = {}) live"

definition client_inv :: "nat set \<Rightarrow> buddy_client \<Rightarrow> bool" where
  "client_inv ram c \<longleftrightarrow>
     (\<exists>F. bud_rep (fst c) F \<and> buddy_inv F \<and> free_mem F \<subseteq> ram \<and>
        (\<forall>a k. (a, k) \<in> set (snd c) \<longrightarrow> held F k a \<and> blk k a \<subseteq> ram) \<and> live_disjoint (snd c))"

lemma set_remove_nth: "set (remove_nth i xs) \<subseteq> set xs"
  unfolding remove_nth_def using set_take_subset set_drop_subset by fastforce

lemma live_disjoint_remove:
  assumes "live_disjoint live" "i < length live" "live ! i = (a, k)"
  shows "live_disjoint (remove_nth i live)" "(b, l) \<in> set (remove_nth i live) \<Longrightarrow> blk l b \<inter> blk k a = {}"
proof -
  have live: "live = take i live @ (a, k) # drop (Suc i) live" using assms(2,3) id_take_nth_drop by metis
  let ?P = "\<lambda>(a, k) (b, l). blk k a \<inter> blk l b = {}"
  have sw: "sorted_wrt ?P (take i live @ (a, k) # drop (Suc i) live)"
    using assms(1) live by (simp add: live_disjoint_def)
  then show "live_disjoint (remove_nth i live)"
    unfolding live_disjoint_def remove_nth_def sorted_wrt_append by auto
  show "(b, l) \<in> set (remove_nth i live) \<Longrightarrow> blk l b \<inter> blk k a = {}"
    using sw unfolding remove_nth_def sorted_wrt_append by auto
qed

lemma client_alloc:
  assumes "client_inv ram (st, live)" "buddy_exec (BAlloc order) (st, live) = Some c"
  shows "client_inv ram c"
proof -
  obtain F where F: "bud_rep st F" "buddy_inv F" "free_mem F \<subseteq> ram" "live_disjoint live"
    and live: "\<And>a k. (a, k) \<in> set live \<Longrightarrow> held F k a \<and> blk k a \<subseteq> ram"
    using assms(1) by (auto simp: client_inv_def)
  have k: "order < 11" using assms(2) by (auto split: if_splits)
  from F(1,2) k show ?thesis
  proof (cases rule: buddy_alloc_cases)
    case None
    then show ?thesis using assms k by simp
  next
    case (Some a st' F')
    have c: "c = (st', (a, order) # live)" using assms(2) Some(1) k by simp
    have "held F' l b" if "(b, l) \<in> set live" for b l
      using live [OF that] Some(5) by (auto simp: held_def)
    moreover have "\<forall>x \<in> set live. case x of (b, l) \<Rightarrow> blk order a \<inter> blk l b = {}"
      using live Some(5) unfolding held_def by blast
    ultimately have "live_disjoint ((a, order) # live)"
      "\<forall>b l. (b, l) \<in> set ((a, order) # live) \<longrightarrow> held F' l b \<and> blk l b \<subseteq> ram"
      using Some(4,5) F(3,4) live unfolding live_disjoint_def by auto
    then have "client_inv ram (st', (a, order) # live)"
      using Some(2,3,5) F(3) unfolding client_inv_def by (intro exI [of _ F']) auto
    then show ?thesis using c by simp
  qed
qed

lemma client_free:
  assumes "client_inv ram (st, live)" "i < length live"
  shows "\<exists>c. buddy_exec (BFree i) (st, live) = Some c \<and> client_inv ram c"
proof -
  obtain F where F: "bud_rep st F" "buddy_inv F" "free_mem F \<subseteq> ram" "live_disjoint live"
    and live: "\<And>a k. (a, k) \<in> set live \<Longrightarrow> held F k a \<and> blk k a \<subseteq> ram"
    using assms(1) by (auto simp: client_inv_def)
  obtain a k where ak: "live ! i = (a, k)" by force
  then have mem: "(a, k) \<in> set live" using assms(2) nth_mem by fastforce
  note dis = live_disjoint_remove [OF F(4) assms(2) ak]
  obtain st' F' q lost where d: "buddy_dealloc a k st = Some st'" "bud_rep st' F'" "buddy_inv F'"
    "free_mem F' = (free_mem F \<union> blk k a) - lost"
    using buddy_dealloc_cases [OF F(1,2)] live [OF mem] by metis
  have "held F' l b" if "(b, l) \<in> set (remove_nth i live)" for b l
    using live [of b l] dis(2) [OF that] that set_remove_nth [of i live] d(4) unfolding held_def by blast
  moreover have "blk l b \<subseteq> ram" if "(b, l) \<in> set (remove_nth i live)" for b l
    using live [of b l] that set_remove_nth [of i live] by blast
  moreover have "free_mem F' \<subseteq> ram" using d(4) F(3) live [OF mem] by blast
  ultimately have "client_inv ram (st', remove_nth i live)"
    using d(2,3) dis(1) unfolding client_inv_def by auto
  then show ?thesis using d(1) ak assms(2) by simp
qed

lemma client_write:
  assumes "client_inv ram ((m, b), live)" "(a, k) \<in> set live" "addr \<in> blk k a"
  shows "client_inv ram ((m(addr := v), b), live)"
proof -
  obtain F where F: "bud_rep (m, b) F" "buddy_inv F" "free_mem F \<subseteq> ram" "live_disjoint live"
    and live: "\<forall>a k. (a, k) \<in> set live \<longrightarrow> held F k a \<and> blk k a \<subseteq> ram"
    using assms(1) by (auto simp: client_inv_def)
  have "addr \<notin> free_mem F" using live assms(2,3) by (auto simp: held_def)
  then have "x \<noteq> addr" if "x \<in> F l" for x l using that in_free_mem blk_self by blast
  then have "bud_rep (m(addr := v), b) F" using bud_rep_frame [OF F(1), of "m(addr := v)"] by auto
  then show ?thesis using F(2-4) live unfolding client_inv_def by auto
qed

lemma client_inv_exec:
  assumes "client_inv ram c" "buddy_exec act c = Some c'"
  shows "client_inv ram c'"
proof -
  obtain m b live where c: "c = ((m, b), live)" by (metis surj_pair)
  show ?thesis
  proof (cases act)
    case (BAlloc order)
    then show ?thesis using client_alloc assms c by blast
  next
    case (BFree i)
    then have "i < length live" using assms(2) c by (auto split: if_splits)
    then show ?thesis using client_free [of ram "(m, b)" live i] assms c BFree by auto
  next
    case (BWrite addr v)
    then show ?thesis using assms c client_write [of ram m b live] by (auto split: if_splits)
  qed
qed

definition ram_pages :: "nat \<Rightarrow> nat \<Rightarrow> nat set" where
  "ram_pages s e = {s..<s + (e - s) div 4096 * 4096}"

definition client_init :: "nat \<Rightarrow> nat \<Rightarrow> buddy_client" where
  "client_init s e = (if aligned 10 s \<and> order_size 10 < s then add_frame s e (\<lambda>_. 0, buddy_new) else (\<lambda>_. 0, buddy_new), [])"

lemma client_inv_init: "client_inv (ram_pages s e) (client_init s e)"
proof (cases "aligned 10 s \<and> order_size 10 < s")
  case True
  then show ?thesis using add_frame_correct [of s e "\<lambda>_. 0"]
    by (auto simp: client_inv_def client_init_def ram_pages_def live_disjoint_def)
next
  case False
  then show ?thesis using bud_rep_new buddy_inv_empty
    by (auto simp: client_inv_def client_init_def live_disjoint_def)
qed

interpretation buddy_sys: transition_system buddy_exec "\<lambda>_. True" "client_inv (ram_pages s e)" "client_init s e" for s e
  by unfold_locales (rule client_inv_init, rule client_inv_exec)

text \<open>C8: Separation. From an initialised allocator, through any history of allocations, deallocations
  of live blocks and writes to live blocks, any two live blocks are disjoint, each is aligned to
  its size and inside the RAM range, and giving any of them back succeeds.\<close>

theorem buddy_history_safe:
  assumes "run_acts buddy_exec acts (add_frame s e (\<lambda>_. 0, buddy_new), []) = Some (st, live)"
    and "aligned 10 s" "order_size 10 < s" "i < length live" "live ! i = (a, k)"
  shows "aligned k a \<and> blk k a \<subseteq> {s..<s + (e - s) div PAGE_SIZE * PAGE_SIZE} \<and>
    (\<forall>j b l. j < length live \<longrightarrow> j \<noteq> i \<longrightarrow> live ! j = (b, l) \<longrightarrow> blk k a \<inter> blk l b = {}) \<and>
    (\<exists>st'. buddy_dealloc a k st = Some st')"
proof -
  have "run_acts buddy_exec acts (client_init s e) = Some (st, live)"
    using assms(1-3) by (simp add: client_init_def)
  then have inv: "client_inv (ram_pages s e) (st, live)"
    using buddy_sys.inv_run [of acts s e] by (simp add: list_all_iff)
  then obtain F where live: "\<And>a k. (a, k) \<in> set live \<Longrightarrow> held F k a \<and> blk k a \<subseteq> ram_pages s e"
    and dis: "live_disjoint live" by (auto simp: client_inv_def)
  have "(a, k) \<in> set live" using assms(4,5) nth_mem by metis
  then have "aligned k a" "blk k a \<subseteq> ram_pages s e" using live by (auto simp: held_def)
  moreover have "blk k a \<inter> blk l b = {}" if "j < length live" "j \<noteq> i" "live ! j = (b, l)" for j b l
  proof (cases "i < j")
    case True
    then show ?thesis using dis that assms(4,5) sorted_wrt_nth_less unfolding live_disjoint_def by fastforce
  next
    case False
    then have "j < i" using that(2) by simp
    then show ?thesis using dis that assms(4,5) sorted_wrt_nth_less unfolding live_disjoint_def by fastforce
  qed
  moreover have "\<exists>st'. buddy_dealloc a k st = Some st'"
    using client_free [OF inv assms(4)] assms(4,5) by auto
  ultimately show ?thesis by (auto simp: ram_pages_def PAGE_SIZE_def)
qed

theorem buddy_history_safe_witness:
  "\<exists>st live. run_acts buddy_exec [BAlloc 10] (add_frame 0x80400000 0x80C00000 (\<lambda>_. 0, buddy_new), []) = Some (st, live) \<and>
     live \<noteq> [] \<and> (\<exists>st'. buddy_dealloc (fst (live ! 0)) (snd (live ! 0)) st = Some st')"
proof -
  have al: "aligned 10 0x80400000" "order_size 10 < 0x80400000" by (simp_all add: aligned_def order_size_eq)
  obtain F where F: "bud_rep (add_frame 0x80400000 0x80C00000 (\<lambda>_. 0, buddy_new)) F" "buddy_inv F"
    "free_mem F = {0x80400000..<0x80400000 + (0x80C00000 - 0x80400000) div 4096 * 4096}"
    using add_frame_correct [OF al] by blast
  have "blk 10 0x80400000 \<subseteq> free_mem F" unfolding F(3) by (simp add: blk_def order_size_eq)
  then obtain l b where "b \<in> F l" "blk 10 0x80400000 \<subseteq> blk l b" using free_aligned_block [OF F(2) _ al(1)] by auto
  moreover from this have "10 \<le> l" "l < 11" using blk_subset_order(1) buddy_invD(1) [OF F(2)] by blast+
  ultimately have ne: "F 10 \<noteq> {}" by (cases "l = 10") auto
  have "(10::nat) < 11" by simp
  with F(1,2) obtain a st1 where "buddy_alloc 10 (add_frame 0x80400000 0x80C00000 (\<lambda>_. 0, buddy_new)) = (Some a, st1)"
    by (cases rule: buddy_alloc_cases) (use ne in auto)
  then have r: "run_acts buddy_exec [BAlloc 10] (add_frame 0x80400000 0x80C00000 (\<lambda>_. 0, buddy_new), []) = Some (st1, [(a, 10)])"
    by simp
  then show ?thesis using buddy_history_safe [OF r al, of 0 a 10] by simp
qed

section \<open>Frames\<close>










end
