(* ===== verification/Page_Table_Correct.thy ===== *)
theory Page_Table_Correct
  imports Page_Table Buddy_Props
begin

text \<open>
  What the page tables mean: \<open>as_walk\<close> is the Sv39 walk over the tables of an address space.  The invariant
  \<open>as_inv\<close> says that the tables form a tree (every table has one parent entry) whose pages are not free in the
  buddy allocator; root entries may also point to tables of the kernel, which the space does not own.
\<close>

section \<open>The walk\<close>

definition tabs :: "address_space \<Rightarrow> u64 \<Rightarrow> page_table_handle option" where
  "tabs sp a = bt_get (as_tables sp) a"

definition as_walk :: "address_space \<Rightarrow> u64 \<Rightarrow> u64 option" where
  "as_walk sp va =
     (let pte2 = pth_entries (as_root sp) ! unat (va_vpn2 va) in
      if \<not> pte_v pte2 then None
      else case tabs sp (pte_addr pte2) of
        None \<Rightarrow> None
      | Some pt1 \<Rightarrow>
          (let pte1 = pth_entries pt1 ! unat (va_vpn1 va) in
           if \<not> pte_v pte1 then None
           else case tabs sp (pte_addr pte1) of
             None \<Rightarrow> None
           | Some pt0 \<Rightarrow>
               (let pte0 = pth_entries pt0 ! unat (va_vpn0 va) in if pte_v pte0 then Some pte0 else None)))"

lemma as_walk_vpn: "va_vpn v = va_vpn va \<Longrightarrow> as_walk sp v = as_walk sp va"
  unfolding as_walk_def va_vpn_eq_iff by presburger

section \<open>Creating a table\<close>

lemma size_to_order_page: "size_to_order PAGE_SIZE = Some 0"
  using size_to_order_order_size [of 0] by (simp add: order_size_eq PAGE_SIZE_def)

lemma pt_create_cases:
  assumes "bud_rep st F" "buddy_inv F" "free_mem F \<subseteq> {..<2 ^ 56}"
  obtains (Err) "pt_create st = (Err OutOfMemory, st)"
  | (Ok) h st' F' where "pt_create st = (Ok h, st')" "bud_rep st' F'" "buddy_inv F'" "page_addr (pth_addr h)"
      "pth_entries h = replicate 512 0" "unat (pth_addr h) \<in> free_mem F" "unat (pth_addr h) \<notin> free_mem F'"
      "free_mem F' \<subseteq> free_mem F"
proof -
  have "(0::nat) < 11" by simp
  with assms(1,2) show thesis
  proof (cases rule: buddy_alloc_cases)
    case None
    then show ?thesis using Err
      by (simp add: pt_create_def alloc_frame_def buddy_alloc_frame_def size_to_order_page)
  next
    case (Some a st' F')
    let ?h = "\<lparr>pth_addr = of_nat a, pth_entries = page_table_new,
      pth_page = \<lparr>frame_start = a, frame_size = order_size 0\<rparr>\<rparr>"
    have "a \<in> blk 0 a" "blk 0 a \<inter> free_mem F' = {}" "4096 dvd a"
      using Some(4) by (auto simp: held_def aligned_def order_size_eq)
    then have a: "a \<in> free_mem F" "a \<notin> free_mem F'" "free_mem F' \<subseteq> free_mem F" "4096 dvd a"
      using Some(5) by blast+
    then have small: "a < 2 ^ 56" using assms(3) by auto
    then have "unat (of_nat a :: u64) = a" by (simp add: unat_of_nat_small)
    moreover have "pt_create st = (Ok ?h, st')"
      using Some(1) by (simp add: pt_create_def alloc_frame_def buddy_alloc_frame_def size_to_order_page)
    moreover have "page_addr (of_nat a)" using page_addr_of_nat a(4) small by blast
    ultimately show ?thesis using Ok [of ?h st' F'] Some(2,3) a
      by (simp add: page_table_new_def PTE_NUMBER_def pte_new_def)
  qed
qed

lemma pte_v_0 [simp]: "\<not> pte_v 0"
  by (simp add: pte_defs bits_simps)

lemma pte_addr_fold: "pa_set_ppn (pte_ppn pte) pa_new = pte_addr pte"
  by (simp add: pte_addr_def)

lemma pointer_entry:
  assumes "page_addr a"
  shows "pte_v (pte_set_v True (pte_set_ppn (pa_ppn a) pte))"
    "pte_addr (pte_set_v True (pte_set_ppn (pa_ppn a) pte)) = a"
proof -
  show "pte_v (pte_set_v True (pte_set_ppn (pa_ppn a) pte))" by (simp add: pte_defs bits_simps)
  have "pte_addr (pte_set_v True (pte_set_ppn (pa_ppn a) pte)) = pte_addr (pte_set_ppn (pa_ppn a) pte)"
    unfolding pte_addr_def by (simp add: pte_defs bits_get_set1_other)
  then show "pte_addr (pte_set_v True (pte_set_ppn (pa_ppn a) pte)) = a" using pte_addr_set [OF assms] by simp
qed

section \<open>The invariant\<close>

text \<open>\<open>own1\<close>: entry \<open>i\<close> of the root points to the owned table \<open>p\<close>; \<open>own0\<close>: entry \<open>j\<close> of that table to \<open>p\<close>.\<close>

definition own1 :: "address_space \<Rightarrow> nat \<Rightarrow> u64 \<Rightarrow> bool" where
  "own1 sp i p \<longleftrightarrow> i < 512 \<and> pte_v (pth_entries (as_root sp) ! i) \<and>
     p = pte_addr (pth_entries (as_root sp) ! i) \<and> tabs sp p \<noteq> None"

definition own0 :: "address_space \<Rightarrow> nat \<Rightarrow> nat \<Rightarrow> u64 \<Rightarrow> bool" where
  "own0 sp i j p \<longleftrightarrow> (\<exists>q h. own1 sp i q \<and> tabs sp q = Some h \<and> j < 512 \<and> pte_v (pth_entries h ! j) \<and>
     p = pte_addr (pth_entries h ! j))"

definition as_shape :: "address_space \<Rightarrow> bool" where
  "as_shape sp \<longleftrightarrow>
     bt_inv (as_tables sp) \<and> length (pth_entries (as_root sp)) = 512 \<and>
     (\<forall>a h. tabs sp a = Some h \<longrightarrow> length (pth_entries h) = 512 \<and> pth_addr h = a \<and> page_addr a)"

definition as_tree :: "address_space \<Rightarrow> bool" where
  "as_tree sp \<longleftrightarrow>
     (\<forall>i i' p. own1 sp i p \<longrightarrow> own1 sp i' p \<longrightarrow> i = i') \<and>
     (\<forall>i j i' j' p. own0 sp i j p \<longrightarrow> own0 sp i' j' p \<longrightarrow> i = i' \<and> j = j') \<and>
     (\<forall>i i' j' p. own1 sp i p \<longrightarrow> \<not> own0 sp i' j' p) \<and>
     (\<forall>i j p. own0 sp i j p \<longrightarrow> tabs sp p \<noteq> None)"

definition as_live :: "nat set \<Rightarrow> address_space \<Rightarrow> bool" where
  "as_live free sp \<longleftrightarrow>
     (\<forall>i < 512. pte_v (pth_entries (as_root sp) ! i) \<longrightarrow> unat (pte_addr (pth_entries (as_root sp) ! i)) \<notin> free) \<and>
     (\<forall>a h. tabs sp a = Some h \<longrightarrow> unat a \<notin> free)"

definition as_inv :: "nat set \<Rightarrow> address_space \<Rightarrow> bool" where
  "as_inv free sp \<longleftrightarrow> as_shape sp \<and> as_tree sp \<and> as_live free sp"

lemma own0I:
  "own1 sp i q \<Longrightarrow> tabs sp q = Some h \<Longrightarrow> j < 512 \<Longrightarrow> pte_v (pth_entries h ! j) \<Longrightarrow>
     own0 sp i j (pte_addr (pth_entries h ! j))"
  by (auto simp: own0_def)

lemma as_live_mono: "as_live free sp \<Longrightarrow> free' \<subseteq> free \<Longrightarrow> as_live free' sp"
  by (auto simp: as_live_def)

lemma tabs_upd:
  "tabs (sp\<lparr>as_tables := bt_insert a h (as_tables sp)\<rparr>) b = (if b = a then Some h else tabs sp b)"
  by (simp add: tabs_def bt_get_insert)

lemma tabs_root [simp]: "tabs (sp\<lparr>as_root := r\<rparr>) = tabs sp"
  by (simp add: tabs_def fun_eq_iff)

text \<open>A fresh empty table, hung into an empty root slot.\<close>

definition hang1 :: "nat \<Rightarrow> u64 \<Rightarrow> page_table_handle \<Rightarrow> address_space \<Rightarrow> address_space" where
  "hang1 i pte h sp =
     sp\<lparr>as_root := (as_root sp)\<lparr>pth_entries := (pth_entries (as_root sp))[i := pte]\<rparr>,
        as_tables := bt_insert (pth_addr h) h (as_tables sp)\<rparr>"

lemma hang1_simps [simp]:
  "pth_entries (as_root (hang1 i pte h sp)) = (pth_entries (as_root sp))[i := pte]"
  "tabs (hang1 i pte h sp) a = (if a = pth_addr h then Some h else tabs sp a)"
  by (simp_all add: hang1_def tabs_def bt_get_insert)

lemma hang1_inv:
  assumes inv: "as_inv free sp" and i: "i < 512" "\<not> pte_v (pth_entries (as_root sp) ! i)"
    and h: "pth_entries h = replicate 512 0" "page_addr (pth_addr h)" "unat (pth_addr h) \<in> free"
    and pte: "pte_v pte" "pte_addr pte = pth_addr h"
    and free': "free' \<subseteq> free" "unat (pth_addr h) \<notin> free'"
  shows "as_inv free' (hang1 i pte h sp)" "as_walk (hang1 i pte h sp) va = as_walk sp va"
    "own1 (hang1 i pte h sp) i (pth_addr h)"
proof -
  let ?sp = "hang1 i pte h sp" and ?a = "pth_addr h"
  have len: "length (pth_entries (as_root sp)) = 512" using inv by (simp add: as_inv_def as_shape_def)
  have fresh: "tabs sp ?a = None" using inv h(3) unfolding as_inv_def as_live_def by (metis not_Some_eq)
  have fresh': "pte_addr (pth_entries (as_root sp) ! k) \<noteq> ?a" if "k < 512" "pte_v (pth_entries (as_root sp) ! k)" for k
    using inv h(3) that unfolding as_inv_def as_live_def by metis
  have o1: "own1 ?sp k p \<longleftrightarrow> own1 sp k p \<or> k = i \<and> p = ?a" for k p
    using i len pte fresh fresh' [of k] by (cases "k = i") (auto simp: own1_def)
  have v: "\<not> pte_v (pth_entries h ! j)" if "j < 512" for j using h(1) that by simp
  have o0: "own0 ?sp k j p \<longleftrightarrow> own0 sp k j p" for k j p
    unfolding own0_def o1 using v fresh by (auto simp: own1_def; metis option.distinct(1))
  show "own1 ?sp i ?a" using o1 by simp
  have sh: "as_shape ?sp" using inv h(1,2) by (auto simp: as_inv_def as_shape_def hang1_def bt_insert_inv tabs_def bt_get_insert split: if_splits)
  have tree: "as_tree sp" using inv by (simp add: as_inv_def)
  have not0: "\<not> own0 sp k j ?a" for k j using tree fresh unfolding as_tree_def by blast
  have not1: "\<not> own1 sp k ?a" for k using fresh by (simp add: own1_def)
  have "\<not> own1 sp i p" for p using i by (simp add: own1_def)
  then have "as_tree ?sp" using tree not0 not1 unfolding as_tree_def o1 o0 by (auto; blast)
  moreover have "as_live free' ?sp"
    using inv free' i(1) len pte unfolding as_inv_def as_live_def by (auto simp: nth_list_update)
  ultimately show "as_inv free' ?sp" using sh by (simp add: as_inv_def)
  show "as_walk ?sp va = as_walk sp va"
  proof (cases "unat (va_vpn2 va) = i")
    case True
    then show ?thesis using i len pte v [OF va_index_less(2)] by (simp add: as_walk_def Let_def)
  next
    case False
    have "pte_addr (pth_entries pt1 ! j) \<noteq> ?a"
      if "own1 sp (unat (va_vpn2 va)) q" "tabs sp q = Some pt1" "j < 512" "pte_v (pth_entries pt1 ! j)" for q pt1 j
      using not0 own0I [OF that] by metis
    then show ?thesis using False fresh' va_index_less
      by (auto simp: as_walk_def Let_def own1_def split: option.splits)
  qed
qed

text \<open>A fresh empty table, hung into an empty slot of an owned level-1 table.\<close>

definition hang0 :: "u64 \<Rightarrow> page_table_handle \<Rightarrow> nat \<Rightarrow> u64 \<Rightarrow> page_table_handle \<Rightarrow> address_space \<Rightarrow> address_space" where
  "hang0 q pt1 j pte h sp =
     sp\<lparr>as_tables := bt_insert (pth_addr h) h
       (bt_insert q (pt1\<lparr>pth_entries := (pth_entries pt1)[j := pte]\<rparr>) (as_tables sp))\<rparr>"

lemma hang0_simps [simp]:
  "as_root (hang0 q pt1 j pte h sp) = as_root sp"
  "tabs (hang0 q pt1 j pte h sp) a =
     (if a = pth_addr h then Some h
      else if a = q then Some (pt1\<lparr>pth_entries := (pth_entries pt1)[j := pte]\<rparr>) else tabs sp a)"
  by (simp_all add: hang0_def tabs_def bt_get_insert)

lemma hang0_inv:
  assumes inv: "as_inv free sp" and q: "own1 sp i q" "tabs sp q = Some pt1" and j: "j < 512" "\<not> pte_v (pth_entries pt1 ! j)"
    and h: "pth_entries h = replicate 512 0" "page_addr (pth_addr h)" "unat (pth_addr h) \<in> free"
    and pte: "pte_v pte" "pte_addr pte = pth_addr h"
    and free': "free' \<subseteq> free" "unat (pth_addr h) \<notin> free'"
  shows "as_inv free' (hang0 q pt1 j pte h sp)" "as_walk (hang0 q pt1 j pte h sp) va = as_walk sp va"
    "own0 (hang0 q pt1 j pte h sp) i j (pth_addr h)" "own1 (hang0 q pt1 j pte h sp) i q"
proof -
  let ?sp = "hang0 q pt1 j pte h sp" and ?a = "pth_addr h"
  have shape: "as_shape sp" and tree: "as_tree sp" using inv by (simp_all add: as_inv_def)
  have len: "length (pth_entries pt1) = 512" using shape q(2) by (simp add: as_shape_def)
  have fresh: "tabs sp ?a = None" using inv h(3) unfolding as_inv_def as_live_def by (metis not_Some_eq)
  then have qa: "q \<noteq> ?a" using q(2) by auto
  have fresh': "pte_addr (pth_entries (as_root sp) ! k) \<noteq> ?a" if "k < 512" "pte_v (pth_entries (as_root sp) ! k)" for k
    using inv h(3) that unfolding as_inv_def as_live_def by metis
  have o1: "own1 ?sp k p \<longleftrightarrow> own1 sp k p" for k p
    using q(2) fresh fresh' [of k] by (auto simp: own1_def)
  have not1: "\<not> own1 sp k ?a" for k using fresh by (simp add: own1_def)
  have qi: "own1 sp k q \<longleftrightarrow> k = i" for k using tree q(1) unfolding as_tree_def by blast
  have o0: "own0 ?sp k l p \<longleftrightarrow> own0 sp k l p \<or> k = i \<and> l = j \<and> p = ?a" for k l p
  proof -
    have "own0 ?sp k l p \<longleftrightarrow> (\<exists>r g. own1 sp k r \<and> tabs ?sp r = Some g \<and> l < 512 \<and> pte_v (pth_entries g ! l) \<and> p = pte_addr (pth_entries g ! l))"
      unfolding own0_def o1 ..
    also have "\<dots> \<longleftrightarrow> own0 sp k l p \<or> k = i \<and> l = j \<and> p = ?a"
    proof (cases "k = i")
      case True
      then have "own1 sp k r \<longleftrightarrow> r = q" for r using q(1) by (auto simp: own1_def)
      then show ?thesis using True j len pte q(2) qa by (auto simp: own0_def nth_list_update split: if_splits)
    next
      case False
      then have "own1 sp k r \<Longrightarrow> r \<noteq> q \<and> r \<noteq> ?a" for r using qi not1 by auto
      then have "own1 sp k r \<Longrightarrow> tabs ?sp r = tabs sp r" for r by simp
      then show ?thesis using False by (auto simp: own0_def simp del: hang0_simps)
    qed
    finally show ?thesis .
  qed
  show "own0 ?sp i j ?a" "own1 ?sp i q" using o0 o1 q(1) by auto
  have not0: "\<not> own0 sp k l ?a" for k l using tree fresh unfolding as_tree_def by blast
  have "as_shape ?sp" using shape h(1,2) q(2) len
    by (auto simp: as_shape_def hang0_def bt_insert_inv tabs_def bt_get_insert split: if_splits)
  moreover have "\<not> own0 sp i j p" for p using q j by (auto simp: own0_def own1_def)
  then have "as_tree ?sp" using tree not0 not1 fresh q(2) unfolding as_tree_def o1 o0 by (auto; blast)
  moreover have "as_live free' ?sp"
    using inv free' q(2) unfolding as_inv_def as_live_def by (auto split: if_splits)
  ultimately show "as_inv free' ?sp" by (simp add: as_inv_def)
  show "as_walk ?sp va = as_walk sp va"
  proof -
    let ?i = "unat (va_vpn2 va)" and ?j = "unat (va_vpn1 va)"
    let ?e = "pth_entries (as_root sp) ! ?i"
    consider (invalid) "\<not> pte_v ?e" | (foreign) "pte_v ?e" "tabs sp (pte_addr ?e) = None"
      | (owned) pt where "own1 sp ?i (pte_addr ?e)" "tabs sp (pte_addr ?e) = Some pt"
      using va_index_less(1) [of va] by (auto simp: own1_def)
    then show ?thesis
    proof cases
      case foreign
      then show ?thesis using fresh' [OF va_index_less(1)] q(2) by (auto simp: as_walk_def Let_def)
    next
      case owned
      have ne: "pte_addr (pth_entries pt ! ?j) \<noteq> ?a \<and> pte_addr (pth_entries pt ! ?j) \<noteq> q" if "pte_v (pth_entries pt ! ?j)"
        using own0I [OF owned va_index_less(2) that] not0 tree q(1) unfolding as_tree_def by metis
      have "pte_v ?e" using owned by (simp add: own1_def)
      moreover have "pte_addr ?e \<noteq> ?a" using owned(2) fresh by auto
      ultimately have e: "pte_v ?e" "pte_addr ?e \<noteq> ?a" .
      show ?thesis
      proof (cases "pte_addr ?e = q")
        case True
        then have pt: "pt = pt1" using owned(2) q(2) by simp
        show ?thesis
        proof (cases "?j = j")
          case True
          then show ?thesis using e \<open>pte_addr ?e = q\<close> q(2) j len pte h(1) va_index_less(3) qa by (simp add: as_walk_def Let_def)
        next
          case False
          then show ?thesis using e \<open>pte_addr ?e = q\<close> q(2) qa ne pt by (simp add: as_walk_def Let_def)
        qed
      next
        case False
        then show ?thesis using e owned ne by (simp add: as_walk_def Let_def)
      qed
    qed (simp add: as_walk_def Let_def)
  qed
qed

text \<open>An entry written into an owned level-0 table changes the walk of one page.\<close>

definition put0 :: "u64 \<Rightarrow> page_table_handle \<Rightarrow> nat \<Rightarrow> u64 \<Rightarrow> address_space \<Rightarrow> address_space" where
  "put0 p pt0 n pte sp = sp\<lparr>as_tables := bt_insert p (pt0\<lparr>pth_entries := (pth_entries pt0)[n := pte]\<rparr>) (as_tables sp)\<rparr>"

lemma put0_simps [simp]:
  "as_root (put0 p pt0 n pte sp) = as_root sp"
  "tabs (put0 p pt0 n pte sp) a =
     (if a = p then Some (pt0\<lparr>pth_entries := (pth_entries pt0)[n := pte]\<rparr>) else tabs sp a)"
  by (simp_all add: put0_def tabs_def bt_get_insert)

lemma as_walk_own0:
  assumes "own0 sp (unat (va_vpn2 va)) (unat (va_vpn1 va)) p" "tabs sp p = Some pt0"
  shows "as_walk sp va = (if pte_v (pth_entries pt0 ! unat (va_vpn0 va)) then Some (pth_entries pt0 ! unat (va_vpn0 va)) else None)"
  using assms by (auto simp: as_walk_def own0_def own1_def Let_def)

lemma as_walk_not_own0:
  assumes "\<nexists>p. own0 sp (unat (va_vpn2 va)) (unat (va_vpn1 va)) p"
  shows "as_walk sp va = None"
  using assms va_index_less [of va] by (auto simp: as_walk_def own0_def own1_def Let_def split: option.split)

lemma own0_unique: "own0 sp i j p \<Longrightarrow> own0 sp i j r \<Longrightarrow> p = r"
  by (auto simp: own0_def own1_def)

lemma put0_own:
  assumes tree: "as_tree sp" and p: "own0 sp i j p" "tabs sp p = Some pt0"
  shows "own1 (put0 p pt0 n pte sp) k r \<longleftrightarrow> own1 sp k r" "own0 (put0 p pt0 n pte sp) k l r \<longleftrightarrow> own0 sp k l r"
proof -
  have o1: "own1 (put0 p pt0 n pte sp) k r \<longleftrightarrow> own1 sp k r" for k r using p(2) by (auto simp: own1_def)
  show "own1 (put0 p pt0 n pte sp) k r \<longleftrightarrow> own1 sp k r" by (rule o1)
  have "own1 sp k q \<Longrightarrow> q \<noteq> p" for q using tree p(1) unfolding as_tree_def by blast
  then have "own1 sp k q \<Longrightarrow> tabs (put0 p pt0 n pte sp) q = tabs sp q" for q by simp
  then show "own0 (put0 p pt0 n pte sp) k l r \<longleftrightarrow> own0 sp k l r"
    by (auto simp: own0_def o1 simp del: put0_simps)
qed

lemma put0_inv:
  assumes inv: "as_inv free sp" and p: "own0 sp i j p" "tabs sp p = Some pt0" and free': "free' \<subseteq> free"
  shows "as_inv free' (put0 p pt0 n pte sp)"
proof -
  have shape: "as_shape sp" and tree: "as_tree sp" using inv by (simp_all add: as_inv_def)
  have "as_shape (put0 p pt0 n pte sp)" using shape p(2)
    by (auto simp: as_shape_def put0_def bt_insert_inv tabs_def bt_get_insert split: if_splits)
  moreover have "as_tree (put0 p pt0 n pte sp)"
    using tree p(2) unfolding as_tree_def put0_own [OF tree p] by auto
  moreover have "as_live free' (put0 p pt0 n pte sp)"
    using inv free' p(2) unfolding as_inv_def as_live_def by (auto split: if_splits)
  ultimately show ?thesis by (simp add: as_inv_def)
qed

lemma put0_walk:
  assumes inv: "as_inv free sp" and p: "own0 sp (unat (va_vpn2 va)) (unat (va_vpn1 va)) p" "tabs sp p = Some pt0"
  shows "as_walk (put0 p pt0 (unat (va_vpn0 va)) pte sp) v =
    (if va_vpn v = va_vpn va then (if pte_v pte then Some pte else None) else as_walk sp v)"
proof -
  let ?sp = "put0 p pt0 (unat (va_vpn0 va)) pte sp"
  have tree: "as_tree sp" and len: "length (pth_entries pt0) = 512" using inv p(2) by (auto simp: as_inv_def as_shape_def)
  note own = put0_own [OF tree p]
  show ?thesis
  proof (cases "\<exists>r. own0 sp (unat (va_vpn2 v)) (unat (va_vpn1 v)) r")
    case False
    then have "as_walk sp v = None" "as_walk ?sp v = None" using as_walk_not_own0 own(2) by simp_all
    moreover have "va_vpn v \<noteq> va_vpn va" using False p(1) by (auto simp: va_vpn_eq_iff)
    ultimately show ?thesis by simp
  next
    case True
    then obtain r where r: "own0 sp (unat (va_vpn2 v)) (unat (va_vpn1 v)) r" by blast
    then obtain pt where pt: "tabs sp r = Some pt" using tree unfolding as_tree_def by (meson not_Some_eq)
    have r': "own0 ?sp (unat (va_vpn2 v)) (unat (va_vpn1 v)) r" using own(2) r by blast
    show ?thesis
    proof (cases "r = p")
      case True
      then have "unat (va_vpn2 v) = unat (va_vpn2 va)" "unat (va_vpn1 v) = unat (va_vpn1 va)"
        using r p(1) tree unfolding as_tree_def by blast+
      then have "va_vpn v = va_vpn va \<longleftrightarrow> va_vpn0 v = va_vpn0 va"
        unfolding va_vpn_eq_iff by (metis word_unat_eq_iff)
      then have vpn: "va_vpn v = va_vpn va \<longleftrightarrow> unat (va_vpn0 v) = unat (va_vpn0 va)" by (metis word_unat_eq_iff)
      have t: "tabs ?sp r = Some (pt0\<lparr>pth_entries := (pth_entries pt0)[unat (va_vpn0 va) := pte]\<rparr>)" using True by simp
      have pt': "pt = pt0" using True pt p(2) by simp
      have "(pth_entries pt0)[unat (va_vpn0 va) := pte] ! unat (va_vpn0 v) =
          (if unat (va_vpn0 v) = unat (va_vpn0 va) then pte else pth_entries pt0 ! unat (va_vpn0 v))"
        using len va_index_less(3) [of va] by (metis nth_list_update)
      then show ?thesis unfolding as_walk_own0 [OF r pt] as_walk_own0 [OF r' t] vpn pt'
        by (cases "unat (va_vpn0 v) = unat (va_vpn0 va)") simp_all
    next
      case False
      then have t: "tabs ?sp r = Some pt" using pt by simp
      have "va_vpn v \<noteq> va_vpn va" using False r p(1) own0_unique unfolding va_vpn_eq_iff by metis
      then show ?thesis unfolding as_walk_own0 [OF r pt] as_walk_own0 [OF r' t] by simp
    qed
  qed
qed

section \<open>Mapping a page\<close>

text \<open>
  What the space and the allocator keep together, for a caller that holds the frames \<open>X\<close>: no table of the space lies
  in free memory or in the held frames.
\<close>

definition mm_inv :: "nat set \<Rightarrow> (nat \<Rightarrow> nat set) \<Rightarrow> mm \<Rightarrow> bool" where
  "mm_inv X F mm \<longleftrightarrow>
     bud_rep (snd mm) F \<and> buddy_inv F \<and> free_mem F \<subseteq> {..<2 ^ 56} \<and> free_mem F \<inter> X = {} \<and>
     as_inv (free_mem F \<union> X) (fst mm)"

text \<open>The root slot of the page holds a table of another space.\<close>

definition shared_slot :: "address_space \<Rightarrow> u64 \<Rightarrow> bool" where
  "shared_slot sp va \<longleftrightarrow>
     (let pte2 = pth_entries (as_root sp) ! unat (va_vpn2 va) in pte_v pte2 \<and> tabs sp (pte_addr pte2) = None)"

definition mm_step :: "nat set \<Rightarrow> (nat \<Rightarrow> nat set) \<Rightarrow> mm \<Rightarrow> (nat \<Rightarrow> nat set) \<Rightarrow> mm \<Rightarrow> bool" where
  "mm_step X F mm F' mm' \<longleftrightarrow> mm_inv X F' mm' \<and> free_mem F' \<subseteq> free_mem F \<and> (\<forall>v. as_walk (fst mm') v = as_walk (fst mm) v)"

lemma mm_step_refl: "mm_inv X F mm \<Longrightarrow> mm_step X F mm F mm"
  by (simp add: mm_step_def)

lemma mm_step_trans: "mm_step X F mm F1 mm1 \<Longrightarrow> mm_step X F1 mm1 F2 mm2 \<Longrightarrow> mm_step X F mm F2 mm2"
  by (auto simp: mm_step_def)

lemma as_map_l1_cases:
  assumes "mm_inv X F (sp, st)"
  obtains (Err) "as_map_l1 (unat (va_vpn2 va)) (sp, st) = (Err OutOfMemory, (sp, st))"
  | (Shared) q where "as_map_l1 (unat (va_vpn2 va)) (sp, st) = (Ok q, (sp, st))" "shared_slot sp va" "tabs sp q = None"
  | (Ok) q sp1 st1 F1 where "as_map_l1 (unat (va_vpn2 va)) (sp, st) = (Ok q, (sp1, st1))"
      "mm_step X F (sp, st) F1 (sp1, st1)" "own1 sp1 (unat (va_vpn2 va)) q" "\<not> shared_slot sp va"
proof -
  let ?i = "unat (va_vpn2 va)"
  let ?e = "pth_entries (as_root sp) ! ?i"
  have inv: "bud_rep st F" "buddy_inv F" "free_mem F \<subseteq> {..<2 ^ 56}" "as_inv (free_mem F \<union> X) sp" "free_mem F \<inter> X = {}"
    using assms by (simp_all add: mm_inv_def)
  have i: "?i < 512" by (rule va_index_less)
  consider (shared) "shared_slot sp va" | (owned) "pte_v ?e" "own1 sp ?i (pte_addr ?e)" "\<not> shared_slot sp va"
    | (empty) "\<not> pte_v ?e"
    using i by (cases "tabs sp (pte_addr ?e)") (auto simp: shared_slot_def own1_def Let_def)
  then show thesis
  proof cases
    case shared
    then show ?thesis using Shared [of "pte_addr ?e"]
      by (simp add: as_map_l1_def shared_slot_def Let_def pte_addr_fold)
  next
    case owned
    then show ?thesis using Ok [of "pte_addr ?e" sp st F] mm_step_refl [OF assms]
      by (simp add: as_map_l1_def Let_def pte_addr_fold)
  next
    case empty
    from inv(1-3) show ?thesis
    proof (cases rule: pt_create_cases)
      case Err
      with empty show ?thesis using that(1) by (simp add: as_map_l1_def Let_def)
    next
      case (Ok h st1 F1)
      let ?pte = "pte_set_v True (pte_set_ppn (pa_ppn (pth_addr h)) ?e)"
      note p = pointer_entry [OF Ok(4), of ?e]
      have fr: "unat (pth_addr h) \<in> free_mem F \<union> X" "free_mem F1 \<union> X \<subseteq> free_mem F \<union> X" "unat (pth_addr h) \<notin> free_mem F1 \<union> X"
        using Ok(6-8) inv(5) by auto
      note hang = hang1_inv [OF inv(4) i empty Ok(5,4) fr(1) p fr(2,3)]
      have "mm_step X F (sp, st) F1 (hang1 ?i ?pte h sp, st1)"
        using hang Ok inv(3,5) by (auto simp: mm_step_def mm_inv_def)
      moreover have "as_map_l1 ?i (sp, st) = (Inr (pte_addr ?pte), (hang1 ?i ?pte h sp, st1))"
        using empty Ok(1) by (simp add: as_map_l1_def Let_def hang1_def pte_addr_fold)
      ultimately show ?thesis using that(3) [of "pte_addr ?pte"] hang(3) empty p
        by (auto simp: shared_slot_def Let_def)
    qed
  qed
qed

lemma as_map_l0_cases:
  assumes "mm_inv X F (sp, st)" "own1 sp (unat (va_vpn2 va)) q"
  obtains (Err) "as_map_l0 q (unat (va_vpn1 va)) (sp, st) = (Err OutOfMemory, (sp, st))"
  | (Ok) p sp1 st1 F1 where "as_map_l0 q (unat (va_vpn1 va)) (sp, st) = (Ok p, (sp1, st1))"
      "mm_step X F (sp, st) F1 (sp1, st1)" "own0 sp1 (unat (va_vpn2 va)) (unat (va_vpn1 va)) p"
proof -
  let ?i = "unat (va_vpn2 va)" and ?j = "unat (va_vpn1 va)"
  have inv: "bud_rep st F" "buddy_inv F" "free_mem F \<subseteq> {..<2 ^ 56}" "as_inv (free_mem F \<union> X) sp" "free_mem F \<inter> X = {}"
    using assms(1) by (simp_all add: mm_inv_def)
  obtain pt1 where pt1: "tabs sp q = Some pt1" using assms(2) by (auto simp: own1_def)
  then have get: "bt_get (as_tables sp) q = Some pt1" by (simp add: tabs_def)
  let ?e = "pth_entries pt1 ! ?j"
  have j: "?j < 512" by (rule va_index_less)
  show thesis
  proof (cases "pte_v ?e")
    case True
    then show ?thesis using Ok [of "pte_addr ?e" sp st F] mm_step_refl [OF assms(1)] own0I [OF assms(2) pt1 j] get
      by (simp add: as_map_l0_def Let_def pte_addr_fold)
  next
    case False
    from inv(1-3) show ?thesis
    proof (cases rule: pt_create_cases)
      case Err
      with False get show ?thesis using that(1) by (simp add: as_map_l0_def Let_def)
    next
      case (Ok h st1 F1)
      let ?pte = "pte_set_v True (pte_set_ppn (pa_ppn (pth_addr h)) ?e)"
      note p = pointer_entry [OF Ok(4), of ?e]
      have fr: "unat (pth_addr h) \<in> free_mem F \<union> X" "free_mem F1 \<union> X \<subseteq> free_mem F \<union> X" "unat (pth_addr h) \<notin> free_mem F1 \<union> X"
        using Ok(6-8) inv(5) by auto
      note hang = hang0_inv [OF inv(4) assms(2) pt1 j False Ok(5,4) fr(1) p fr(2,3)]
      have "mm_step X F (sp, st) F1 (hang0 q pt1 ?j ?pte h sp, st1)"
        using hang Ok inv(3,5) by (auto simp: mm_step_def mm_inv_def)
      moreover have "q \<noteq> pth_addr h" using inv(4) pt1 Ok(6) by (auto simp: as_inv_def as_live_def)
      moreover have "length (pth_entries pt1) = 512" using inv(4) pt1 by (simp add: as_inv_def as_shape_def)
      ultimately have "as_map_l0 q ?j (sp, st) = (Inr (pte_addr ?pte), (hang0 q pt1 ?j ?pte h sp, st1))"
        "mm_step X F (sp, st) F1 (hang0 q pt1 ?j ?pte h sp, st1)"
        using False Ok(1) get j by (simp_all add: as_map_l0_def Let_def hang0_def pte_addr_fold bt_get_insert)
      moreover have "own0 (hang0 q pt1 ?j ?pte h sp) ?i ?j (pte_addr ?pte)" unfolding p(2) by (rule hang(3))
      ultimately show ?thesis by (rule that(2))
    qed
  qed
qed

lemma leaf_entry_fields:
  "pte_v (leaf_entry pa flags pte)" "pte_ppn (leaf_entry pa flags pte) = pa_ppn pa"
  "bits_get 1 7 (leaf_entry pa flags pte) = bits_get 1 7 flags"
proof -
  show "pte_v (leaf_entry pa flags pte)" by (simp add: leaf_entry_def pte_defs bits_simps)
  show "pte_ppn (leaf_entry pa flags pte) = pa_ppn pa"
    by (rule bit_word_eqI) (auto simp: leaf_entry_def pte_defs pa_ppn_def bits_simps)
  have "i \<le> 6 \<Longrightarrow> i = 0 \<or> i = 1 \<or> i = 2 \<or> i = 3 \<or> i = 4 \<or> i = 5 \<or> i = 6" for i :: nat by linarith
  then show "bits_get 1 7 (leaf_entry pa flags pte) = bits_get 1 7 flags"
    by (intro bit_word_eqI) (auto simp: leaf_entry_def pte_defs bits_simps eval_nat_numeral)
qed

lemma as_map_leaf_ok:
  assumes inv: "mm_inv X F (sp, st)" and p: "own0 sp (unat (va_vpn2 va)) (unat (va_vpn1 va)) p"
  obtains pte sp' where "as_map_leaf p (unat (va_vpn0 va)) pa flags (sp, st) = (Ok (), (sp', st))" "mm_inv X F (sp', st)"
    "as_walk sp' va = Some (leaf_entry pa flags pte)" "\<And>v. va_vpn v \<noteq> va_vpn va \<Longrightarrow> as_walk sp' v = as_walk sp v"
proof -
  have as: "as_inv (free_mem F \<union> X) sp" using inv by (simp add: mm_inv_def)
  obtain pt0 where pt0: "tabs sp p = Some pt0" using as p unfolding as_inv_def as_tree_def by (meson not_Some_eq)
  let ?e = "pth_entries pt0 ! unat (va_vpn0 va)"
  let ?sp = "put0 p pt0 (unat (va_vpn0 va)) (leaf_entry pa flags ?e) sp"
  have "as_map_leaf p (unat (va_vpn0 va)) pa flags (sp, st) = (Ok (), (?sp, st))"
    using pt0 by (simp add: as_map_leaf_def tabs_def put0_def Let_def)
  moreover have "mm_inv X F (?sp, st)" using inv put0_inv [OF as p pt0 subset_refl] by (simp add: mm_inv_def)
  ultimately show thesis using put0_walk [OF as p pt0] that leaf_entry_fields(1) by simp
qed

lemma as_map_cases:
  assumes "mm_inv X F (sp, st)"
  obtains (Oom) sp' st' F' where "as_map va pa flags (sp, st) = (Err OutOfMemory, (sp', st'))" "mm_step X F (sp, st) F' (sp', st')"
      "\<not> shared_slot sp va"
  | (Shared) "as_map va pa flags (sp, st) = (Err PageTableMissing, (sp, st))" "shared_slot sp va"
  | (Ok) sp' st' F' pte where "as_map va pa flags (sp, st) = (Ok (), (sp', st'))" "mm_inv X F' (sp', st')"
      "free_mem F' \<subseteq> free_mem F" "as_walk sp' va = Some (leaf_entry pa flags pte)"
      "\<And>v. va_vpn v \<noteq> va_vpn va \<Longrightarrow> as_walk sp' v = as_walk sp v" "\<not> shared_slot sp va"
  using assms
proof (cases rule: as_map_l1_cases [of _ _ _ _ va])
  case Err
  then show ?thesis
    using Oom [of sp st F] Shared mm_step_refl [OF assms] by (cases "shared_slot sp va")
      (auto simp: as_map_def as_map_l1_def shared_slot_def Let_def)
next
  case (Shared q)
  then show ?thesis using that(2) by (simp add: as_map_def as_map_l0_def tabs_def)
next
  case l1: (Ok q sp1 st1 F1)
  then have "mm_inv X F1 (sp1, st1)" by (simp add: mm_step_def)
  from this l1(3) show ?thesis
  proof (cases rule: as_map_l0_cases)
    case Err
    then show ?thesis using Oom [of sp1 st1 F1] l1 by (simp add: as_map_def)
  next
    case l0: (Ok p sp2 st2 F2)
    then have inv2: "mm_inv X F2 (sp2, st2)" by (simp add: mm_step_def)
    have step: "mm_step X F (sp, st) F2 (sp2, st2)" using l1(2) l0(2) by (rule mm_step_trans)
    from inv2 l0(3) show ?thesis
    proof (rule as_map_leaf_ok [where pa = pa and flags = flags])
      fix pte sp3
      assume leaf: "as_map_leaf p (unat (va_vpn0 va)) pa flags (sp2, st2) = (Inr (), (sp3, st2))" "mm_inv X F2 (sp3, st2)"
        "as_walk sp3 va = Some (leaf_entry pa flags pte)" "\<And>v. va_vpn v \<noteq> va_vpn va \<Longrightarrow> as_walk sp3 v = as_walk sp2 v"
      then show ?thesis using that(3) [of sp3 st2 F2 pte] l1 l0 step by (simp add: as_map_def mm_step_def)
    qed
  qed
qed

lemma empty_space_inv:
  assumes "pth_entries root = replicate 512 0"
  shows "as_inv free \<lparr>as_root = root, as_tables = []\<rparr>"
proof -
  have "length (pth_entries root) = 512" "\<And>i. i < 512 \<Longrightarrow> pth_entries root ! i = 0"
    unfolding assms by (simp_all only: length_replicate nth_replicate)
  then show ?thesis
    by (simp add: as_inv_def as_shape_def as_tree_def as_live_def tabs_def own1_def own0_def bt_inv_def bt_get_def)
qed

definition example_space :: address_space where
  "example_space =
     \<lparr>as_root = \<lparr>pth_addr = 0x87fff000, pth_entries = page_table_new,
        pth_page = \<lparr>frame_start = 0x87fff000, frame_size = 4096\<rparr>\<rparr>, as_tables = []\<rparr>"

lemma example_space_walk: "as_walk example_space va = None"
proof -
  have new: "page_table_new = replicate 512 0" by (simp add: page_table_new_def PTE_NUMBER_def pte_new_def)
  have "pth_entries (as_root example_space) ! unat (va_vpn2 va) = 0"
    unfolding example_space_def by (simp only: page_table_handle.simps address_space.simps new nth_replicate va_index_less)
  then show ?thesis by (simp add: as_walk_def)
qed

lemma mm_example_held:
  assumes "X \<inter> {..<0x88000000} = {}"
  obtains F st where "mm_inv X F (example_space, st)" "free_mem F \<subseteq> {..<0x88000000}"
proof -
  obtain F s where ex: "bud_rep (buddy_add 0x80200000 0x88000000 (\<lambda>_. 0, buddy_new)) F" "buddy_inv F"
    "s < 0x80600000" "aligned 10 s" "order_size 10 < s" "free_mem F = {s..<s + (0x88000000 - s) div 4096 * 4096}"
    by (rule buddy_example)
  have free: "free_mem F \<subseteq> {..<0x88000000}"
  proof
    fix x assume "x \<in> free_mem F"
    then have "x < s + (0x88000000 - s) div 4096 * 4096" unfolding ex(6) by simp
    also have "\<dots> \<le> s + (0x88000000 - s)" using div_times_less_eq_dividend by simp
    finally show "x \<in> {..<0x88000000}" using ex(3) by simp
  qed
  have "{..<0x88000000} \<subseteq> {..<2 ^ 56 :: nat}" unfolding lessThan_subset_iff by simp
  with free have small: "free_mem F \<subseteq> {..<2 ^ 56}" by (rule subset_trans)
  have apart: "free_mem F \<inter> X = {}" using Int_mono [OF free subset_refl, of X] assms by (simp only: Int_commute subset_empty)
  have "page_table_new = replicate 512 0" by (simp add: page_table_new_def PTE_NUMBER_def pte_new_def)
  then have "as_inv (free_mem F \<union> X) example_space" unfolding example_space_def
    by (intro empty_space_inv) (simp only: page_table_handle.select_convs)
  with small apart have "mm_inv X F (example_space, buddy_add 0x80200000 0x88000000 (\<lambda>_. 0, buddy_new))"
    unfolding mm_inv_def fst_conv snd_conv by (intro conjI ex(1,2))
  then show thesis using free by (rule that)
qed

lemma mm_example: obtains F st where "mm_inv {} F (example_space, st)"
  using mm_example_held [OF Int_empty_left] .

text \<open>C9: \<open>AddressSpace::map\<close> on a well-formed space: on success the hardware walk of the page gives a valid entry with the
  number of the physical page and the R, W, X, U, G, A, D bits of the flags, and every other page translates as before.
  The errors are out of memory, and a missing table exactly when the root slot is shared with the kernel's tables; then
  no translation changes.  In all cases the tables stay a tree of pages that are not free in the allocator.
\<close>

theorem as_map_correct:
  assumes "mm_inv X F (sp, st)"
  shows "\<exists>r sp' st' F'. as_map va pa flags (sp, st) = (r, (sp', st')) \<and> mm_inv X F' (sp', st') \<and> free_mem F' \<subseteq> free_mem F \<and>
    (r = Err PageTableMissing \<longleftrightarrow> shared_slot sp va) \<and>
    (case r of
       Inr _ \<Rightarrow> (\<exists>pte. as_walk sp' va = Some pte \<and> pte_ppn pte = pa_ppn pa \<and> bits_get 1 7 pte = bits_get 1 7 flags) \<and>
         (\<forall>v. va_vpn v \<noteq> va_vpn va \<longrightarrow> as_walk sp' v = as_walk sp v)
     | Inl e \<Rightarrow> (e = OutOfMemory \<or> e = PageTableMissing) \<and> (\<forall>v. as_walk sp' v = as_walk sp v))"
  using assms
proof (cases rule: as_map_cases [of _ _ _ _ va pa flags])
  case (Oom sp' st' F')
  then show ?thesis by (auto simp: mm_step_def)
next
  case Shared
  then show ?thesis using assms by auto
next
  case (Ok sp' st' F' pte)
  then show ?thesis using leaf_entry_fields [of pa flags pte] by auto
qed

theorem as_map_correct_witness:
  "\<exists>F sp st r sp' st'. mm_inv {} F (sp, st) \<and> as_map 0x40000000 0x80201000 0xcf (sp, st) = (r, (sp', st')) \<and>
     (r = Ok () \<longrightarrow> (\<exists>pte. as_walk sp' 0x40000123 = Some pte \<and> pte_ppn pte = 0x80201 \<and> pte_w pte))"
proof -
  obtain F sp st where inv: "mm_inv {} F (sp, st)" using mm_example by metis
  obtain r sp' st' where r: "as_map 0x40000000 0x80201000 0xcf (sp, st) = (r, (sp', st'))" by (metis prod_cases3)
  have "\<exists>pte. as_walk sp' 0x40000123 = Some pte \<and> pte_ppn pte = 0x80201 \<and> pte_w pte" if ok: "r = Ok ()"
  proof -
    obtain pte where pte: "as_walk sp' 0x40000000 = Some pte" "pte_ppn pte = pa_ppn 0x80201000"
        "bits_get 1 7 pte = bits_get 1 7 (0xcf :: u64)"
      using as_map_correct [OF inv, of "0x40000000" "0x80201000" "0xcf"] r ok by auto
    have "pte_w pte \<longleftrightarrow> bit (bits_get 1 7 pte) 1" by (simp add: pte_defs bits_simps numeral_2_eq_2)
    also have "\<dots>" unfolding pte(3) by (simp add: bits_simps)
    finally have "pte_w pte" .
    moreover have "va_vpn 0x40000123 = va_vpn 0x40000000" by (simp add: va_vpn_def bits_get_def bits_mask_def)
    then have "as_walk sp' 0x40000123 = Some pte" using as_walk_vpn pte(1) by metis
    moreover have "pa_ppn 0x80201000 = 0x80201" by (simp add: pa_ppn_def bits_get_def bits_mask_def)
    ultimately show ?thesis using pte(2) by auto
  qed
  then show ?thesis using inv r by blast
qed

section \<open>Unmapping a page\<close>






section \<open>Activating a space\<close>


end
