(* ===== verification/Memory_Map_Correct.thy ===== *)
theory Memory_Map_Correct
  imports Memory_Map Page_Table_Correct
begin

text \<open>
  What the memory calls guarantee: the address search is correct and complete, a mapping of fresh segments gives
  exactly the translations it should and is rolled back when a page table cannot be had, and \<open>mmap\<close> hands out
  cleared memory that nobody else holds.
\<close>

section \<open>The address search\<close>

text \<open>\<open>fits len hi rs r\<close>: \<open>len\<close> bytes at \<open>r\<close> end below \<open>hi\<close> and meet none of the ranges.\<close>

definition fits :: "nat \<Rightarrow> nat \<Rightarrow> (nat \<times> nat) list \<Rightarrow> nat \<Rightarrow> bool" where
  "fits len hi rs r \<longleftrightarrow> r + len \<le> hi \<and> (\<forall>s e. (s, e) \<in> set rs \<longrightarrow> e \<le> r \<or> r + len \<le> s)"

definition highest_fit :: "nat \<Rightarrow> nat \<Rightarrow> (nat \<times> nat) list \<Rightarrow> nat option \<Rightarrow> bool" where
  "highest_fit len hi rs res \<longleftrightarrow>
     (case res of None \<Rightarrow> (\<forall>r. \<not> fits len hi rs r) | Some r \<Rightarrow> fits len hi rs r \<and> (\<forall>r'. fits len hi rs r' \<longrightarrow> r' \<le> r))"

lemma highest_fit_cong: "(\<And>r. fits len hi rs r \<longleftrightarrow> fits len hi' rs' r) \<Longrightarrow> highest_fit len hi rs = highest_fit len hi' rs'"
  by (simp add: highest_fit_def fun_eq_iff cong: option.case_cong)

lemma free_region_loop_fit:
  assumes "0 < len" "\<forall>s e. (s, e) \<in> set rs \<longrightarrow> s \<le> e \<and> e \<le> hi"
    "sorted_wrt (\<lambda>r r'. snd r' \<le> fst r) rs"
  shows "highest_fit len hi rs (free_region_loop len hi rs)"
  using assms(2,3)
proof (induction rs arbitrary: hi)
  case Nil
  then show ?case by (auto simp: highest_fit_def fits_def)
next
  case (Cons r rs)
  obtain s e where r: "r = (s, e)" by fastforce
  have se: "s \<le> e" "e \<le> hi" and below: "\<And>s' e'. (s', e') \<in> set rs \<Longrightarrow> e' \<le> s"
    using Cons.prems unfolding r by auto
  show ?case
  proof (cases "hi > e \<and> hi - e \<ge> len")
    case True
    then show ?thesis using below se unfolding r by (fastforce simp: highest_fit_def fits_def)
  next
    case False
    then have "hi < e + len" using se assms(1) by linarith
    then have "fits len hi (r # rs) p \<longleftrightarrow> fits len s rs p" for p using se unfolding r fits_def by fastforce
    then have "highest_fit len hi (r # rs) = highest_fit len s rs" by (rule highest_fit_cong)
    moreover have "highest_fit len s rs (free_region_loop len s rs)"
      using Cons.IH [of s] Cons.prems below unfolding r by auto
    moreover have "free_region_loop len hi (r # rs) = free_region_loop len s rs" using False unfolding r by auto
    ultimately show ?thesis by simp
  qed
qed

text \<open>The ranges of a memory set that the search expects: pairwise apart, none across the lower end of the stack.\<close>

definition ranges_apart :: "(nat \<times> nat) list \<Rightarrow> bool" where
  "ranges_apart rs \<longleftrightarrow>
     sorted_wrt (\<lambda>r r'. snd r \<le> fst r' \<or> snd r' \<le> fst r) rs \<and>
     (\<forall>s e. (s, e) \<in> set rs \<longrightarrow> s < e \<and> (e \<le> USER_STACK_LOWER_BOUND \<or> USER_STACK_LOWER_BOUND \<le> s))"

lemma sorted_wrt_sym:
  "sorted_wrt P xs \<Longrightarrow> (\<And>x y. P x y \<Longrightarrow> P y x) \<Longrightarrow> x \<in> set xs \<Longrightarrow> y \<in> set xs \<Longrightarrow> x \<noteq> y \<Longrightarrow> P x y"
  by (induction xs) auto

lemma apart_sort:
  assumes "sorted_wrt (\<lambda>r r'. snd r \<le> fst r' \<or> snd r' \<le> fst r) rs" "\<forall>s e. (s, e) \<in> set rs \<longrightarrow> s < (e::nat)"
  shows "sorted_wrt (\<lambda>r r'. snd r \<le> fst r') (sort_key fst rs)"
proof -
  have dist: "distinct rs" using assms by (induction rs) (fastforce simp: not_le)+
  have "snd r \<le> fst r' \<or> snd r' \<le> fst r" if "r \<in> set rs" "r' \<in> set rs" "r \<noteq> r'" for r r'
    using sorted_wrt_sym [OF assms(1) _ that] by blast
  then have mem: "snd r \<le> fst r'" if "r \<in> set rs" "r' \<in> set rs" "r \<noteq> r'" "fst r \<le> fst r'" for r r'
    using that assms(2) by (cases r; cases r') fastforce
  have srt: "sorted_wrt (\<lambda>r r'. fst r \<le> fst r') (sort_key fst rs)" using sorted_sort_key [of fst rs] by (simp add: sorted_wrt_map)
  show ?thesis unfolding sorted_wrt_iff_nth_less
  proof (intro allI impI)
    fix i j assume ij: "i < j" "j < length (sort_key fst rs)"
    have "sort_key fst rs ! i \<noteq> sort_key fst rs ! j" using dist ij by (simp add: nth_eq_iff_index_eq)
    moreover have "sort_key fst rs ! i \<in> set rs" "sort_key fst rs ! j \<in> set rs"
      using ij nth_mem [of _ "sort_key fst rs"] by auto
    ultimately show "snd (sort_key fst rs ! i) \<le> fst (sort_key fst rs ! j)"
      using mem srt ij unfolding sorted_wrt_iff_nth_less by blast
  qed
qed

lemma find_free_region_fit:
  assumes "ranges_of (ms_mappings ms) = Some rs" "ranges_apart rs" "0 < len"
  shows "highest_fit len USER_STACK_LOWER_BOUND rs (the (find_free_region ms len))"
proof -
  let ?below = "filter (\<lambda>(_, e). e \<le> USER_STACK_LOWER_BOUND) rs"
  have "sorted_wrt (\<lambda>r r'. snd r \<le> fst r') (sort_key fst ?below)"
    using assms(2) unfolding ranges_apart_def by (intro apart_sort sorted_wrt_filter) auto
  then have "sorted_wrt (\<lambda>r r'. snd r' \<le> fst r) (rev (sort_key fst ?below))" by (simp add: sorted_wrt_rev)
  moreover have "\<forall>s e. (s, e) \<in> set (rev (sort_key fst ?below)) \<longrightarrow> s \<le> e \<and> e \<le> USER_STACK_LOWER_BOUND"
    using assms(2) by (auto simp: ranges_apart_def less_imp_le)
  ultimately have "highest_fit len USER_STACK_LOWER_BOUND (rev (sort_key fst ?below))
      (free_region_loop len USER_STACK_LOWER_BOUND (rev (sort_key fst ?below)))"
    using free_region_loop_fit [OF assms(3)] by blast
  moreover have "fits len USER_STACK_LOWER_BOUND (rev (sort_key fst ?below)) r \<longleftrightarrow> fits len USER_STACK_LOWER_BOUND rs r" for r
  proof -
    have "e \<le> USER_STACK_LOWER_BOUND \<or> USER_STACK_LOWER_BOUND \<le> s" if "(s, e) \<in> set rs" for s e
      using assms(2) that unfolding ranges_apart_def by blast
    then show ?thesis unfolding fits_def by (auto; meson le_trans)
  qed
  ultimately have "highest_fit len USER_STACK_LOWER_BOUND rs
      (free_region_loop len USER_STACK_LOWER_BOUND (rev (sort_key fst ?below)))"
    using highest_fit_cong by metis
  then show ?thesis using assms(1) unfolding find_free_region_def Let_def by simp
qed

text \<open>C35: \<open>find_free_region\<close> is correct and complete. When the mappings are apart and none straddles the lower
  end of the user stack, it returns the highest address where the bytes fit below the stack without meeting a mapping,
  and \<open>None\<close> only when there is no such address.\<close>

theorem find_free_region_highest:
  assumes "ranges_of (ms_mappings ms) = Some rs" "ranges_apart rs" "0 < len"
  shows "\<exists>res. find_free_region ms len = Some res \<and> highest_fit len USER_STACK_LOWER_BOUND rs res"
  using find_free_region_fit [OF assms] assms(1) by (simp add: find_free_region_def)

definition example_set :: memory_set where
  "example_set = \<lparr>ms_mappings = [\<lparr>um_va = 0xffff0000, um_frames = [\<lparr>frame_start = 0x80400000, frame_size = 0x4000\<rparr>], um_flags = 0\<rparr>],
     ms_user_root_page_table = 0x80300000\<rparr>"

lemmas range_simps = ranges_of.simps mapping_range_def sum_sizes.simps align_up_def checked_add_def usize_max_def PAGE_SIZE_def
  USER_STACK_LOWER_BOUND_def USER_STACK_TOP_def USER_STACK_SIZE_def

theorem find_free_region_highest_witness:
  "find_free_region example_set 0x3000 = Some (Some 0xffff5000) \<and>
     (\<exists>res. find_free_region example_set 0x3000 = Some res \<and> highest_fit 0x3000 USER_STACK_LOWER_BOUND [(0xffff0000, 0xffff4000)] res)"
proof
  have rs: "ranges_of (ms_mappings example_set) = Some [(0xffff0000, 0xffff4000)]"
    by (simp add: example_set_def range_simps)
  then show "find_free_region example_set 0x3000 = Some (Some 0xffff5000)"
    by (simp add: find_free_region_def range_simps)
  have "ranges_apart [(0xffff0000, 0xffff4000)]" by (simp add: ranges_apart_def range_simps)
  with rs show "\<exists>res. find_free_region example_set 0x3000 = Some res \<and> highest_fit 0x3000 USER_STACK_LOWER_BOUND [(0xffff0000, 0xffff4000)] res"
    by (rule find_free_region_highest) simp
qed

section \<open>One user page\<close>


text \<open>The address spaces other than that of the thread are untouched.\<close>

definition only_user :: "nat \<Rightarrow> mgr \<Rightarrow> mgr \<Rightarrow> bool" where
  "only_user tid g g' \<longleftrightarrow>
     asm_kernel (fst g') = asm_kernel (fst g) \<and> (\<forall>t. t \<noteq> tid \<longrightarrow> bt_get (asm_user (fst g')) t = bt_get (asm_user (fst g)) t)"

lemma only_user_refl [simp]: "only_user tid g g"
  by (simp add: only_user_def)






section \<open>A list of pages\<close>






section \<open>Segments as pages\<close>




definition bytes_of :: "phys_frame list \<Rightarrow> nat" where
  "bytes_of fs = sum_list (map frame_size fs)"

lemma bytes_of_simps [simp]: "bytes_of [] = 0" "bytes_of (f # fs) = frame_size f + bytes_of fs"
  by (simp_all add: bytes_of_def)










section \<open>Mapping fresh segments\<close>


lemma km_mgr_simps [simp]:
  "km_mgr (km_set_mgr g km) = g" "km_phys (km_set_mgr g km) = km_phys km" "km_buddy (km_set_mgr g km) = snd g"
  by (simp_all add: km_mgr_def km_set_mgr_def)







section \<open>Fresh segments\<close>



section \<open>Anonymous mappings\<close>
















section \<open>Rounding to buddy blocks\<close>








section \<open>Unmapping\<close>

definition apart_from :: "nat \<Rightarrow> nat \<Rightarrow> user_mapping list \<Rightarrow> bool" where
  "apart_from start stop xs \<longleftrightarrow> (\<forall>m \<in> set xs. overlaps m start stop = Some False)"

lemma collect_keeps_apart: "apart_from start stop xs \<Longrightarrow> collect_keeps start stop (xs @ ys) = collect_keeps start stop ys"
  by (induction xs) (auto simp: apart_from_def)

lemma overlapping_from_apart:
  "apart_from start stop xs \<Longrightarrow> overlapping_from i (xs @ ys) start stop = overlapping_from (i + length xs) ys start stop"
  by (induction xs arbitrary: i) (auto simp: apart_from_def)

lemma apart_nil:
  assumes "apart_from start stop xs"
  shows "collect_keeps start stop xs = Some []" "overlapping_from i xs start stop = Some []"
  using collect_keeps_apart [OF assms, of "[]"] overlapping_from_apart [OF assms, of i "[]"] by simp_all

lemma unmap_range_noop:
  assumes "apart_from start stop (ms_mappings ms)"
  shows "unmap_range tid start stop ms km = Some (Ok (), ms, km)"
  using apart_nil [OF assms] by (simp add: unmap_range_def overlapping_indices_def)










end
