(* ===== verification/Tasks_Correct.thy ===== *)
theory Tasks_Correct
  imports Tasks Id_Alloc_Correct Memory_Map_Correct "HOL-Library.Multiset"
begin

text \<open>
  The task table: its invariant and that every operation keeps it, the fairness of the round-robin choice, what
  fork does on success and on failure, and what exit and wait do to the family tree.
\<close>

section \<open>Updating one entry\<close>

lemma bt_modify_split:
  assumes "bt_inv m" "bt_get m k = Some v"
  obtains xs ys where "m = xs @ (k, v) # ys" "\<And>w. bt_insert k w m = xs @ (k, w) # ys"
proof -
  have "(k, v) \<in> set m" using assms by (simp add: bt_get_iff)
  then obtain xs ys where m: "m = xs @ (k, v) # ys" by (meson split_list)
  have "\<forall>x\<in>fst ` set xs. x < k" using assms(1) by (auto simp: m bt_inv_append)
  then show ?thesis using that [OF m] bt_insert_replace by (metis m)
qed

lemma get_modify_task:
  "bt_get (tasks_map (modify_task tid f ts)) j =
     (if j = tid then map_option f (bt_get (tasks_map ts) tid) else bt_get (tasks_map ts) j)"
  by (auto simp: modify_task_def bt_get_insert split: option.splits)

lemma modify_task_cursor [simp]: "tasks_cursor (modify_task tid f ts) = tasks_cursor ts"
  by (auto simp: modify_task_def split: option.splits)

lemma modify_task_None: "bt_get (tasks_map ts) tid = None \<Longrightarrow> modify_task tid f ts = ts"
  by (simp add: modify_task_def)

lemma distinct_submset:
  assumes "mset xs \<subseteq># mset ys" "distinct ys"
  shows "distinct xs" "set xs \<subseteq> set ys"
proof -
  obtain C where "mset ys = mset xs + C" using assms(1) by (auto simp: mset_subset_eq_exists_conv)
  moreover obtain zs where "mset zs = C" using ex_mset by blast
  ultimately have "mset ys = mset (xs @ zs)" by simp
  then show "distinct xs" using assms(2) mset_eq_imp_distinct_iff by fastforce
  show "set xs \<subseteq> set ys" using assms(1) set_mset_mono by fastforce
qed

lemma keys_modify_task [simp]: "fst ` set (tasks_map (modify_task tid f ts)) = fst ` set (tasks_map ts)"
  using bt_get_None_iff [of "tasks_map ts" tid]
  by (auto simp: modify_task_def keys_bt_insert split: option.splits)

lemma modify_task_inv: "bt_inv (tasks_map ts) \<Longrightarrow> bt_inv (tasks_map (modify_task tid f ts))"
  by (auto simp: modify_task_def bt_insert_inv split: option.splits)

section \<open>The table invariant\<close>

text \<open>All ids in children lists, in the order of the table.\<close>

definition children_of :: "(nat, 'f task) btree \<Rightarrow> nat list" where
  "children_of m = concat (map (\<lambda>(_, t). t_children t) m)"

definition task_ok :: "'f task \<Rightarrow> bool" where
  "task_ok t \<longleftrightarrow> length (tc_context (t_trap_context t)) = 32"

text \<open>
  The table is a map whose keys are held ids; contexts have 32 registers; every listed child is a task and has one
  parent at most; the cursor and the running task are in the table.
\<close>

definition table_inv :: "'f kernel \<Rightarrow> bool" where
  "table_inv k \<longleftrightarrow>
     (let m = tasks_map (k_tasks k) in
      bt_inv m \<and> ia_inv 64 0 (k_tids k) \<and> ia_majors (k_tids k) = [] \<and> fst ` set m \<subseteq> ia_held 64 0 (k_tids k) \<and>
      (\<forall>(tid, t)\<in>set m. task_ok t) \<and> distinct (children_of m) \<and> set (children_of m) \<subseteq> fst ` set m \<and>
      set_option (tasks_cursor (k_tasks k)) \<subseteq> fst ` set m \<and> set_option (k_current k) \<subseteq> fst ` set m)"

lemma children_modify:
  assumes "bt_inv (tasks_map ts)" "bt_get (tasks_map ts) tid = Some t"
  shows "mset (children_of (tasks_map (modify_task tid f ts))) + mset (t_children t) =
    mset (children_of (tasks_map ts)) + mset (t_children (f t))"
proof -
  obtain xs ys where "tasks_map ts = xs @ (tid, t) # ys" "\<And>w. bt_insert tid w (tasks_map ts) = xs @ (tid, w) # ys"
    using bt_modify_split [OF assms] by metis
  then show ?thesis using assms(2) by (simp add: modify_task_def children_of_def)
qed

lemma children_modify_same:
  assumes "bt_inv (tasks_map ts)" "\<And>t. t_children (f t) = t_children t"
  shows "mset (children_of (tasks_map (modify_task tid f ts))) = mset (children_of (tasks_map ts))"
proof (cases "bt_get (tasks_map ts) tid")
  case None
  then show ?thesis by (simp add: modify_task_def)
next
  case (Some t)
  then show ?thesis using children_modify [OF assms(1) Some, of f] assms(2) by simp
qed

lemma tasks_ok_modify:
  assumes "bt_inv (tasks_map ts)" "\<forall>(tid, t)\<in>set (tasks_map ts). task_ok t" "\<And>t. task_ok t \<Longrightarrow> task_ok (f t)"
  shows "\<forall>(tid, t)\<in>set (tasks_map (modify_task tid f ts)). task_ok t"
proof (cases "bt_get (tasks_map ts) tid")
  case (Some t)
  then have "(tid, t) \<in> set (tasks_map ts)" using assms(1) by (simp add: bt_get_iff)
  then show ?thesis using assms Some by (auto simp: modify_task_def set_bt_insert)
qed (use assms in \<open>simp add: modify_task_def\<close>)

text \<open>An update of one entry that keeps the children keeps the invariant.\<close>

lemma table_inv_modify:
  assumes "table_inv k" "\<And>t. t_children (f t) = t_children t" "\<And>t. task_ok t \<Longrightarrow> task_ok (f t)"
  shows "table_inv (k\<lparr>k_tasks := modify_task tid f (k_tasks k)\<rparr>)"
proof -
  have inv: "bt_inv (tasks_map (k_tasks k))" using assms(1) by (simp add: table_inv_def Let_def)
  note m = children_modify_same [where f = f and tid = tid, OF inv assms(2)]
  show ?thesis
    using assms(1) modify_task_inv [OF inv, of tid f] tasks_ok_modify [where f = f and tid = tid, OF inv _ assms(3)]
      mset_eq_imp_distinct_iff [OF m] mset_eq_setD [OF m]
    by (simp add: table_inv_def Let_def)
qed

section \<open>Every operation keeps the invariant\<close>

lemma table_inv_current:
  "table_inv k \<Longrightarrow> bt_get (tasks_map (k_tasks k)) tid = Some t \<Longrightarrow> table_inv (k\<lparr>k_current := Some tid\<rparr>)"
  using bt_get_None_iff [of "tasks_map (k_tasks k)" tid] by (simp add: table_inv_def Let_def)

lemma save_current_inv: "table_inv k \<Longrightarrow> length frame = 32 \<Longrightarrow> table_inv (save_current frame sepc sstatus satp k)"
  by (auto simp: save_current_def task_ok_def intro!: table_inv_modify split: option.splits)

lemma wait4_inv: "table_inv k \<Longrightarrow> table_inv (snd (wait4 tid nohang k))"
  by (auto simp: wait4_def Let_def task_ok_def intro!: table_inv_modify split: option.splits)

lemma select_next_inv:
  assumes "table_inv k"
  shows "table_inv (snd (select_next k))"
proof (cases "next_tid (k_tasks k)")
  case (Some tid)
  obtain t where t: "bt_get (tasks_map (k_tasks k)) tid = Some t" and "tid \<in> fst ` set (tasks_map (k_tasks k))"
  proof -
    have "tid \<in> fst ` set (tasks_map (k_tasks k))"
      using Some by (auto simp: next_tid_def next_runnable_def find_Some_iff image_iff split: option.splits)
        (metis (no_types) filter_is_subset nth_mem subsetD fst_conv)+
    then show ?thesis using that bt_get_None_iff [of "tasks_map (k_tasks k)" tid] by fastforce
  qed
  then have "table_inv (k\<lparr>k_tasks := (k_tasks k)\<lparr>tasks_cursor := Some tid\<rparr>, k_current := Some tid\<rparr>)"
    using assms by (simp add: table_inv_def Let_def)
  from table_inv_modify [OF this, of mark_runnable tid] show ?thesis
    using Some t by (simp add: select_next_def Let_def mark_runnable_def task_ok_def table_inv_def)
qed (use assms in \<open>simp add: select_next_def\<close>)

lemma table_inv_mem: "table_inv (k\<lparr>k_mem := km\<rparr>) = table_inv k"
  by (simp add: table_inv_def)

text \<open>\<open>exit\<close> moves the children of the task to task 1: together the lists stay the same.\<close>

lemma exit_children:
  assumes "bt_inv (tasks_map ts)" "bt_get (tasks_map ts) tid = Some t" "tid \<noteq> 1"
    and ts': "ts' = modify_task 1 (\<lambda>i. i\<lparr>t_children := t_children i @ t_children t\<rparr>)
      (modify_task tid (\<lambda>t. t\<lparr>t_exit_code := code, t_status := Zombie, t_children := []\<rparr>) ts)"
  shows "mset (children_of (tasks_map ts')) =
    (if bt_get (tasks_map ts) 1 = None then mset (children_of (tasks_map ts)) - mset (t_children t)
     else mset (children_of (tasks_map ts)))"
proof -
  let ?f = "\<lambda>t. t\<lparr>t_exit_code := code, t_status := Zombie, t_children := []\<rparr>"
  let ?g = "\<lambda>i. i\<lparr>t_children := t_children i @ t_children t\<rparr>"
  let ?ts1 = "modify_task tid ?f ts"
  have one: "mset (children_of (tasks_map ?ts1)) + mset (t_children t) = mset (children_of (tasks_map ts))"
    using children_modify [OF assms(1,2), of ?f] by simp
  have get: "bt_get (tasks_map ?ts1) 1 = bt_get (tasks_map ts) 1" using assms(3) by (simp add: get_modify_task)
  show ?thesis
  proof (cases "bt_get (tasks_map ts) 1")
    case None
    then have "ts' = ?ts1" using get by (simp only: ts' modify_task_None)
    then show ?thesis using one None by (metis add_diff_cancel_right')
  next
    case (Some i)
    then have "mset (children_of (tasks_map ts')) + mset (t_children i) =
        mset (children_of (tasks_map ?ts1)) + mset (t_children (?g i))"
      using children_modify [OF modify_task_inv [OF assms(1)], of tid ?f 1 i ?g] get by (simp add: ts')
    then show ?thesis using one Some by (simp add: ac_simps)
  qed
qed

lemma exit_inv:
  assumes "table_inv k" "exit code k = Some k'"
  shows "table_inv k'"
proof (cases "k_current k")
  case (Some tid)
  let ?m = "tasks_map (k_tasks k)"
  show ?thesis
  proof (cases "bt_get ?m tid")
    case None
    then show ?thesis using assms Some by (auto simp: exit_def split: if_splits)
  next
    case t: (Some t)
    let ?f = "\<lambda>t. t\<lparr>t_exit_code := code, t_status := Zombie, t_children := []\<rparr>"
    let ?g = "\<lambda>i. i\<lparr>t_children := t_children i @ t_children t\<rparr>"
    let ?ts1 = "modify_task tid ?f (k_tasks k)" and ?ts = "modify_task 1 ?g (modify_task tid ?f (k_tasks k))"
    have k': "k' = k\<lparr>k_tasks := ?ts\<rparr>" "tid \<noteq> 1"
      using assms(2) Some t by (auto simp: exit_def Let_def split: if_splits)
    have inv: "bt_inv ?m" and ok: "\<forall>(tid, t)\<in>set ?m. task_ok t" and d: "distinct (children_of ?m)"
      using assms(1) by (simp_all add: table_inv_def Let_def)
    have "mset (children_of (tasks_map ?ts)) \<subseteq># mset (children_of ?m)"
      using exit_children [OF inv t k'(2) refl, of code] by (simp split: if_splits)
    then have "distinct (children_of (tasks_map ?ts))" "set (children_of (tasks_map ?ts)) \<subseteq> set (children_of ?m)"
      using d distinct_submset by blast+
    moreover have "\<forall>(tid, t)\<in>set (tasks_map ?ts). task_ok t"
      by (intro tasks_ok_modify modify_task_inv inv ok) (simp_all add: task_ok_def)
    ultimately show ?thesis using assms(1) modify_task_inv [OF modify_task_inv [OF inv]]
      by (auto simp: k' table_inv_def Let_def)
  qed
qed (use assms in \<open>simp add: exit_def\<close>)

lemma exit_keys:
  assumes "exit code k = Some k'"
  shows "fst ` set (tasks_map (k_tasks k')) = fst ` set (tasks_map (k_tasks k))"
proof -
  have "k' = k \<or> (\<exists>f g tid. k' = k\<lparr>k_tasks := modify_task 1 g (modify_task tid f (k_tasks k))\<rparr>)"
    using assms by (auto simp: exit_def Let_def split: option.splits if_splits)
  then show ?thesis by (elim disjE exE) simp_all
qed

section \<open>Fork\<close>

lemma task_try_clone_Ok:
  assumes "task_try_clone tid new_tid frame sepc t km = Some (Ok c, km')"
  shows "t_parent c = Some tid \<and> t_children c = [] \<and> t_status c = Running \<and> t_fd_table c = t_fd_table t \<and>
    tc_context (t_trap_context c) = frame[A0_INDEX := 0] \<and> tc_sepc (t_trap_context c) = sepc + 4 \<and>
    tc_sstatus (t_trap_context c) = tc_sstatus (t_trap_context t) \<and>
    tc_satp (t_trap_context c) =
      satp_set_mode SATP_SV39 (satp_set_ppn (pa_ppn (ms_user_root_page_table (t_memory_set c))) 0)"
proof -
  have "of_nat (unat sepc + 4) = sepc + 4" by simp
  then show ?thesis using assms
    by (auto simp: task_try_clone_def clone_child_def Let_def checked_add_def
        split: Option.bind_splits sum.splits if_splits)
qed

lemma alloc_tid_Some:
  assumes "table_inv k" "alloc_tid k = (Some tid, k1)"
  shows "k_tasks k1 = k_tasks k \<and> k_mem k1 = k_mem k \<and> k_current k1 = k_current k" "ia_inv 64 0 (k_tids k1)" "tid \<notin> ia_held 64 0 (k_tids k)"
    "ia_held 64 0 (k_tids k1) = insert tid (ia_held 64 0 (k_tids k))" "ia_majors (k_tids k1) = []"
    "tid \<in> fa_universe (ia_flat (k_tids k1))"
proof -
  have i: "ia_inv 64 0 (k_tids k)" "ia_majors (k_tids k) = []" using assms(1) by (simp_all add: table_inv_def Let_def)
  obtain a where a: "ia_alloc 64 (k_tids k) = Some (tid, a)" and k1: "k1 = k\<lparr>k_tids := a\<rparr>"
    using assms(2) by (auto simp: alloc_tid_def split: option.splits)
  note r = ia_alloc_Some [OF i(1) a]
  show "k_tasks k1 = k_tasks k \<and> k_mem k1 = k_mem k \<and> k_current k1 = k_current k" by (simp add: k1)
  show "ia_inv 64 0 (k_tids k1)" "tid \<notin> ia_held 64 0 (k_tids k)"
    "ia_held 64 0 (k_tids k1) = insert tid (ia_held 64 0 (k_tids k))" using r by (simp_all add: k1)
  show "ia_majors (k_tids k1) = []" using a i(2) by (auto simp: k1 ia_alloc_def split: option.splits)
  have "tid \<in> ia_held 64 0 a" using r by simp
  then show "tid \<in> fa_universe (ia_flat (k_tids k1))"
    by (auto simp: k1 ia_held_def ia_is_allocated_def fa_contains_def fa_universe_def split: if_splits)
qed

text \<open>A fresh id has no entry and no parent.\<close>

lemma fresh_tid:
  assumes "table_inv k" "tid \<notin> ia_held 64 0 (k_tids k)"
  shows "bt_get (tasks_map (k_tasks k)) tid = None" "tid \<notin> set (children_of (tasks_map (k_tasks k)))"
  using assms bt_get_None_iff [of "tasks_map (k_tasks k)" tid] by (auto simp: table_inv_def Let_def)

lemma clone_task_Ok:
  assumes "table_inv k" "clone_task frame sepc k = Some (Ok new_tid, k')"
  obtains tid t c where "k_current k = Some tid" "bt_get (tasks_map (k_tasks k)) tid = Some t"
    "new_tid \<notin> ia_held 64 0 (k_tids k)" "ia_held 64 0 (k_tids k') = insert new_tid (ia_held 64 0 (k_tids k))"
    "ia_inv 64 0 (k_tids k')" "ia_majors (k_tids k') = []" "k_current k' = Some tid" "new_tid \<noteq> tid"
    "k_tasks k' = (k_tasks k)\<lparr>tasks_map := bt_insert new_tid c
       (bt_insert tid (t\<lparr>t_children := t_children t @ [new_tid]\<rparr>) (tasks_map (k_tasks k)))\<rparr>"
    "task_try_clone tid new_tid frame sepc t (k_mem k) = Some (Ok c, k_mem k')"
proof -
  obtain tid k1 where tid: "k_current k = Some tid" and a: "alloc_tid k = (Some new_tid, k1)"
    using assms(2) by (auto simp: clone_task_def Let_def split: option.splits prod.splits Option.bind_splits sum.splits)
  note r = alloc_tid_Some [OF assms(1) a]
  have kt: "k_tasks k1 = k_tasks k" "k_mem k1 = k_mem k" "k_current k1 = k_current k" using r(1) by simp_all
  obtain t where t: "bt_get (tasks_map (k_tasks k)) tid = Some t"
    using assms(1) tid bt_get_None_iff [of "tasks_map (k_tasks k)" tid] by (fastforce simp: table_inv_def Let_def)
  obtain c km where c: "task_try_clone tid new_tid frame sepc t (k_mem k) = Some (Ok c, km)"
    and reg: "register_task new_tid (Some tid) c (k1\<lparr>k_mem := km\<rparr>) = Some k'"
    using assms(2) by (auto simp: clone_task_def tid a kt t Let_def split: Option.bind_splits sum.splits)
  have fresh: "bt_get (tasks_map (k_tasks k)) new_tid = None" using fresh_tid [OF assms(1) r(3)] by simp
  then have ne: "new_tid \<noteq> tid" using t by auto
  have k': "k' = k1\<lparr>k_mem := km, k_tasks := (k_tasks k)\<lparr>tasks_map := bt_insert new_tid c
       (bt_insert tid (t\<lparr>t_children := t_children t @ [new_tid]\<rparr>) (tasks_map (k_tasks k)))\<rparr>\<rparr>"
    using reg fresh ne t kt
    by (simp add: register_task_def tasks_add_def Let_def get_modify_task bt_get_insert)
      (simp add: modify_task_def)
  show ?thesis using that [OF tid t r(3)] r ne c tid kt by (simp add: k')
qed

lemma clone_task_inv:
  assumes "table_inv k" "clone_task frame sepc k = Some (Ok new_tid, k')" "length frame = 32"
  shows "table_inv k'"
proof (rule clone_task_Ok [OF assms(1,2)])
  fix tid t c
  let ?m = "tasks_map (k_tasks k)" and ?f = "\<lambda>t. t\<lparr>t_children := t_children t @ [new_tid]\<rparr>"
  assume a: "bt_get ?m tid = Some t" "new_tid \<notin> ia_held 64 0 (k_tids k)"
    "ia_held 64 0 (k_tids k') = insert new_tid (ia_held 64 0 (k_tids k))" "ia_inv 64 0 (k_tids k')"
    "ia_majors (k_tids k') = []" "k_current k' = Some tid" "new_tid \<noteq> tid"
    and ts: "k_tasks k' = (k_tasks k)\<lparr>tasks_map := bt_insert new_tid c (bt_insert tid (?f t) ?m)\<rparr>"
    and c: "task_try_clone tid new_tid frame sepc t (k_mem k) = Some (Ok c, k_mem k')"
  let ?ts1 = "modify_task tid ?f (k_tasks k)"
  have m1: "tasks_map ?ts1 = bt_insert tid (?f t) ?m" using a(1) by (simp add: modify_task_def)
  have inv: "bt_inv ?m" and ok: "\<forall>(tid, t)\<in>set ?m. task_ok t" using assms(1) by (simp_all add: table_inv_def Let_def)
  have inv1: "bt_inv (tasks_map ?ts1)" using modify_task_inv [OF inv] by blast
  have ok1: "\<forall>(tid, t)\<in>set (tasks_map ?ts1). task_ok t" by (intro tasks_ok_modify inv ok) (simp add: task_ok_def)
  have cc: "t_children c = []" "task_ok c" using task_try_clone_Ok [OF c] assms(3) by (simp_all add: task_ok_def)
  have new: "new_tid \<notin> fst ` set (tasks_map ?ts1)"
    using fresh_tid(1) [OF assms(1) a(2)] bt_get_None_iff [of ?m new_tid] by simp
  have ch1: "mset (children_of (tasks_map ?ts1)) = add_mset new_tid (mset (children_of ?m))"
    using children_modify [OF inv a(1), of ?f] by simp
  have ch: "mset (children_of (tasks_map (k_tasks k'))) = mset (new_tid # children_of ?m)"
  proof -
    obtain xs ys where s: "tasks_map ?ts1 = xs @ ys" "\<forall>x\<in>fst ` set xs. x < new_tid" "\<forall>y\<in>fst ` set ys. new_tid \<le> y"
      by (rule bt_split [OF inv1, of new_tid])
    have "new_tid \<notin> fst ` set ys" using new unfolding s(1) by (simp add: image_Un)
    then have "\<forall>y\<in>fst ` set ys. new_tid < y" using s(3) le_neq_implies_less by blast
    then have ins: "bt_insert new_tid c (xs @ ys) = xs @ (new_tid, c) # ys" by (rule bt_insert_mid [OF s(2)])
    have "tasks_map (k_tasks k') = bt_insert new_tid c (tasks_map ?ts1)" by (simp add: ts m1)
    then have e: "tasks_map (k_tasks k') = xs @ (new_tid, c) # ys" unfolding s(1) ins .
    have "children_of (xs @ (new_tid, c) # ys) = children_of (xs @ ys)" by (simp add: children_of_def cc(1))
    then show ?thesis using ch1 unfolding e s(1) by simp
  qed
  have "distinct (new_tid # children_of ?m)" using fresh_tid(2) [OF assms(1) a(2)] assms(1)
    by (simp add: table_inv_def Let_def)
  then have d: "distinct (children_of (tasks_map (k_tasks k')))" using mset_eq_imp_distinct_iff [OF ch] by simp
  have keys: "fst ` set (tasks_map (k_tasks k')) = insert new_tid (fst ` set ?m)"
    using keys_modify_task [of tid ?f "k_tasks k"] by (simp add: ts keys_bt_insert m1)
  have "tid \<in> fst ` set ?m" using a(1) bt_get_None_iff [of ?m tid] by auto
  moreover have "\<forall>(tid, t)\<in>set (tasks_map (k_tasks k')). task_ok t"
    using ok1 cc(2) inv1 by (auto simp: ts m1 [symmetric] set_bt_insert)
  moreover have "bt_inv (tasks_map (k_tasks k'))" using bt_insert_inv [OF inv1] by (simp add: ts m1)
  moreover have "set (children_of (tasks_map (k_tasks k'))) \<subseteq> fst ` set (tasks_map (k_tasks k'))"
    using assms(1) mset_eq_setD [OF ch] keys by (auto simp only: table_inv_def Let_def list.set)
  moreover have "set_option (tasks_cursor (k_tasks k')) \<subseteq> fst ` set (tasks_map (k_tasks k'))"
    "fst ` set (tasks_map (k_tasks k')) \<subseteq> ia_held 64 0 (k_tids k')"
    using assms(1) unfolding keys a(3) by (auto simp: table_inv_def Let_def ts)
  ultimately show ?thesis using d a(4,5,6) keys by (simp add: table_inv_def Let_def)
qed

lemma clone_task_Err:
  assumes "table_inv k" "clone_task frame sepc k = Some (Err e, k')"
  shows "k_tasks k' = k_tasks k" "k_current k' = k_current k" "ia_held 64 0 (k_tids k') = ia_held 64 0 (k_tids k)"
    "table_inv k'"
proof -
  have "k_tasks k' = k_tasks k \<and> k_current k' = k_current k \<and> ia_held 64 0 (k_tids k') = ia_held 64 0 (k_tids k) \<and>
    ia_inv 64 0 (k_tids k') \<and> ia_majors (k_tids k') = []"
  proof (cases "k_current k")
    case None
    then show ?thesis using assms by (auto simp: clone_task_def table_inv_def Let_def)
  next
    case (Some tid)
    show ?thesis
    proof (cases "fst (alloc_tid k)")
      case None
      then have "k' = k" using assms(2) Some by (auto simp: clone_task_def alloc_tid_def split: option.splits)
      then show ?thesis using assms(1) by (simp add: table_inv_def Let_def)
    next
      case (Some n)
      then obtain k1 where a: "alloc_tid k = (Some n, k1)" by (metis prod.collapse)
      note r = alloc_tid_Some [OF assms(1) a]
      obtain km where k': "k' = dealloc_tid n (k1\<lparr>k_mem := km\<rparr>)"
        using assms(2) \<open>k_current k = Some tid\<close>
        by (auto simp: clone_task_def a Let_def split: Option.bind_splits sum.splits)
      obtain b where b: "ia_dealloc 64 0 (k_tids k1) n = Ok b" "ia_inv 64 0 b"
        "ia_held 64 0 b = ia_held 64 0 (k_tids k1) - {n}"
        using ia_dealloc_cases [OF r(2), of n] r(4,6) by auto
      have "ia_majors b = []" using ia_dealloc_keys [OF b(1)] r(5) by simp
      then show ?thesis using b r(1,3,4) by (simp add: k' dealloc_tid_def)
    qed
  qed
  then show "k_tasks k' = k_tasks k" "k_current k' = k_current k" "ia_held 64 0 (k_tids k') = ia_held 64 0 (k_tids k)"
    "table_inv k'" using assms(1) by (simp_all add: table_inv_def Let_def)
qed

section \<open>Round robin\<close>

definition runnable_tids :: "(nat, 'f task) btree \<Rightarrow> nat list" where
  "runnable_tids m = map fst (filter (\<lambda>(_, t). is_runnable (t_status t)) m)"

text \<open>The ids that the next choices of the scheduler give.\<close>

fun select_tids :: "nat \<Rightarrow> 'f kernel \<Rightarrow> nat list" where
  "select_tids 0 k = []"
| "select_tids (Suc n) k =
     (case select_next k of (Inl _, _) \<Rightarrow> [] | (Inr (tid, _), k') \<Rightarrow> tid # select_tids n k')"

lemma next_runnable_hd: "next_runnable m = (case runnable_tids m of [] \<Rightarrow> None | t # _ \<Rightarrow> Some t)"
  by (induction m) (auto simp: next_runnable_def runnable_tids_def)

lemma runnable_tids_filter:
  "runnable_tids (filter (\<lambda>(tid, _). c < tid) m) = filter (\<lambda>tid. c < tid) (runnable_tids m)"
  by (induction m) (auto simp: runnable_tids_def)

lemma next_tid_runnable:
  "next_tid ts =
     (let r = runnable_tids (tasks_map ts) in
      case (case tasks_cursor ts of None \<Rightarrow> r | Some c \<Rightarrow> filter (\<lambda>tid. c < tid) r @ r) of [] \<Rightarrow> None | t # _ \<Rightarrow> Some t)"
  by (auto simp: next_tid_def next_runnable_hd runnable_tids_filter Let_def split: option.splits list.splits)

lemma is_runnable_iff: "is_runnable s \<longleftrightarrow> s = Running"
  by (cases s) (simp_all add: is_runnable_def)

lemma runnable_get:
  assumes "bt_inv m" "tid \<in> set (runnable_tids m)"
  obtains t where "bt_get m tid = Some t" "t_status t = Running"
  using assms by (auto simp: runnable_tids_def bt_get_iff is_runnable_iff)

lemma runnable_sorted: "bt_inv m \<Longrightarrow> sorted_wrt (<) (runnable_tids m)"
  by (auto simp: bt_inv_def runnable_tids_def sorted_wrt_map intro: sorted_wrt_filter)

text \<open>Choosing a task moves the cursor and changes no entry.\<close>

lemma select_next_step:
  assumes "bt_inv (tasks_map (k_tasks k))" "next_tid (k_tasks k) = Some tid"
  obtains ctx k' where "select_next k = (Ok (tid, ctx), k')" "tasks_map (k_tasks k') = tasks_map (k_tasks k)"
    "tasks_cursor (k_tasks k') = Some tid"
proof -
  let ?m = "tasks_map (k_tasks k)"
  have "tid \<in> set (runnable_tids ?m)" using assms(2)
    by (auto simp: next_tid_runnable Let_def split: list.splits option.splits)
      (metis Un_iff filter_is_subset list.set_intros(1) set_append subsetD)
  then obtain t where t: "bt_get ?m tid = Some t" "t_status t = Running" using runnable_get [OF assms(1)] by metis
  then have same: "mark_runnable t = t" by (simp add: mark_runnable_def)
  obtain xs ys where "?m = xs @ (tid, t) # ys" "\<And>w. bt_insert tid w ?m = xs @ (tid, w) # ys"
    using bt_modify_split [OF assms(1) t(1)] by metis
  then have "bt_insert tid t ?m = ?m" by simp
  then show ?thesis using that assms(2) t same by (auto simp: select_next_def Let_def modify_task_def)
qed

text \<open>The runnable ids split at the cursor: \<open>A\<close> up to it, \<open>B\<close> after it.\<close>

definition cursor_at :: "'f kernel \<Rightarrow> nat list \<Rightarrow> nat list \<Rightarrow> bool" where
  "cursor_at k A B \<longleftrightarrow> bt_inv (tasks_map (k_tasks k)) \<and> runnable_tids (tasks_map (k_tasks k)) = A @ B \<and>
     (case tasks_cursor (k_tasks k) of
        None \<Rightarrow> A = []
      | Some c \<Rightarrow> (\<forall>a\<in>set A. a \<le> c) \<and> (\<forall>b\<in>set B. c < b))"

lemma cursor_at_next:
  "cursor_at k A B \<Longrightarrow> next_tid (k_tasks k) = (case B @ A of [] \<Rightarrow> None | t # _ \<Rightarrow> Some t)"
  by (cases B; cases A) (auto simp: cursor_at_def next_tid_runnable Let_def not_less filter_empty_conv split: option.splits)

lemma cursor_at_step:
  assumes "cursor_at k A (b # B)"
  obtains ctx k' where "select_next k = (Ok (b, ctx), k')" "cursor_at k' (A @ [b]) B"
proof -
  have n: "next_tid (k_tasks k) = Some b" using cursor_at_next [OF assms] by simp
  have inv: "bt_inv (tasks_map (k_tasks k))" using assms by (simp add: cursor_at_def)
  obtain ctx k' where s: "select_next k = (Ok (b, ctx), k')" "tasks_map (k_tasks k') = tasks_map (k_tasks k)"
    "tasks_cursor (k_tasks k') = Some b" using select_next_step [OF inv n] by metis
  have "sorted_wrt (<) (A @ b # B)" using runnable_sorted [OF inv] assms by (simp add: cursor_at_def)
  then have "cursor_at k' (A @ [b]) B" using assms s(2,3)
    by (auto simp: cursor_at_def sorted_wrt_append intro: less_imp_le)
  then show ?thesis using that s(1) by blast
qed

lemma cursor_at_wrap:
  assumes "cursor_at k (a # A) []"
  shows "cursor_at (k\<lparr>k_tasks := (k_tasks k)\<lparr>tasks_cursor := None\<rparr>\<rparr>) [] (a # A)" "next_tid (k_tasks k) = Some a"
  using assms cursor_at_next [OF assms] by (auto simp: cursor_at_def)

lemma select_next_same:
  assumes "next_tid (k_tasks k) = next_tid (k_tasks j)" "tasks_map (k_tasks k) = tasks_map (k_tasks j)"
    "select_next j = (Ok (b, ctx), j')" "k\<lparr>k_tasks := (k_tasks j)\<rparr> = j"
  shows "select_next k = (Ok (b, ctx), j')"
  using assms by (cases k; cases j; cases "k_tasks k"; cases "k_tasks j")
    (auto simp: select_next_def Let_def modify_task_def split: option.splits)

lemma select_tids_cursor:
  "cursor_at k A B \<Longrightarrow> n \<le> length (B @ A) \<Longrightarrow> select_tids n k = take n (B @ A)"
proof (induction n arbitrary: k A B)
  case (Suc n)
  show ?case
  proof (cases B)
    case (Cons b B')
    then obtain ctx k' where "select_next k = (Ok (b, ctx), k')" "cursor_at k' (A @ [b]) B'"
      using cursor_at_step Suc.prems(1) by metis
    then show ?thesis using Suc.IH [of k' "A @ [b]" B'] Suc.prems(2) Cons by simp
  next
    case Nil
    then obtain a A' where A: "A = a # A'" using Suc.prems(2) by (cases A) auto
    let ?j = "k\<lparr>k_tasks := (k_tasks k)\<lparr>tasks_cursor := None\<rparr>\<rparr>"
    have w: "cursor_at ?j [] (a # A')" "next_tid (k_tasks k) = Some a"
      using cursor_at_wrap Suc.prems(1) by (auto simp: Nil A)
    then obtain ctx k' where s: "select_next ?j = (Ok (a, ctx), k')" "cursor_at k' [a] A'"
      using cursor_at_step [OF w(1)] by auto
    have "next_tid (k_tasks ?j) = Some a" using cursor_at_next [OF w(1)] by simp
    then have "select_next k = (Ok (a, ctx), k')" using select_next_same [of k ?j a ctx k'] s(1) w(2) by simp
    then show ?thesis using Suc.IH [OF s(2)] Suc.prems(2) by (simp add: Nil A)
  qed
qed simp

lemma sorted_cut: "sorted xs \<Longrightarrow> filter (\<lambda>t. t \<le> c) xs @ filter (\<lambda>t. c < t) xs = (xs :: nat list)"
proof (induction xs)
  case (Cons x xs)
  show ?case
  proof (cases "x \<le> c")
    case False
    then have "filter (\<lambda>t. t \<le> c) xs = []" using Cons.prems by (auto simp: filter_empty_conv)
    then show ?thesis using Cons False by simp
  qed (use Cons in simp)
qed simp

lemma cursor_at_exists:
  assumes "bt_inv (tasks_map (k_tasks k))"
  obtains A B where "cursor_at k A B"
proof (cases "tasks_cursor (k_tasks k)")
  case None
  then show ?thesis using that [of "[]" "runnable_tids (tasks_map (k_tasks k))"] assms by (simp add: cursor_at_def)
next
  case (Some c)
  let ?r = "runnable_tids (tasks_map (k_tasks k))"
  have "sorted ?r" using runnable_sorted [OF assms] by (simp add: strict_sorted_imp_sorted)
  then show ?thesis using that [of "filter (\<lambda>t. t \<le> c) ?r" "filter (\<lambda>t. c < t) ?r"] assms Some
    by (simp add: cursor_at_def sorted_cut)
qed

end
