(* ===== verification/Task_Props.thy ===== *)
theory Task_Props
  imports Tasks_Correct
begin

text \<open>
  The properties of the task table, with the example kernel their witnesses use: one task, number 1, that owns an
  empty address space, and an allocator with one free page.
\<close>

declare One_nat_def [simp del]

section \<open>An example kernel\<close>

definition example_context :: trap_context where
  "example_context = \<lparr>tc_context = replicate 32 0, tc_satp = 0, tc_sepc = 0x1000, tc_sstatus = 0x20\<rparr>"

definition example_task :: "nat list \<Rightarrow> task_status \<Rightarrow> unit task" where
  "example_task children status =
     \<lparr>t_parent = None, t_children = children, t_status = status,
      t_memory_set = \<lparr>ms_mappings = [], ms_user_root_page_table = 0x90000000\<rparr>, t_trap_context = example_context,
      t_exit_code = 0, t_fd_table = []\<rparr>"

text \<open>The allocator after its first \<open>n\<close> allocations.\<close>

definition tids_after :: "nat \<Rightarrow> id_alloc" where
  "tids_after n =
     \<lparr>ia_flat = \<lparr>fa_start = 1, fa_end = 1024, fa_inuse = n, fa_ranges = [(n + 1, 1024)]\<rparr>, ia_majors = []\<rparr>"

definition example_kernel :: "(nat, unit task) btree \<Rightarrow> nat \<Rightarrow> unit kernel" where
  "example_kernel m current =
     \<lparr>k_tasks = \<lparr>tasks_map = m, tasks_cursor = Some current\<rparr>, k_current = Some current, k_tids = tids_after 1,
      k_mem = \<lparr>km_asm = \<lparr>asm_kernel = example_space, asm_user = [(1, example_space)]\<rparr>,
        km_buddy = (\<lambda>_. 0, \<lparr>free_list = (replicate 11 0)[0 := 0x80404000]\<rparr>), km_phys = \<lambda>_. 7\<rparr>\<rparr>"

lemma tids_after_alloc: "n < 1000 \<Longrightarrow> ia_alloc 64 (tids_after n) = Some (n + 1, tids_after (n + 1))"
  by (simp add: tids_after_def ia_alloc_def fa_alloc_def fa_available_def distance_to_def id_next_def)

lemma tids_after_props:
  "n \<le> 1000 \<Longrightarrow> ia_inv 64 0 (tids_after n) \<and> ia_held 64 0 (tids_after n) = {1..n} \<and> ia_majors (tids_after n) = []"
proof (induction n)
  case 0
  have r: "ia_from_range 64 0 1 1024 = Ok (tids_after 0)"
    by (simp add: ia_from_range_def ia_validate_range_def low_mask_def tids_after_def fa_new_def)
  have "ia_inv 64 0 (tids_after 0)" "ia_held 64 0 (tids_after 0) = {}" "ia_majors (tids_after 0) = []"
    by (rule ia_from_range_inv [OF r]; simp)+
  then show ?case by simp
next
  case (Suc n)
  then have "n < 1000" and i: "ia_inv 64 0 (tids_after n)" "ia_held 64 0 (tids_after n) = {1..n}" by simp_all
  then have "ia_inv 64 0 (tids_after (n + 1))" "ia_held 64 0 (tids_after (n + 1)) = insert (n + 1) {1..n}"
    using ia_alloc_Some(1,6) [OF i(1) tids_after_alloc] by simp_all
  moreover have "insert (n + 1) {1..n} = {1..n + 1}" "ia_majors (tids_after (n + 1)) = []" by (auto simp: tids_after_def)
  ultimately show ?case unfolding Suc_eq_plus1 by simp
qed

lemma example_kernel_inv: "table_inv (example_kernel [(1, example_task [] Running)] 1)"
  using tids_after_props [of 1]
  by (simp add: table_inv_def example_kernel_def Let_def task_ok_def example_task_def example_context_def children_of_def)

section \<open>Properties\<close>

text \<open>C17: the scheduler is fair: when no task changes state in between, as many consecutive choices as there are runnable
  tasks choose each runnable task exactly once, from any cursor.\<close>

theorem select_next_round_robin:
  fixes k :: "'f kernel"
  assumes "bt_inv (tasks_map (k_tasks k))"
  shows "mset (select_tids (length (runnable_tids (tasks_map (k_tasks k)))) k) = mset (runnable_tids (tasks_map (k_tasks k)))"
proof -
  obtain A B where c: "cursor_at k A B" using cursor_at_exists [OF assms] by metis
  then have r: "runnable_tids (tasks_map (k_tasks k)) = A @ B" by (simp add: cursor_at_def)
  show ?thesis using select_tids_cursor [OF c, of "length (A @ B)"] by (simp add: r add.commute)
qed

theorem select_next_round_robin_witness:
  "\<exists>k :: unit kernel. runnable_tids (tasks_map (k_tasks k)) = [1, 5, 7] \<and>
     mset (select_tids 3 k) = {#1, 5, 7#} \<and> select_tids 3 k = [5, 7, 1]"
proof -
  let ?m = "[(1, example_task [] Running), (2, example_task [] Waiting), (5, example_task [] Running),
    (7, example_task [] Running)] :: (nat, unit task) btree"
  let ?k = "example_kernel ?m 2"
  have r: "runnable_tids (tasks_map (k_tasks ?k)) = [1, 5, 7]"
    by (simp add: example_kernel_def runnable_tids_def is_runnable_def example_task_def)
  have inv: "bt_inv (tasks_map (k_tasks ?k))" by (simp add: example_kernel_def)
  have "length [1, 5, 7 :: nat] = 3" by simp
  then have "mset (select_tids 3 ?k) = mset [1, 5, 7]" using select_next_round_robin [OF inv] unfolding r by (simp only:)
  then have "mset (select_tids 3 ?k) = {#1, 5, 7#}" by simp
  moreover have "select_tids 3 ?k = [5, 7, 1]"
    by (simp add: numeral_3_eq_3 select_next_def next_tid_def next_runnable_def is_runnable_def example_kernel_def
        example_task_def modify_task_def mark_runnable_def bt_get_def)
  ultimately show ?thesis using r by blast
qed







text \<open>C24: a fork that fails leaves the task table, the running task and the set of allocated ids as they were; in
  particular the id taken for the child is given back.\<close>

theorem clone_task_failure:
  assumes "table_inv k" "clone_task frame sepc k = Some (Err e, k')"
  shows "k_tasks k' = k_tasks k \<and> k_current k' = k_current k \<and> ia_held 64 0 (k_tids k') = ia_held 64 0 (k_tids k) \<and>
    table_inv k'"
  using clone_task_Err [OF assms] by blast

theorem clone_task_failure_witness:
  "\<exists>k k'. clone_task (replicate 32 3) 0x1000 (k :: unit kernel) = Some (Err (Mem AddressSpaceNotFound), k') \<and>
     ia_held 64 0 (k_tids k) = {1} \<and> ia_held 64 0 (k_tids k') = {1} \<and> k_tasks k' = k_tasks k"
proof -
  let ?k0 = "example_kernel [(1, example_task [] Running)] 1" and ?t = "example_task [] Running"
  define k where "k = ?k0\<lparr>k_mem := (k_mem ?k0)\<lparr>km_asm := (km_asm (k_mem ?k0))\<lparr>asm_user := []\<rparr>\<rparr>\<rparr>"
  obtain tids where t: "ia_alloc 64 (tids_after 1) = Some (2, tids)" using tids_after_alloc [of 1] by simp
  have k: "k_current k = Some 1" "k_tids k = tids_after 1" "tasks_map (k_tasks k) = [(1, ?t)]"
    "bt_get (asm_user (km_asm (k_mem k))) 1 = None" by (simp_all add: k_def example_kernel_def bt_get_def)
  have inv: "table_inv k" unfolding k_def using example_kernel_inv table_inv_mem by blast
  have "task_try_clone 1 2 (replicate 32 3) 0x1000 ?t (k_mem k) = Some (Err (Mem AddressSpaceNotFound), k_mem k)"
    using k(4) by (simp add: task_try_clone_def memory_set_try_clone_def asm_clone_def km_mgr_def km_set_mgr_def Let_def)
  then obtain k' where k': "clone_task (replicate 32 3) 0x1000 k = Some (Err (Mem AddressSpaceNotFound), k')"
    by (simp add: clone_task_def alloc_tid_def k t bt_get_def Let_def)
  have "ia_held 64 0 (k_tids k) = {1}" using k(2) tids_after_props [of 1] by simp
  then show ?thesis using clone_task_failure [OF inv k'] k' by metis
qed

text \<open>C16: \<open>exit\<close> of a task other than 1 turns it into a zombie with the exit code and no children, and gives its
  children to task 1, in order and after the ones task 1 has; no other task changes and the table stays well-formed.\<close>

theorem exit_reparents:
  assumes "table_inv k" "k_current k = Some tid" "tid \<noteq> 1" "bt_get (tasks_map (k_tasks k)) 1 = Some init"
  shows "\<exists>t k'. bt_get (tasks_map (k_tasks k)) tid = Some t \<and> exit code k = Some k' \<and> table_inv k' \<and>
    bt_get (tasks_map (k_tasks k')) tid = Some (t\<lparr>t_exit_code := code, t_status := Zombie, t_children := []\<rparr>) \<and>
    bt_get (tasks_map (k_tasks k')) 1 = Some (init\<lparr>t_children := t_children init @ t_children t\<rparr>) \<and>
    (\<forall>j. j \<noteq> tid \<longrightarrow> j \<noteq> 1 \<longrightarrow> bt_get (tasks_map (k_tasks k')) j = bt_get (tasks_map (k_tasks k)) j) \<and>
    k_current k' = k_current k \<and> k_tids k' = k_tids k \<and> k_mem k' = k_mem k"
proof -
  obtain t where t: "bt_get (tasks_map (k_tasks k)) tid = Some t"
    using assms(1,2) bt_get_None_iff [of "tasks_map (k_tasks k)" tid] by (fastforce simp: table_inv_def Let_def)
  obtain k' where k': "exit code k = Some k'" using assms(2,3) t by (simp add: exit_def Let_def)
  have "table_inv k'" by (rule exit_inv [OF assms(1) k'])
  then show ?thesis using k' t assms(2,3,4) by (auto simp: exit_def Let_def get_modify_task)
qed

definition family_kernel :: "unit kernel" where
  "family_kernel = (example_kernel [(1, example_task [2] Waiting), (2, example_task [3] Running),
     (3, example_task [] Stopped)] 2)\<lparr>k_tids := tids_after 3\<rparr>"

lemma family_inv: "table_inv family_kernel"
  using tids_after_props [of 3]
  by (simp add: table_inv_def Let_def family_kernel_def example_kernel_def children_of_def task_ok_def
      example_task_def example_context_def)

theorem exit_reparents_witness:
  "\<exists>k'. exit 7 family_kernel = Some k' \<and> table_inv k' \<and>
     map_option t_children (bt_get (tasks_map (k_tasks k')) 1) = Some [2, 3] \<and>
     map_option t_exit_code (bt_get (tasks_map (k_tasks k')) 2) = Some 7"
proof -
  have g: "k_current family_kernel = Some 2" "bt_get (tasks_map (k_tasks family_kernel)) 1 = Some (example_task [2] Waiting)"
    "bt_get (tasks_map (k_tasks family_kernel)) 2 = Some (example_task [3] Running)"
    by (simp_all add: family_kernel_def example_kernel_def bt_get_def)
  have "t_children (example_task [2] Waiting) = [2]" "t_children (example_task [3] Running) = [3]"
    by (simp_all add: example_task_def)
  then show ?thesis using exit_reparents [OF family_inv g(1) _ g(2), of 7] by (auto simp: g(3))
qed



end
