(* ===== verification/Minix_Types.thy ===== *)
theory Minix_Types
  imports Block_Device Bitmap Bit_Fields Path_Buf
begin

text \<open>
  The structures of a MINIX V1 disk (src/fs/minix/types.rs), file modes (src/fs/types.rs) and the computations on a
  block device the file system is written in.  A structure is read from and written to its bytes as \<open>repr(C)\<close> lays
  it out, little-endian.  Running out of heap memory is not modelled.
\<close>

section \<open>Computations on a device\<close>

text \<open>A computation gives a result and the device after it; \<open>None\<close> is a panic.  \<open>io_bind\<close> is the operator \<open>?\<close>.\<close>

type_synonym ('d, 'a) io = "'d \<Rightarrow> ((io_error, 'a) result \<times> 'd) option"

definition io_ok :: "'a \<Rightarrow> ('d, 'a) io" where
  "io_ok x d = Some (Ok x, d)"

definition io_bind :: "('d, 'a) io \<Rightarrow> ('a \<Rightarrow> ('d, 'b) io) \<Rightarrow> ('d, 'b) io" where
  "io_bind m f d =
     (case m d of
        None \<Rightarrow> None
      | Some (Inl e, d') \<Rightarrow> Some (Err e, d')
      | Some (Inr x, d') \<Rightarrow> f x d')"

text \<open>A pure computation that may panic.\<close>

definition io_lift :: "'a option \<Rightarrow> ('d, 'a) io" where
  "io_lift x d = map_option (\<lambda>x. (Ok x, d)) x"

text \<open>\<open>let _ = m;\<close> and \<open>if let Err(err) = m { h; return Err(err) }\<close>\<close>

definition io_ignore :: "('d, 'a) io \<Rightarrow> ('d, unit) io" where
  "io_ignore m d = map_option (\<lambda>(_, d'). (Ok (), d')) (m d)"

definition io_on_err :: "('d, 'a) io \<Rightarrow> ('d, unit) io \<Rightarrow> ('d, 'a) io" where
  "io_on_err m h d =
     (case m d of
        None \<Rightarrow> None
      | Some (Inl e, d') \<Rightarrow> map_option (\<lambda>(_, d''). (Err e, d'')) (h d')
      | Some (Inr x, d') \<Rightarrow> Some (Ok x, d'))"

fun io_map :: "('a \<Rightarrow> ('d, 'b) io) \<Rightarrow> 'a list \<Rightarrow> ('d, 'b list) io" where
  "io_map f [] = io_ok []"
| "io_map f (x # xs) = io_bind (f x) (\<lambda>y. io_bind (io_map f xs) (\<lambda>ys. io_ok (y # ys)))"

definition io_read :: "'d block_dev \<Rightarrow> nat \<Rightarrow> nat \<Rightarrow> ('d, u8 list) io" where
  "io_read dev n off d =
     (case dev_read_at dev (replicate n 0) off d of
        None \<Rightarrow> None
      | Some (Inl e, _, d') \<Rightarrow> Some (Err e, d')
      | Some (Inr _, buf, d') \<Rightarrow> Some (Ok buf, d'))"

definition io_write :: "'d block_dev \<Rightarrow> u8 list \<Rightarrow> nat \<Rightarrow> ('d, unit) io" where
  "io_write dev bs off d =
     (case dev_write_at dev bs off d of
        None \<Rightarrow> None
      | Some (Inl e, d') \<Rightarrow> Some (Err e, d')
      | Some (Inr _, d') \<Rightarrow> Some (Ok (), d'))"

lemma io_bind_cong [fundef_cong]:
  assumes "m = m'" "d = d'" "\<And>x d2. m' d' = Some (Ok x, d2) \<Longrightarrow> f x d2 = g x d2"
  shows "io_bind m f d = io_bind m' g d'"
  using assms by (auto simp: io_bind_def split: option.splits sum.splits)

lemma io_simps [simp]:
  "io_bind (io_ok x) f = f x" "io_bind (io_lift (Some x)) f = f x" "io_bind (io_lift None) f d = None"
  by (simp_all add: io_bind_def io_ok_def io_lift_def fun_eq_iff)

lemma io_bind_Some: "m d = Some (Ok x, d') \<Longrightarrow> io_bind m f d = f x d'"
  by (simp add: io_bind_def)

section \<open>Bytes of machine integers\<close>

definition u16_bytes :: "u16 \<Rightarrow> u8 list" where
  "u16_bytes w = [ucast w, ucast (drop_bit 8 w)]"

definition u32_bytes :: "u32 \<Rightarrow> u8 list" where
  "u32_bytes w = map (\<lambda>i. ucast (drop_bit (8 * i) w)) [0..<4]"

definition u64_bytes :: "u64 \<Rightarrow> u8 list" where
  "u64_bytes w = map (\<lambda>i. ucast (drop_bit (8 * i) w)) [0..<8]"

definition checked_mul :: "nat \<Rightarrow> nat \<Rightarrow> nat option" where
  "checked_mul a b = (if a * b \<le> usize_max then Some (a * b) else None)"

text \<open>The \<open>n\<close> little-endian \<open>u16\<close> at the start of a buffer.\<close>

definition u16s_of :: "nat \<Rightarrow> u8 list \<Rightarrow> u16 list" where
  "u16s_of n bs = map (\<lambda>i. of_le_bytes (take 2 (drop (2 * i) bs))) [0..<n]"

definition u16s_bytes :: "u16 list \<Rightarrow> u8 list" where
  "u16s_bytes ws = concat (map u16_bytes ws)"

section \<open>Modes\<close>

definition mode_file_type :: "u16 \<Rightarrow> u16" where
  "mode_file_type m = bits_get 12 15 m"

definition FT_FIFO :: u16 where "FT_FIFO = 1"
definition FT_CHR :: u16 where "FT_CHR = 2"
definition FT_DIR :: u16 where "FT_DIR = 4"
definition FT_BLK :: u16 where "FT_BLK = 6"
definition FT_REG :: u16 where "FT_REG = 8"
definition FT_LNK :: u16 where "FT_LNK = 10"
definition FT_SOCK :: u16 where "FT_SOCK = 12"

text \<open>\<open>Mode::from((u16::from(t)) << 12 | perm)\<close>\<close>

definition mode_of :: "u16 \<Rightarrow> u16 \<Rightarrow> u16" where
  "mode_of ft perm = push_bit 12 ft OR perm"

section \<open>Disk structures\<close>

record disk_inode =
  di_mode :: u16
  di_uid :: u16
  di_size :: u32
  di_mtime :: u32
  di_gid :: u8
  di_nlinks :: u8
  di_zone :: "u16 list"

definition INODE_SIZE :: nat where
  "INODE_SIZE = 32"

definition inode_of_bytes :: "u8 list \<Rightarrow> disk_inode" where
  "inode_of_bytes bs =
     \<lparr>di_mode = of_le_bytes (take 2 bs), di_uid = of_le_bytes (take 2 (drop 2 bs)),
      di_size = of_le_bytes (take 4 (drop 4 bs)), di_mtime = of_le_bytes (take 4 (drop 8 bs)),
      di_gid = of_le_bytes (take 1 (drop 12 bs)), di_nlinks = of_le_bytes (take 1 (drop 13 bs)),
      di_zone = u16s_of 9 (drop 14 bs)\<rparr>"

definition inode_bytes :: "disk_inode \<Rightarrow> u8 list" where
  "inode_bytes i =
     u16_bytes (di_mode i) @ u16_bytes (di_uid i) @ u32_bytes (di_size i) @ u32_bytes (di_mtime i) @
     [di_gid i, di_nlinks i] @ u16s_bytes (di_zone i)"

record disk_super_block =
  ninodes :: u16
  nzones :: u16
  imap_blocks :: u16
  zmap_blocks :: u16
  first_data_zone :: u16
  log_zone_size :: u16
  max_size :: u32
  magic :: u16
  state :: u16

definition MAGIC_V1_14 :: u16 where "MAGIC_V1_14 = 0x137F"
definition MAGIC_V1_30 :: u16 where "MAGIC_V1_30 = 0x138F"

definition SUPERBLOCK_OFFSET :: nat where "SUPERBLOCK_OFFSET = 1024"

definition SUPERBLOCK_SIZE :: nat where
  "SUPERBLOCK_SIZE = 20"

definition super_of_bytes :: "u8 list \<Rightarrow> disk_super_block" where
  "super_of_bytes bs =
     \<lparr>ninodes = of_le_bytes (take 2 bs), nzones = of_le_bytes (take 2 (drop 2 bs)),
      imap_blocks = of_le_bytes (take 2 (drop 4 bs)), zmap_blocks = of_le_bytes (take 2 (drop 6 bs)),
      first_data_zone = of_le_bytes (take 2 (drop 8 bs)), log_zone_size = of_le_bytes (take 2 (drop 10 bs)),
      max_size = of_le_bytes (take 4 (drop 12 bs)), magic = of_le_bytes (take 2 (drop 16 bs)),
      state = of_le_bytes (take 2 (drop 18 bs))\<rparr>"

text \<open>\<open>1024 << log_zone_size\<close>: a shift by the width or more is a panic, higher bits are lost.\<close>

definition zone_size :: "disk_super_block \<Rightarrow> nat option" where
  "zone_size sb =
     (let l = unat (log_zone_size sb) in if l < 64 then Some (1024 * 2 ^ l mod 2 ^ 64) else None)"

text \<open>The sum is computed in \<open>u16\<close>.\<close>

definition inode_table_offset :: "disk_super_block \<Rightarrow> nat option" where
  "inode_table_offset sb =
     (let blocks = 2 + unat (imap_blocks sb) + unat (zmap_blocks sb) in
      if blocks < 2 ^ 16 then do { zs \<leftarrow> zone_size sb; checked_mul blocks zs } else None)"

section \<open>Text\<close>

text \<open>A \<open>str\<close> is the string of its bytes.\<close>

definition str_bytes :: "string \<Rightarrow> u8 list" where
  "str_bytes s = map (\<lambda>c. of_nat (of_char c)) s"

definition bytes_str :: "u8 list \<Rightarrow> string" where
  "bytes_str bs = map (\<lambda>b. char_of (unat b)) bs"

text \<open>\<open>Display for MinixString\<close>: up to the first NUL, without the bytes that are not ASCII.\<close>

definition minix_string :: "u8 list \<Rightarrow> string" where
  "minix_string raw = bytes_str (filter (\<lambda>b. b < 128) (takeWhile (\<lambda>b. b \<noteq> 0) raw))"

text \<open>
  The UTF-8 scanner of the standard library (\<open>Utf8Chunks\<close>): whether the text starts with a well-formed character, and
  the length of it or of the maximal ill-formed prefix.
\<close>

definition is_cont :: "u8 list \<Rightarrow> nat \<Rightarrow> bool" where
  "is_cont bs i \<longleftrightarrow> i < length bs \<and> bs ! i AND 0xC0 = 0x80"

definition utf8_second_ok :: "u8 \<Rightarrow> u8 \<Rightarrow> bool" where
  "utf8_second_ok a b \<longleftrightarrow>
     (a = 0xE0 \<and> 0xA0 \<le> b \<and> b \<le> 0xBF) \<or> (0xE1 \<le> a \<and> a \<le> 0xEC \<and> 0x80 \<le> b \<and> b \<le> 0xBF) \<or>
     (a = 0xED \<and> 0x80 \<le> b \<and> b \<le> 0x9F) \<or> (0xEE \<le> a \<and> a \<le> 0xEF \<and> 0x80 \<le> b \<and> b \<le> 0xBF) \<or>
     (a = 0xF0 \<and> 0x90 \<le> b \<and> b \<le> 0xBF) \<or> (0xF1 \<le> a \<and> a \<le> 0xF3 \<and> 0x80 \<le> b \<and> b \<le> 0xBF) \<or>
     (a = 0xF4 \<and> 0x80 \<le> b \<and> b \<le> 0x8F)"

definition utf8_step :: "u8 list \<Rightarrow> bool \<times> nat" where
  "utf8_step bs =
     (let a = bs ! 0 in
      if a < 0x80 then (True, 1)
      else if 0xC2 \<le> a \<and> a \<le> 0xDF then (if is_cont bs 1 then (True, 2) else (False, 1))
      else if 0xE0 \<le> a \<and> a \<le> 0xEF then
        (if \<not> (1 < length bs \<and> utf8_second_ok a (bs ! 1)) then (False, 1)
         else if is_cont bs 2 then (True, 3) else (False, 2))
      else if 0xF0 \<le> a \<and> a \<le> 0xF4 then
        (if \<not> (1 < length bs \<and> utf8_second_ok a (bs ! 1)) then (False, 1)
         else if \<not> is_cont bs 2 then (False, 2)
         else if is_cont bs 3 then (True, 4) else (False, 3))
      else (False, 1))"

lemma utf8_step_pos: "0 < snd (utf8_step bs)"
  by (simp add: utf8_step_def Let_def)

lemma utf8_step_posD: "(ok, n) = utf8_step bs \<Longrightarrow> 0 < n"
  by (metis snd_conv utf8_step_pos)

function utf8_valid :: "u8 list \<Rightarrow> bool" where
  "utf8_valid bs =
     (if bs = [] then True else case utf8_step bs of (ok, n) \<Rightarrow> ok \<and> utf8_valid (drop n bs))"
  by pat_completeness auto
termination
  by (relation "measure length") (auto dest: utf8_step_posD)

function utf8_lossy :: "u8 list \<Rightarrow> u8 list" where
  "utf8_lossy bs =
     (if bs = [] then []
      else case utf8_step bs of
             (ok, n) \<Rightarrow> (if ok then take n bs else [0xEF, 0xBF, 0xBD]) @ utf8_lossy (drop n bs))"
  by pat_completeness auto
termination
  by (relation "measure length") (auto dest: utf8_step_posD)

declare utf8_valid.simps [simp del] utf8_lossy.simps [simp del]

end
