(* ===== verification/Minix.thy ===== *)
theory Minix
  imports Minix_Types
begin

text \<open>
  The MINIX V1 file system on a block device (src/fs/minix.rs): superblock, inodes, zones, zone tables and the two
  bitmaps.  A function of \<open>MinixFs\<close> takes the superblock \<open>sb\<close> and the device; the lock around the device is taken for
  the whole of each function or by its caller, so every function is one computation on the device.
\<close>

section \<open>Opening\<close>

definition from_device :: "'d block_dev \<Rightarrow> ('d, disk_super_block option) io" where
  "from_device dev =
     io_bind (io_read dev SUPERBLOCK_SIZE SUPERBLOCK_OFFSET) (\<lambda>buffer.
       let superblock = super_of_bytes buffer in
       io_ok (if magic superblock = MAGIC_V1_14 \<or> magic superblock = MAGIC_V1_30 then Some superblock else None))"

section \<open>Inodes and zones\<close>

text \<open>Inode numbers start at 1: \<open>ino - 1\<close> of inode 0 is a panic.\<close>

definition inode_offset :: "disk_super_block \<Rightarrow> u16 \<Rightarrow> nat option" where
  "inode_offset sb ino =
     do { i \<leftarrow> checked_sub (unat ino) 1;
          table \<leftarrow> inode_table_offset sb;
          checked_add table (i * INODE_SIZE) }"

definition read_inode :: "disk_super_block \<Rightarrow> 'd block_dev \<Rightarrow> u16 \<Rightarrow> ('d, disk_inode) io" where
  "read_inode sb dev ino =
     io_bind (io_lift (inode_offset sb ino)) (\<lambda>off.
     io_bind (io_read dev INODE_SIZE off) (\<lambda>buffer. io_ok (inode_of_bytes buffer)))"

definition write_inode :: "disk_super_block \<Rightarrow> 'd block_dev \<Rightarrow> u16 \<Rightarrow> disk_inode \<Rightarrow> ('d, unit) io" where
  "write_inode sb dev ino inode =
     io_bind (io_lift (inode_offset sb ino)) (\<lambda>off. io_write dev (inode_bytes inode) off)"

text \<open>The size of a zone and the position of one.\<close>

definition zone_at :: "disk_super_block \<Rightarrow> u16 \<Rightarrow> (nat \<times> nat) option" where
  "zone_at sb zone = do { zs \<leftarrow> zone_size sb; off \<leftarrow> checked_mul (unat zone) zs; Some (zs, off) }"

text \<open>\<open>read_zone_into\<close> with a buffer of \<open>n\<close> bytes; the length is a debug assertion.\<close>

definition read_zone_into :: "disk_super_block \<Rightarrow> 'd block_dev \<Rightarrow> u16 \<Rightarrow> nat \<Rightarrow> ('d, u8 list) io" where
  "read_zone_into sb dev zone n =
     io_bind (io_lift (zone_at sb zone)) (\<lambda>(zs, off).
       if n \<le> zs then io_read dev n off else io_lift None)"

definition read_zone :: "disk_super_block \<Rightarrow> 'd block_dev \<Rightarrow> u16 \<Rightarrow> ('d, u8 list) io" where
  "read_zone sb dev zone = io_bind (io_lift (zone_size sb)) (\<lambda>zs. read_zone_into sb dev zone zs)"

definition write_zone :: "disk_super_block \<Rightarrow> 'd block_dev \<Rightarrow> u16 \<Rightarrow> u8 list \<Rightarrow> ('d, unit) io" where
  "write_zone sb dev zone data =
     io_bind (io_lift (zone_at sb zone)) (\<lambda>(zs, off).
       if length data \<le> zs then io_write dev data off else io_lift None)"

definition read_zone_table :: "disk_super_block \<Rightarrow> 'd block_dev \<Rightarrow> u16 \<Rightarrow> ('d, u16 list) io" where
  "read_zone_table sb dev zone =
     io_bind (io_lift (zone_at sb zone)) (\<lambda>(zs, off).
     io_bind (io_read dev zs off) (\<lambda>buffer. io_ok (u16s_of (zs div 2) buffer)))"

definition zone_table :: "disk_super_block \<Rightarrow> 'd block_dev \<Rightarrow> u16 \<Rightarrow> ('d, u16 list) io" where
  "zone_table sb dev zone =
     (if zone = 0 then io_ok []
      else io_bind (read_zone_table sb dev zone) (\<lambda>table. io_ok (takeWhile (\<lambda>z. z \<noteq> 0) table)))"

definition write_zone_table :: "disk_super_block \<Rightarrow> 'd block_dev \<Rightarrow> u16 \<Rightarrow> u16 list \<Rightarrow> ('d, unit) io" where
  "write_zone_table sb dev zone table =
     io_bind (io_lift (zone_at sb zone)) (\<lambda>(zs, off).
       if length table = zs div 2 then io_write dev (u16s_bytes table) off else io_lift None)"

text \<open>The data zones of an inode: seven direct ones, the single and the double indirect tables, up to the first 0.\<close>

definition data_zones :: "disk_super_block \<Rightarrow> 'd block_dev \<Rightarrow> disk_inode \<Rightarrow> ('d, u16 list) io" where
  "data_zones sb dev inode =
     (let direct = takeWhile (\<lambda>z. z \<noteq> 0) (take 7 (di_zone inode)) in
      if length direct < 7 then io_ok direct
      else io_bind (zone_table sb dev (di_zone inode ! 7)) (\<lambda>single.
           io_bind (zone_table sb dev (di_zone inode ! 8)) (\<lambda>indirect.
           io_bind (io_map (zone_table sb dev) indirect) (\<lambda>doubles.
             io_ok (direct @ single @ concat doubles)))))"

text \<open>The contents of an inode, cut at its size.\<close>

definition inode_data :: "disk_super_block \<Rightarrow> 'd block_dev \<Rightarrow> disk_inode \<Rightarrow> ('d, u8 list) io" where
  "inode_data sb dev inode =
     (if di_size inode = 0 then io_ok []
      else io_bind (data_zones sb dev inode) (\<lambda>zones.
           io_bind (io_map (read_zone sb dev) zones) (\<lambda>blocks.
             io_ok (take (unat (di_size inode)) (concat blocks)))))"

section \<open>Bitmaps\<close>

text \<open>\<open>with_bitmap\<close>: read the map, run \<open>f\<close> on a view of its words, write it back.\<close>

definition with_bitmap :: "'d block_dev \<Rightarrow> nat \<Rightarrow> nat \<Rightarrow> nat \<Rightarrow> (bitmap_view \<Rightarrow> 'r \<times> bitmap_view) \<Rightarrow> ('d, 'r) io" where
  "with_bitmap dev map_offset map_bytes bits f =
     (let words = map_bytes div 8 in
      io_bind (io_read dev map_bytes map_offset) (\<lambda>bytes.
      io_bind (io_lift (bv_new_with_capacity (map of_le_bytes (as_chunks words bytes)) (min bits (words * 64)))) (\<lambda>map.
        case f map of (result, map') \<Rightarrow>
          io_bind (io_write dev (concat (List.map u64_bytes (bv_words map'))) map_offset) (\<lambda>_. io_ok result))))"

text \<open>\<open>map.alloc_from(1)\<close> and \<open>let _ = map.clear(bit)\<close> on a view.\<close>

definition view_alloc :: "bitmap_view \<Rightarrow> nat option \<times> bitmap_view" where
  "view_alloc v = (case bv_alloc_from v 1 of None \<Rightarrow> (None, v) | Some (b, v') \<Rightarrow> (Some b, v'))"

definition view_clear :: "nat \<Rightarrow> bitmap_view \<Rightarrow> unit \<times> bitmap_view" where
  "view_clear b v = (case bv_clear v b of Inl _ \<Rightarrow> ((), v) | Inr v' \<Rightarrow> ((), v'))"

definition imap_region :: "disk_super_block \<Rightarrow> (nat \<times> nat) option" where
  "imap_region sb =
     do { zs \<leftarrow> zone_size sb;
          map_bytes \<leftarrow> checked_mul (unat (imap_blocks sb)) zs;
          off \<leftarrow> checked_mul 2 zs;
          Some (off, map_bytes) }"

definition alloc_inode :: "disk_super_block \<Rightarrow> 'd block_dev \<Rightarrow> ('d, u16 option) io" where
  "alloc_inode sb dev =
     io_bind (io_lift (imap_region sb)) (\<lambda>(off, map_bytes).
     io_bind (with_bitmap dev off map_bytes (unat (ninodes sb) + 1) view_alloc) (\<lambda>found.
       io_ok (map_option of_nat found)))"

definition free_inode :: "disk_super_block \<Rightarrow> 'd block_dev \<Rightarrow> u16 \<Rightarrow> ('d, unit) io" where
  "free_inode sb dev ino =
     (if ino = 0 \<or> ninodes sb < ino then io_ok ()
      else io_bind (io_lift (imap_region sb)) (\<lambda>(off, map_bytes).
        with_bitmap dev off map_bytes (unat (ninodes sb) + 1) (view_clear (unat ino))))"

definition zmap_region :: "disk_super_block \<Rightarrow> (nat \<times> nat \<times> nat) option" where
  "zmap_region sb =
     do { zs \<leftarrow> zone_size sb;
          off \<leftarrow> checked_mul (2 + unat (imap_blocks sb)) zs;
          map_bytes \<leftarrow> checked_mul (unat (zmap_blocks sb)) zs;
          bits \<leftarrow> checked_sub (unat (nzones sb)) (unat (first_data_zone sb));
          Some (off, map_bytes, bits + 1) }"

text \<open>Bit \<open>i\<close> of the zone map is zone \<open>first_data_zone - 1 + i\<close>.\<close>

definition alloc_zone :: "disk_super_block \<Rightarrow> 'd block_dev \<Rightarrow> ('d, u16 option) io" where
  "alloc_zone sb dev =
     io_bind (io_lift (zmap_region sb)) (\<lambda>(off, map_bytes, bits).
     io_bind (with_bitmap dev off map_bytes bits view_alloc) (\<lambda>found.
       io_ok (map_option (\<lambda>b. of_nat (b + unat (first_data_zone sb) - 1)) found)))"

definition free_zone :: "disk_super_block \<Rightarrow> 'd block_dev \<Rightarrow> u16 \<Rightarrow> ('d, unit) io" where
  "free_zone sb dev zone =
     (if zone < first_data_zone sb \<or> nzones sb \<le> zone then io_ok ()
      else io_bind (io_lift (zmap_region sb)) (\<lambda>(off, map_bytes, bits).
        with_bitmap dev off map_bytes bits (view_clear (unat zone - unat (first_data_zone sb) + 1))))"

end
