(* ===== verification/Minix_Files.thy ===== *)
theory Minix_Files
  imports Minix
begin

text \<open>
  Directories, path lookup, open files and the write path of the MINIX file system (src/fs/minix/dir.rs, open.rs,
  file.rs, write.rs).
\<close>

section \<open>Directory entries\<close>

record dir_entry =
  de_ino :: u16
  de_name :: string

definition name_len :: "disk_super_block \<Rightarrow> nat" where
  "name_len sb = (if magic sb = MAGIC_V1_30 then 30 else 14)"

definition entry_size :: "disk_super_block \<Rightarrow> nat" where
  "entry_size sb = (if magic sb = MAGIC_V1_30 then 32 else 16)"

text \<open>A slot with inode 0 or an empty name is free.\<close>

definition parse_slot :: "u8 list \<Rightarrow> dir_entry option" where
  "parse_slot chunk =
     (let ino = of_le_bytes (take 2 chunk); name = minix_string (drop 2 chunk) in
      if ino \<noteq> 0 \<and> name \<noteq> [] then Some \<lparr>de_ino = ino, de_name = name\<rparr> else None)"

record dir_iter =
  it_zones :: "u16 list"
  it_next_zone :: nat
  it_remaining :: nat
  it_buffer :: "u8 list"
  it_offset :: nat

definition dir_entries_iter :: "disk_super_block \<Rightarrow> 'd block_dev \<Rightarrow> disk_inode \<Rightarrow> ('d, dir_iter) io" where
  "dir_entries_iter sb dev inode =
     io_bind (data_zones sb dev inode) (\<lambda>zones.
       io_ok \<lparr>it_zones = zones, it_next_zone = 0, it_remaining = unat (di_size inode), it_buffer = [], it_offset = 0\<rparr>)"

text \<open>
  One call of \<open>next\<close>: the entry found, if any, and the iterator after it.  An I/O error ends the iteration; slicing
  a buffer that is shorter than an entry is a panic.
\<close>

function dir_next :: "disk_super_block \<Rightarrow> 'd block_dev \<Rightarrow> dir_iter \<Rightarrow> ('d, dir_entry option \<times> dir_iter) io" where
  "dir_next sb dev it d =
     (let es = entry_size sb in
      if length (it_buffer it) < it_offset it + es then
        (if it_remaining it = 0 then Some (Ok (None, it), d)
         else if length (it_zones it) \<le> it_next_zone it then Some (Ok (None, it), d)
         else
           (case zone_size sb of
              None \<Rightarrow> None
            | Some zs \<Rightarrow>
                (let zone = it_zones it ! it_next_zone it; chunk_len = min zs (it_remaining it) in
                 case read_zone_into sb dev zone chunk_len d of
                   None \<Rightarrow> None
                 | Some (Inl e, d') \<Rightarrow> Some (Err e, d')
                 | Some (Inr buffer, d') \<Rightarrow>
                     if length buffer < es then None
                     else
                       (let it' = it\<lparr>it_next_zone := it_next_zone it + 1, it_remaining := it_remaining it - chunk_len,
                              it_buffer := buffer, it_offset := es\<rparr> in
                        case parse_slot (take es buffer) of
                          Some entry \<Rightarrow> Some (Ok (Some entry, it'), d')
                        | None \<Rightarrow> dir_next sb dev it' d'))))
      else
        (let it' = it\<lparr>it_offset := it_offset it + es\<rparr> in
         case parse_slot (take es (drop (it_offset it) (it_buffer it))) of
           Some entry \<Rightarrow> Some (Ok (Some entry, it'), d)
         | None \<Rightarrow> dir_next sb dev it' d))"
  by pat_completeness auto
termination
  by (relation "measures [\<lambda>(sb, dev, it, d). length (it_zones it) - it_next_zone it,
      \<lambda>(sb, dev, it, d). length (it_buffer it) - it_offset it]")
    (auto simp: entry_size_def split: if_splits)

declare dir_next.simps [simp del]

text \<open>Every entry found moves the iterator forward, so the loops over a directory end.\<close>

definition dir_order :: "(dir_iter \<times> dir_iter) set" where
  "dir_order = measures [\<lambda>it. length (it_zones it) - it_next_zone it, \<lambda>it. length (it_buffer it) - it_offset it]"

lemma dir_order_trans: "(a, b) \<in> dir_order \<Longrightarrow> (b, c) \<in> dir_order \<Longrightarrow> (a, c) \<in> dir_order"
  by (auto simp: dir_order_def)

lemma dir_next_decreases:
  "dir_next sb dev it d = Some (Ok (Some entry, it'), d') \<Longrightarrow> (it', it) \<in> dir_order"
proof (induction sb dev it d rule: dir_next.induct)
  case (1 sb dev it d)
  note IH = "1.IH"
  from "1.prems" show ?case
  proof (cases "length (it_buffer it) < it_offset it + entry_size sb")
    case False
    let ?it = "it\<lparr>it_offset := it_offset it + entry_size sb\<rparr>"
    have step: "(?it, it) \<in> dir_order" using False by (auto simp: dir_order_def entry_size_def split: if_splits)
    show ?thesis
    proof (cases "parse_slot (take (entry_size sb) (drop (it_offset it) (it_buffer it)))")
      case None
      then have "dir_next sb dev ?it d = Some (Ok (Some entry, it'), d')" using "1.prems" False
        by (subst (asm) dir_next.simps) (simp add: Let_def)
      then show ?thesis using IH(2) [OF refl False refl None] step dir_order_trans by blast
    next
      case (Some e)
      then have "it' = ?it" using "1.prems" False by (subst (asm) dir_next.simps) (simp add: Let_def)
      then show ?thesis using step by simp
    qed
  next
    case True
    from "1.prems" True obtain zs buffer d1 where z: "zone_size sb = Some zs" "it_remaining it \<noteq> 0"
      "it_next_zone it < length (it_zones it)"
      "read_zone_into sb dev (it_zones it ! it_next_zone it) (min zs (it_remaining it)) d = Some (Ok buffer, d1)"
      "entry_size sb \<le> length buffer"
      by (subst (asm) dir_next.simps) (auto simp: Let_def not_le split: if_splits option.splits sum.splits)
    let ?it = "it\<lparr>it_next_zone := it_next_zone it + 1, it_remaining := it_remaining it - min zs (it_remaining it),
      it_buffer := buffer, it_offset := entry_size sb\<rparr>"
    have step: "(?it, it) \<in> dir_order" using z(3) by (auto simp: dir_order_def)
    show ?thesis
    proof (cases "parse_slot (take (entry_size sb) buffer)")
      case None
      then have n: "dir_next sb dev ?it d1 = Some (Ok (Some entry, it'), d')" using "1.prems" True z
        by (subst (asm) dir_next.simps) (simp add: Let_def)
      have "(it', ?it) \<in> dir_order"
        by (rule IH(1) [OF refl True z(2) _ z(1) refl refl z(4) refl refl _ refl None n]) (use z in auto)
      then show ?thesis using step dir_order_trans by blast
    next
      case (Some e)
      then have "it' = ?it" using "1.prems" True z by (subst (asm) dir_next.simps) (simp add: Let_def)
      then show ?thesis using step by simp
    qed
  qed
qed

lemma wf_dir_order: "wf dir_order"
  by (simp add: dir_order_def)

text \<open>\<open>dir_entries\<close>: all entries.\<close>

function dir_collect :: "disk_super_block \<Rightarrow> 'd block_dev \<Rightarrow> dir_iter \<Rightarrow> ('d, dir_entry list) io" where
  "dir_collect sb dev it d =
     (case dir_next sb dev it d of
        None \<Rightarrow> None
      | Some (Inl e, d') \<Rightarrow> Some (Err e, d')
      | Some (Inr (None, _), d') \<Rightarrow> Some (Ok [], d')
      | Some (Inr (Some entry, it'), d') \<Rightarrow> io_bind (dir_collect sb dev it') (\<lambda>es. io_ok (entry # es)) d')"
  by pat_completeness auto
termination
  by (relation "inv_image dir_order (\<lambda>(sb, dev, it, d). it)") (auto intro: wf_dir_order dir_next_decreases)

definition dir_entries :: "disk_super_block \<Rightarrow> 'd block_dev \<Rightarrow> disk_inode \<Rightarrow> ('d, dir_entry list) io" where
  "dir_entries sb dev inode = io_bind (dir_entries_iter sb dev inode) (dir_collect sb dev)"

section \<open>Path lookup\<close>

text \<open>The loop that looks for \<open>name\<close> in a directory.\<close>

function find_entry :: "disk_super_block \<Rightarrow> 'd block_dev \<Rightarrow> string \<Rightarrow> dir_iter \<Rightarrow> ('d, u16 option) io" where
  "find_entry sb dev name it d =
     (case dir_next sb dev it d of
        None \<Rightarrow> None
      | Some (Inl e, d') \<Rightarrow> Some (Err e, d')
      | Some (Inr (None, _), d') \<Rightarrow> Some (Ok None, d')
      | Some (Inr (Some entry, it'), d') \<Rightarrow>
          if de_name entry = name then Some (Ok (Some (de_ino entry)), d') else find_entry sb dev name it' d')"
  by pat_completeness auto
termination
  by (relation "inv_image dir_order (\<lambda>(sb, dev, name, it, d). it)") (auto intro: wf_dir_order dir_next_decreases)

declare dir_collect.simps [simp del] find_entry.simps [simp del]

definition MAX_SYMLINK_HOPS :: nat where
  "MAX_SYMLINK_HOPS = 40"

record minix_file =
  mf_path :: string
  mf_ino :: u16
  mf_inode :: disk_inode
  mf_zone_size :: nat
  mf_zones :: "u16 list"
  mf_offset :: nat

definition file_new :: "string \<Rightarrow> u16 \<Rightarrow> disk_inode \<Rightarrow> nat \<Rightarrow> u16 list \<Rightarrow> minix_file" where
  "file_new path ino inode zs zones =
     \<lparr>mf_path = path, mf_ino = ino, mf_inode = inode, mf_zone_size = zs, mf_zones = zones, mf_offset = 0\<rparr>"

definition split_path :: "string \<Rightarrow> string list" where
  "split_path p = filter (\<lambda>s. s \<noteq> []) (split_on PATH_SEPARATOR p)"

text \<open>
  The loop of \<open>resolve_path\<close>: the components still to walk, the directory to look in and the number of links followed.
  \<open>None\<close> in the result is a path that does not exist, a component that is not a directory, or too many links.
\<close>

function resolve_loop :: "disk_super_block \<Rightarrow> 'd block_dev \<Rightarrow> string list \<Rightarrow> u16 \<Rightarrow> disk_inode \<Rightarrow> nat \<Rightarrow>
    ('d, (u16 \<times> disk_inode) option) io" where
  "resolve_loop sb dev [] dir_ino dir hops d = io_ok (Some (dir_ino, dir)) d"
| "resolve_loop sb dev (name # components) dir_ino dir hops d =
     io_bind (dir_entries_iter sb dev dir) (\<lambda>it.
     io_bind (find_entry sb dev name it) (\<lambda>found.
       case found of
         None \<Rightarrow> io_ok None
       | Some next_ino \<Rightarrow>
           io_bind (read_inode sb dev next_ino) (\<lambda>next.
             if mode_file_type (di_mode next) = FT_LNK then
               (if MAX_SYMLINK_HOPS < hops + 1 then io_ok None
                else io_bind (inode_data sb dev next) (\<lambda>bytes.
                  let target = bytes_str (utf8_lossy bytes) in
                  if path_is_absolute target then
                    io_bind (read_inode sb dev 1) (\<lambda>root.
                      resolve_loop sb dev (split_path target @ components) 1 root (hops + 1))
                  else resolve_loop sb dev (split_path target @ components) dir_ino dir (hops + 1)))
             else if components \<noteq> [] \<and> mode_file_type (di_mode next) \<noteq> FT_DIR then io_ok None
             else resolve_loop sb dev components next_ino next hops))) d"
  by pat_completeness auto
termination
  by (relation "measures [\<lambda>(sb, dev, cs, i, dir, hops, d). MAX_SYMLINK_HOPS + 1 - hops,
      \<lambda>(sb, dev, cs, i, dir, hops, d). length cs]") auto

declare resolve_loop.simps [simp del]

definition minix_open :: "disk_super_block \<Rightarrow> 'd block_dev \<Rightarrow> string \<Rightarrow> ('d, minix_file option) io" where
  "minix_open sb dev path =
     io_bind (read_inode sb dev 1) (\<lambda>root.
     io_bind (resolve_loop sb dev (split_path path) 1 root 0) (\<lambda>found.
       case found of
         None \<Rightarrow> io_ok None
       | Some (ino, inode) \<Rightarrow>
           io_bind (data_zones sb dev inode) (\<lambda>zones.
           io_bind (io_lift (zone_size sb)) (\<lambda>zs. io_ok (Some (file_new path ino inode zs zones))))))"

section \<open>Open files\<close>

text \<open>The position after \<open>seek\<close>; \<open>size + offset\<close> and \<open>self.offset + offset\<close> are \<open>i64\<close> additions.\<close>

definition SEEK_SET :: int where "SEEK_SET = 0"
definition SEEK_CUR :: int where "SEEK_CUR = 1"
definition SEEK_END :: int where "SEEK_END = 2"

definition i64_add :: "int \<Rightarrow> int \<Rightarrow> int option" where
  "i64_add a b = (if - (2 ^ 63) \<le> a + b \<and> a + b < 2 ^ 63 then Some (a + b) else None)"

definition file_seek :: "int \<Rightarrow> int \<Rightarrow> minix_file \<Rightarrow> ((io_error, nat) result \<times> minix_file) option" where
  "file_seek offset whence f =
     (let sz = int (unat (di_size (mf_inode f)));
          moved = (\<lambda>new. let off = nat (max 0 (min new sz)) in (Ok off, f\<lparr>mf_offset := off\<rparr>)) in
      if whence = SEEK_SET then Some (moved offset)
      else if whence = SEEK_END then map_option moved (i64_add sz offset)
      else if whence = SEEK_CUR then map_option moved (i64_add (sint (of_nat (mf_offset f) :: u64)) offset)
      else Some (Err Request, f))"

text \<open>\<open>read_at\<close>: a missing zone ends the read; the device reads straight into a part of the buffer.\<close>

function file_read_loop :: "'d block_dev \<Rightarrow> minix_file \<Rightarrow> u8 list \<Rightarrow> nat \<Rightarrow> nat \<Rightarrow> 'd \<Rightarrow>
    ((io_error, nat) result \<times> u8 list \<times> 'd) option" where
  "file_read_loop dev f buf pos dn d =
     (let sz = unat (di_size (mf_inode f)); zs = mf_zone_size f in
      if pos < sz \<and> dn < length buf then
        (if zs = 0 then None
         else if length (mf_zones f) \<le> pos div zs then Some (Ok dn, buf, d)
         else
           (let in_zone = pos mod zs; n = min (min (zs - in_zone) (sz - pos)) (length buf - dn) in
            do { start \<leftarrow> checked_mul (unat (mf_zones f ! (pos div zs))) zs;
                 at \<leftarrow> checked_add start in_zone;
                 (r, part, d') \<leftarrow> dev_read_at dev (take n (drop dn buf)) at d;
                 case r of
                   Inl e \<Rightarrow> Some (Err e, copy_into dn part buf, d')
                 | Inr _ \<Rightarrow> file_read_loop dev f (copy_into dn part buf) (pos + n) (dn + n) d' }))
      else Some (Ok dn, buf, d))"
  by pat_completeness auto
termination
proof (relation "measure (\<lambda>(dev, f, buf, pos, dn, d). unat (di_size (mf_inode f)) - pos)")
qed (auto simp: Let_def intro!: diff_less_mono2)

definition file_read_at :: "'d block_dev \<Rightarrow> minix_file \<Rightarrow> u8 list \<Rightarrow> nat \<Rightarrow> 'd \<Rightarrow>
    ((io_error, nat) result \<times> u8 list \<times> 'd) option" where
  "file_read_at dev f buf offset d = file_read_loop dev f buf offset 0 d"

declare file_read_loop.simps [simp del]

definition file_read :: "'d block_dev \<Rightarrow> minix_file \<Rightarrow> u8 list \<Rightarrow> 'd \<Rightarrow>
    ((io_error, nat) result \<times> u8 list \<times> minix_file \<times> 'd) option" where
  "file_read dev f buf d =
     do { (r, buf', d') \<leftarrow> file_read_at dev f buf (mf_offset f) d;
          case r of
            Inl e \<Rightarrow> Some (Err e, buf', f, d')
          | Inr n \<Rightarrow> do { off \<leftarrow> checked_add (mf_offset f) n; Some (Ok n, buf', f\<lparr>mf_offset := off\<rparr>, d') } }"

section \<open>Zone tables of a file\<close>

definition MINIX_DIRECT_ZONES :: nat where
  "MINIX_DIRECT_ZONES = 7"

text \<open>\<open>to_vec\<close> and \<open>resize(per, 0)\<close>; \<open>chunks(per)\<close>\<close>

definition padded :: "nat \<Rightarrow> u16 list \<Rightarrow> u16 list" where
  "padded per zs = take per zs @ replicate (per - length zs) 0"

function chunks :: "nat \<Rightarrow> 'a list \<Rightarrow> 'a list list" where
  "chunks per xs = (if xs = [] \<or> per = 0 then [] else take per xs # chunks per (drop per xs))"
  by pat_completeness auto
termination
  by (relation "measure (\<lambda>(per, xs). length xs)") auto

declare chunks.simps [simp del]

text \<open>
  The tables of the double indirect zone, group by group.  The result is the table \<open>dbl\<close>, or \<open>None\<close> when the disk is
  full: then the function returns without writing the table back.
\<close>

fun write_groups :: "disk_super_block \<Rightarrow> 'd block_dev \<Rightarrow> nat \<Rightarrow> u16 list list \<Rightarrow> nat \<Rightarrow> u16 list \<Rightarrow> ('d, u16 list option) io" where
  "write_groups sb dev per [] i dbl = io_ok (Some dbl)"
| "write_groups sb dev per (grp # groups) i dbl =
     (if per \<le> i then io_ok (Some dbl)
      else if dbl ! i \<noteq> 0 then
        io_bind (write_zone_table sb dev (dbl ! i) (padded per grp)) (\<lambda>_.
          write_groups sb dev per groups (i + 1) dbl)
      else
        io_bind (alloc_zone sb dev) (\<lambda>zone.
          case zone of
            None \<Rightarrow> io_ok None
          | Some ind \<Rightarrow>
              io_bind (write_zone_table sb dev ind (padded per grp)) (\<lambda>_.
                write_groups sb dev per groups (i + 1) (dbl[i := ind]))))"

definition set_zone :: "nat \<Rightarrow> u16 \<Rightarrow> disk_inode \<Rightarrow> disk_inode" where
  "set_zone i z inode = inode\<lparr>di_zone := (di_zone inode)[i := z]\<rparr>"

definition set_direct :: "u16 list \<Rightarrow> disk_inode \<Rightarrow> disk_inode" where
  "set_direct zones inode =
     inode\<lparr>di_zone := map (\<lambda>i. if i < length zones then zones ! i else 0) [0..<MINIX_DIRECT_ZONES] @
       drop MINIX_DIRECT_ZONES (di_zone inode)\<rparr>"

text \<open>The single indirect part; \<open>None\<close> when the disk is full.\<close>

definition write_single :: "disk_super_block \<Rightarrow> 'd block_dev \<Rightarrow> nat \<Rightarrow> u16 list \<Rightarrow> disk_inode \<Rightarrow> ('d, bool \<times> disk_inode) io" where
  "write_single sb dev per zones inode =
     (if length zones \<le> MINIX_DIRECT_ZONES then io_ok (True, set_zone MINIX_DIRECT_ZONES 0 inode)
      else
        (let table = padded per (take per (drop MINIX_DIRECT_ZONES zones)) in
         if di_zone inode ! MINIX_DIRECT_ZONES = 0 then
           io_bind (alloc_zone sb dev) (\<lambda>zone.
             case zone of
               None \<Rightarrow> io_ok (False, inode)
             | Some ind \<Rightarrow>
                 io_bind (write_zone_table sb dev ind table) (\<lambda>_. io_ok (True, set_zone MINIX_DIRECT_ZONES ind inode)))
         else io_bind (write_zone_table sb dev (di_zone inode ! MINIX_DIRECT_ZONES) table) (\<lambda>_. io_ok (True, inode))))"

text \<open>The double indirect zone: allocated and cleared when the inode has none.\<close>

definition double_zone :: "disk_super_block \<Rightarrow> 'd block_dev \<Rightarrow> nat \<Rightarrow> disk_inode \<Rightarrow> ('d, disk_inode option) io" where
  "double_zone sb dev per inode =
     (if di_zone inode ! (MINIX_DIRECT_ZONES + 1) = 0 then
        io_bind (alloc_zone sb dev) (\<lambda>zone.
          case zone of
            None \<Rightarrow> io_ok None
          | Some ind \<Rightarrow>
              io_bind (write_zone_table sb dev ind (replicate per 0)) (\<lambda>_.
                io_ok (Some (set_zone (MINIX_DIRECT_ZONES + 1) ind inode))))
      else io_ok (Some inode))"

definition write_double :: "disk_super_block \<Rightarrow> 'd block_dev \<Rightarrow> nat \<Rightarrow> u16 list \<Rightarrow> disk_inode \<Rightarrow> ('d, disk_inode) io" where
  "write_double sb dev per zones inode =
     (let double_start = MINIX_DIRECT_ZONES + per in
      if length zones \<le> double_start then io_ok (set_zone (MINIX_DIRECT_ZONES + 1) 0 inode)
      else
        io_bind (double_zone sb dev per inode) (\<lambda>r.
          case r of
            None \<Rightarrow> io_ok inode
          | Some inode' \<Rightarrow>
              (let dz = di_zone inode' ! (MINIX_DIRECT_ZONES + 1) in
               io_bind (read_zone_table sb dev dz) (\<lambda>dbl.
               if per = 0 then io_lift None
               else
                 io_bind (write_groups sb dev per (chunks per (drop double_start zones)) 0 dbl) (\<lambda>r.
                   case r of
                     None \<Rightarrow> io_ok inode'
                   | Some dbl' \<Rightarrow> io_bind (write_zone_table sb dev dz dbl') (\<lambda>_. io_ok inode'))))))"

definition write_file_zones :: "disk_super_block \<Rightarrow> 'd block_dev \<Rightarrow> disk_inode \<Rightarrow> u16 list \<Rightarrow> ('d, disk_inode) io" where
  "write_file_zones sb dev inode zones =
     io_bind (io_lift (zone_size sb)) (\<lambda>zs.
       let per = zs div 2 in
       io_bind (write_single sb dev per zones (set_direct zones inode)) (\<lambda>(more, inode').
         if more then write_double sb dev per zones inode' else io_ok inode'))"

end
