(* ===== verification/Minix_Write.thy ===== *)
theory Minix_Write
  imports Minix_Files
begin

text \<open>
  Writing to open files (src/fs/minix/file.rs) and creating, linking and removing directory entries
  (src/fs/minix/write.rs).  A computation that fails gives no open file: the callers drop it then.
\<close>

section \<open>Writing to a file\<close>

text \<open>Zones are allocated until there are enough or the disk is full.\<close>

function grow_zones :: "disk_super_block \<Rightarrow> 'd block_dev \<Rightarrow> nat \<Rightarrow> u16 list \<Rightarrow> ('d, u16 list) io" where
  "grow_zones sb dev need_zones zones d =
     (if length zones < need_zones then
        io_bind (alloc_zone sb dev) (\<lambda>zone.
          case zone of
            None \<Rightarrow> io_ok zones
          | Some z \<Rightarrow> grow_zones sb dev need_zones (zones @ [z])) d
      else io_ok zones d)"
  by pat_completeness auto
termination
  by (relation "measure (\<lambda>(sb, dev, need, zones, d). need - length zones)") auto

function file_write_loop :: "'d block_dev \<Rightarrow> minix_file \<Rightarrow> u8 list \<Rightarrow> nat \<Rightarrow> nat \<Rightarrow> nat \<Rightarrow> ('d, nat) io" where
  "file_write_loop dev f buf end_pos pos dn d =
     (let zs = mf_zone_size f in
      if pos < end_pos \<and> dn < length buf then
        (if zs = 0 then None
         else if length (mf_zones f) \<le> pos div zs then Some (Ok dn, d)
         else
           (let in_zone = pos mod zs; n = min (zs - in_zone) (length buf - dn) in
            do { start \<leftarrow> checked_mul (unat (mf_zones f ! (pos div zs))) zs;
                 at \<leftarrow> checked_add start in_zone;
                 (r, d') \<leftarrow> io_write dev (take n (drop dn buf)) at d;
                 case r of
                   Inl e \<Rightarrow> Some (Err e, d')
                 | Inr _ \<Rightarrow> file_write_loop dev f buf end_pos (pos + n) (dn + n) d' }))
      else Some (Ok dn, d))"
  by pat_completeness auto
termination
proof (relation "measure (\<lambda>(dev, f, buf, end_pos, pos, dn, d). length buf - dn)")
qed (auto simp: Let_def intro!: diff_less_mono2)

declare grow_zones.simps [simp del] file_write_loop.simps [simp del]

definition saturating_add :: "nat \<Rightarrow> nat \<Rightarrow> nat" where
  "saturating_add a b = min (a + b) usize_max"

text \<open>
  \<open>write_at\<close>: an offset behind the end is moved to the end; new zones are recorded in the inode, which is written back
  only when the file grows.
\<close>

definition file_write_at :: "disk_super_block \<Rightarrow> 'd block_dev \<Rightarrow> u8 list \<Rightarrow> nat \<Rightarrow> minix_file \<Rightarrow> ('d, nat \<times> minix_file) io" where
  "file_write_at sb dev buf offset f =
     (if buf = [] then io_ok (0, f)
      else
        (let zs = mf_zone_size f; sz = unat (di_size (mf_inode f)); offset = min offset sz;
             end_pos = saturating_add offset (length buf) in
         if zs = 0 then io_lift None
         else
           (let need_zones = div_ceil end_pos zs; grew = (length (mf_zones f) < need_zones) in
            io_bind (grow_zones sb dev need_zones (mf_zones f)) (\<lambda>zones.
            io_bind (if grew then write_file_zones sb dev (mf_inode f) zones else io_ok (mf_inode f)) (\<lambda>inode.
              let f1 = f\<lparr>mf_zones := zones, mf_inode := inode\<rparr> in
              io_bind (file_write_loop dev f1 buf end_pos offset 0) (\<lambda>dn.
                let new_size = max sz (saturating_add offset dn) in
                if unat (di_size inode) < new_size then
                  (let inode' = inode\<lparr>di_size := of_nat new_size\<rparr> in
                   io_bind (write_inode sb dev (mf_ino f) inode') (\<lambda>_. io_ok (dn, f1\<lparr>mf_inode := inode'\<rparr>)))
                else io_ok (dn, f1)))))))"

definition file_write :: "disk_super_block \<Rightarrow> 'd block_dev \<Rightarrow> u8 list \<Rightarrow> minix_file \<Rightarrow> ('d, nat \<times> minix_file) io" where
  "file_write sb dev buf f =
     io_bind (file_write_at sb dev buf (mf_offset f) f) (\<lambda>(n, f').
     io_bind (io_lift (checked_add (mf_offset f) n)) (\<lambda>off. io_ok (n, f'\<lparr>mf_offset := off\<rparr>)))"

section \<open>Slots of a directory block\<close>

definition valid_name :: "disk_super_block \<Rightarrow> string \<Rightarrow> bool" where
  "valid_name sb name \<longleftrightarrow> name \<noteq> [] \<and> length name \<le> name_len sb \<and> PATH_SEPARATOR \<notin> set name"

text \<open>\<open>slot_name\<close>: the name up to the first NUL, or nothing when it is not UTF-8.\<close>

definition slot_name :: "u8 list \<Rightarrow> string" where
  "slot_name raw =
     (let bytes = takeWhile (\<lambda>b. b \<noteq> 0) raw in if utf8_valid bytes then bytes_str bytes else [])"

text \<open>\<open>(0..zone_size).step_by(entry_size)\<close>\<close>

definition slots :: "nat \<Rightarrow> nat \<Rightarrow> nat list" where
  "slots zs es = map (\<lambda>i. i * es) [0..<(zs + es - 1) div es]"

definition slot_ino :: "u8 list \<Rightarrow> nat \<Rightarrow> u16" where
  "slot_ino block slot = of_le_bytes (take 2 (drop slot block))"

definition slot_text :: "nat \<Rightarrow> u8 list \<Rightarrow> nat \<Rightarrow> string" where
  "slot_text es block slot = slot_name (take (es - 2) (drop (slot + 2) block))"

definition slot_matches :: "nat \<Rightarrow> string \<Rightarrow> u8 list \<Rightarrow> nat \<Rightarrow> bool" where
  "slot_matches es name block slot \<longleftrightarrow> slot_ino block slot \<noteq> 0 \<and> slot_text es block slot = name"

definition find_slot :: "nat \<Rightarrow> nat \<Rightarrow> string \<Rightarrow> u8 list \<Rightarrow> nat option" where
  "find_slot zs es name block = find (slot_matches es name block) (slots zs es)"

definition find_free_slot :: "nat \<Rightarrow> nat \<Rightarrow> u8 list \<Rightarrow> nat option" where
  "find_free_slot zs es block = find (\<lambda>slot. slot_ino block slot = 0) (slots zs es)"

text \<open>The name is copied into a raw entry of 32 bytes, so a longer one is a panic.\<close>

definition write_dir_slot :: "u8 list \<Rightarrow> nat \<Rightarrow> nat \<Rightarrow> u16 \<Rightarrow> string \<Rightarrow> u8 list option" where
  "write_dir_slot block offset es ino name =
     (if 2 + length name \<le> 32 \<and> offset + es \<le> length block
      then (let raw = copy_into 2 (str_bytes name) (copy_into 0 (u16_bytes ino) (replicate 32 0)) in
            Some (copy_into offset (take es raw) block))
      else None)"

section \<open>Searching and changing a directory\<close>

fun find_in_zones :: "disk_super_block \<Rightarrow> 'd block_dev \<Rightarrow> nat \<Rightarrow> string \<Rightarrow> u16 list \<Rightarrow> ('d, (u16 \<times> u8 list \<times> nat) option) io" where
  "find_in_zones sb dev zs name [] = io_ok None"
| "find_in_zones sb dev zs name (zone # zones) =
     io_bind (read_zone_into sb dev zone zs) (\<lambda>block.
       case find_slot zs (entry_size sb) name block of
         Some slot \<Rightarrow> io_ok (Some (zone, block, slot))
       | None \<Rightarrow> find_in_zones sb dev zs name zones)"

definition find_dir_entry_ino :: "disk_super_block \<Rightarrow> 'd block_dev \<Rightarrow> u16 \<Rightarrow> string \<Rightarrow> ('d, u16 option) io" where
  "find_dir_entry_ino sb dev dir_ino name =
     io_bind (io_lift (zone_size sb)) (\<lambda>zs.
     io_bind (read_inode sb dev dir_ino) (\<lambda>dir.
     io_bind (data_zones sb dev dir) (\<lambda>zones.
     io_bind (find_in_zones sb dev zs name zones) (\<lambda>found.
       io_ok (map_option (\<lambda>(_, block, slot). slot_ino block slot) found)))))"

definition remove_dir_entry :: "disk_super_block \<Rightarrow> 'd block_dev \<Rightarrow> u16 \<Rightarrow> string \<Rightarrow> ('d, bool) io" where
  "remove_dir_entry sb dev dir_ino name =
     io_bind (io_lift (zone_size sb)) (\<lambda>zs.
     io_bind (read_inode sb dev dir_ino) (\<lambda>dir.
     io_bind (data_zones sb dev dir) (\<lambda>zones.
     io_bind (find_in_zones sb dev zs name zones) (\<lambda>found.
       case found of
         None \<Rightarrow> io_ok False
       | Some (zone, block, slot) \<Rightarrow>
           io_bind (write_zone sb dev zone (copy_into slot (replicate (entry_size sb) 0) block)) (\<lambda>_. io_ok True)))))"

text \<open>
  \<open>add_dir_entry_at\<close>: the first free slot of the zones, or of a new zone.  The loop need not end on a device that keeps
  giving out full zones, so it is a partial function; a full disk ends it with success.
\<close>

partial_function (option) add_entry_loop :: "disk_super_block \<Rightarrow> 'd block_dev \<Rightarrow> nat \<Rightarrow> u16 \<Rightarrow> string \<Rightarrow> u16 \<Rightarrow>
    disk_inode \<Rightarrow> u16 list \<Rightarrow> nat \<Rightarrow> 'd \<Rightarrow> ((io_error, unit) result \<times> 'd) option" where
  "add_entry_loop sb dev zs dir_ino name new_ino dir zones block_index d =
     do { (r, d1) \<leftarrow>
            (if length zones \<le> block_index then
               io_bind (alloc_zone sb dev) (\<lambda>zone.
                 case zone of
                   None \<Rightarrow> io_ok None
                 | Some z \<Rightarrow>
                     io_bind (write_file_zones sb dev dir (zones @ [z])) (\<lambda>dir'. io_ok (Some (dir', zones @ [z])))) d
             else io_ok (Some (dir, zones)) d);
          case r of
            Inl e \<Rightarrow> Some (Err e, d1)
          | Inr None \<Rightarrow> Some (Ok (), d1)
          | Inr (Some (dir', zones')) \<Rightarrow>
              do { let zone = zones' ! block_index;
                   (b, d2) \<leftarrow> read_zone_into sb dev zone zs d1;
                   case b of
                     Inl e \<Rightarrow> Some (Err e, d2)
                   | Inr block \<Rightarrow>
                       (case find_free_slot zs (entry_size sb) block of
                          Some slot \<Rightarrow>
                            do { block' \<leftarrow> write_dir_slot block slot (entry_size sb) new_ino name;
                                 (w, d3) \<leftarrow> write_zone sb dev zone block' d2;
                                 case w of
                                   Inl e \<Rightarrow> Some (Err e, d3)
                                 | Inr _ \<Rightarrow>
                                     (let end_pos = block_index * zs + slot + entry_size sb in
                                      if unat (di_size dir') < end_pos
                                      then write_inode sb dev dir_ino (dir'\<lparr>di_size := of_nat end_pos\<rparr>) d3
                                      else Some (Ok (), d3)) }
                        | None \<Rightarrow> add_entry_loop sb dev zs dir_ino name new_ino dir' zones' (block_index + 1) d2) } }"

definition add_dir_entry_at :: "disk_super_block \<Rightarrow> 'd block_dev \<Rightarrow> u16 \<Rightarrow> string \<Rightarrow> u16 \<Rightarrow> ('d, unit) io" where
  "add_dir_entry_at sb dev dir_ino name new_ino =
     io_bind (io_lift (zone_size sb)) (\<lambda>zs.
     io_bind (read_inode sb dev dir_ino) (\<lambda>dir.
     io_bind (data_zones sb dev dir) (\<lambda>zones.
       add_entry_loop sb dev zs dir_ino name new_ino dir zones 0)))"

section \<open>Creating and removing\<close>

definition empty_inode :: "u16 \<Rightarrow> u8 \<Rightarrow> disk_inode" where
  "empty_inode mode nlinks =
     \<lparr>di_mode = mode, di_uid = 0, di_size = 0, di_mtime = 0, di_gid = 0, di_nlinks = nlinks, di_zone = replicate 9 0\<rparr>"

definition alloc_empty_inode :: "disk_super_block \<Rightarrow> 'd block_dev \<Rightarrow> u16 \<Rightarrow> ('d, u16 option) io" where
  "alloc_empty_inode sb dev mode =
     io_bind (alloc_inode sb dev) (\<lambda>r.
       case r of
         None \<Rightarrow> io_ok None
       | Some ino \<Rightarrow> io_bind (write_inode sb dev ino (empty_inode mode 1)) (\<lambda>_. io_ok (Some ino)))"

text \<open>Every zone of a list is freed.\<close>

definition free_zones :: "disk_super_block \<Rightarrow> 'd block_dev \<Rightarrow> u16 list \<Rightarrow> ('d, unit) io" where
  "free_zones sb dev zones = io_bind (io_map (free_zone sb dev) zones) (\<lambda>_. io_ok ())"

definition free_inode_blocks_at :: "disk_super_block \<Rightarrow> 'd block_dev \<Rightarrow> u16 \<Rightarrow> ('d, unit) io" where
  "free_inode_blocks_at sb dev ino =
     io_bind (read_inode sb dev ino) (\<lambda>inode.
     io_bind (data_zones sb dev inode) (\<lambda>zones.
     io_bind (free_zones sb dev zones) (\<lambda>_.
     io_bind (if di_zone inode ! 7 \<noteq> 0 then free_zone sb dev (di_zone inode ! 7) else io_ok ()) (\<lambda>_.
     io_bind (if di_zone inode ! 8 \<noteq> 0 then
                io_bind (zone_table sb dev (di_zone inode ! 8)) (\<lambda>inds.
                io_bind (free_zones sb dev inds) (\<lambda>_. free_zone sb dev (di_zone inode ! 8)))
              else io_ok ()) (\<lambda>_.
     io_bind (write_inode sb dev ino (empty_inode 0 0)) (\<lambda>_. free_inode sb dev ino))))))"

definition create_file :: "disk_super_block \<Rightarrow> 'd block_dev \<Rightarrow> u16 \<Rightarrow> string \<Rightarrow> ('d, u16 option) io" where
  "create_file sb dev dir_ino name =
     (if \<not> valid_name sb name then io_ok None
      else io_bind (alloc_empty_inode sb dev (mode_of FT_REG 420)) (\<lambda>r.
        case r of
          None \<Rightarrow> io_ok None
        | Some ino \<Rightarrow>
            io_bind (io_on_err (add_dir_entry_at sb dev dir_ino name ino) (io_ignore (free_inode sb dev ino))) (\<lambda>_.
              io_ok (Some ino))))"

definition minix_link :: "disk_super_block \<Rightarrow> 'd block_dev \<Rightarrow> u16 \<Rightarrow> u16 \<Rightarrow> string \<Rightarrow> ('d, bool) io" where
  "minix_link sb dev old_ino dir_ino name =
     (if \<not> valid_name sb name \<or> old_ino = 0 \<or> ninodes sb < old_ino then io_ok False
      else io_bind (read_inode sb dev old_ino) (\<lambda>inode.
        if di_nlinks inode = 0 \<or> di_nlinks inode = 255 then io_ok False
        else if mode_file_type (di_mode inode) = FT_DIR then io_ok False
        else io_bind (add_dir_entry_at sb dev dir_ino name old_ino) (\<lambda>_.
             io_bind (write_inode sb dev old_ino (inode\<lparr>di_nlinks := di_nlinks inode + 1\<rparr>)) (\<lambda>_. io_ok True))))"

text \<open>\<open>nlinks.saturating_sub(1)\<close> and \<open>saturating_add(1)\<close>\<close>

definition dec_links :: "u8 \<Rightarrow> u8" where
  "dec_links n = (if n = 0 then 0 else n - 1)"

definition inc_links :: "u8 \<Rightarrow> u8" where
  "inc_links n = (if n = 255 then 255 else n + 1)"

definition minix_unlink :: "disk_super_block \<Rightarrow> 'd block_dev \<Rightarrow> u16 \<Rightarrow> string \<Rightarrow> ('d, bool) io" where
  "minix_unlink sb dev dir_ino name =
     (if \<not> valid_name sb name then io_ok False
      else io_bind (find_dir_entry_ino sb dev dir_ino name) (\<lambda>found.
        case found of
          None \<Rightarrow> io_ok False
        | Some ino \<Rightarrow>
            io_bind (read_inode sb dev ino) (\<lambda>inode.
              if mode_file_type (di_mode inode) = FT_DIR then io_ok False
              else io_bind (remove_dir_entry sb dev dir_ino name) (\<lambda>removed.
                if \<not> removed then io_ok False
                else io_bind (if dec_links (di_nlinks inode) = 0 then free_inode_blocks_at sb dev ino
                              else write_inode sb dev ino (inode\<lparr>di_nlinks := dec_links (di_nlinks inode)\<rparr>))
                       (\<lambda>_. io_ok True)))))"

text \<open>\<open>match file.write_at(..)\<close>: an error or a short write frees the inode again.\<close>

definition minix_symlink :: "disk_super_block \<Rightarrow> 'd block_dev \<Rightarrow> u16 \<Rightarrow> string \<Rightarrow> string \<Rightarrow> ('d, u16 option) io" where
  "minix_symlink sb dev dir_ino name target =
     (if \<not> valid_name sb name \<or> target = [] then io_ok None
      else io_bind (alloc_empty_inode sb dev (mode_of FT_LNK 511)) (\<lambda>r.
        case r of
          None \<Rightarrow> io_ok None
        | Some ino \<Rightarrow>
            (let undo = io_ignore (free_inode_blocks_at sb dev ino) in
             io_bind (read_inode sb dev ino) (\<lambda>inode.
             io_bind (io_lift (zone_size sb)) (\<lambda>zs.
             io_bind (io_on_err (file_write_at sb dev (str_bytes target) 0 (file_new [] ino inode zs [])) undo) (\<lambda>(dn, _).
               if dn \<noteq> length target then io_bind undo (\<lambda>_. io_ok None)
               else io_bind (io_on_err (add_dir_entry_at sb dev dir_ino name ino) undo) (\<lambda>_. io_ok (Some ino))))))))"

definition create_dir :: "disk_super_block \<Rightarrow> 'd block_dev \<Rightarrow> u16 \<Rightarrow> string \<Rightarrow> ('d, u16 option) io" where
  "create_dir sb dev dir_ino name =
     (if \<not> valid_name sb name then io_ok None
      else io_bind (alloc_empty_inode sb dev (mode_of FT_DIR 493)) (\<lambda>r.
        case r of
          None \<Rightarrow> io_ok None
        | Some ino \<Rightarrow>
            io_bind (io_lift (zone_size sb)) (\<lambda>zs.
            io_bind (alloc_zone sb dev) (\<lambda>z.
              case z of
                None \<Rightarrow> io_bind (io_ignore (free_inode sb dev ino)) (\<lambda>_. io_ok None)
              | Some zone \<Rightarrow>
                  (let es = entry_size sb in
                   io_bind (io_lift (do { b \<leftarrow> write_dir_slot (replicate zs 0) 0 es ino ''.'';
                                          write_dir_slot b es es dir_ino ''..'' })) (\<lambda>block.
                   io_bind (write_zone sb dev zone block) (\<lambda>_.
                   io_bind (read_inode sb dev ino) (\<lambda>inode.
                   io_bind (write_inode sb dev ino
                     (set_zone 0 zone inode\<lparr>di_nlinks := 2, di_size := of_nat (2 * es)\<rparr>)) (\<lambda>_.
                   io_bind (io_on_err (add_dir_entry_at sb dev dir_ino name ino)
                     (io_bind (io_ignore (free_zone sb dev zone)) (\<lambda>_. io_ignore (free_inode sb dev ino)))) (\<lambda>_.
                   io_bind (read_inode sb dev dir_ino) (\<lambda>parent.
                   io_bind (write_inode sb dev dir_ino (parent\<lparr>di_nlinks := inc_links (di_nlinks parent)\<rparr>)) (\<lambda>_.
                     io_ok (Some ino)))))))))))))"

text \<open>Whether the zones of a directory hold only the entries \<open>.\<close> and \<open>..\<close>.\<close>

definition block_empty :: "nat \<Rightarrow> nat \<Rightarrow> u8 list \<Rightarrow> bool" where
  "block_empty zs es block \<longleftrightarrow>
     list_all (\<lambda>slot. slot_ino block slot = 0 \<or> slot_text es block slot = ''.'' \<or> slot_text es block slot = ''..'') (slots zs es)"

fun zones_empty :: "disk_super_block \<Rightarrow> 'd block_dev \<Rightarrow> nat \<Rightarrow> u16 list \<Rightarrow> ('d, bool) io" where
  "zones_empty sb dev zs [] = io_ok True"
| "zones_empty sb dev zs (zone # zones) =
     io_bind (read_zone_into sb dev zone zs) (\<lambda>block.
       if block_empty zs (entry_size sb) block then zones_empty sb dev zs zones else io_ok False)"

definition remove_dir :: "disk_super_block \<Rightarrow> 'd block_dev \<Rightarrow> u16 \<Rightarrow> string \<Rightarrow> ('d, bool) io" where
  "remove_dir sb dev dir_ino name =
     (if \<not> valid_name sb name then io_ok False
      else io_bind (find_dir_entry_ino sb dev dir_ino name) (\<lambda>found.
        case found of
          None \<Rightarrow> io_ok False
        | Some ino \<Rightarrow>
            io_bind (read_inode sb dev ino) (\<lambda>inode.
              if mode_file_type (di_mode inode) \<noteq> FT_DIR then io_ok False
              else
                io_bind (io_lift (zone_size sb)) (\<lambda>zs.
                io_bind (data_zones sb dev inode) (\<lambda>zones.
                io_bind (zones_empty sb dev zs zones) (\<lambda>empty.
                  if \<not> empty then io_ok False
                  else io_bind (remove_dir_entry sb dev dir_ino name) (\<lambda>removed.
                    if \<not> removed then io_ok False
                    else
                      io_bind (read_inode sb dev dir_ino) (\<lambda>parent.
                      io_bind (write_inode sb dev dir_ino (parent\<lparr>di_nlinks := dec_links (di_nlinks parent)\<rparr>)) (\<lambda>_.
                      io_bind (free_inode_blocks_at sb dev ino) (\<lambda>_. io_ok True))))))))))"

definition minix_remove :: "disk_super_block \<Rightarrow> 'd block_dev \<Rightarrow> u16 \<Rightarrow> string \<Rightarrow> ('d, bool) io" where
  "minix_remove sb dev dir_ino name =
     io_bind (find_dir_entry_ino sb dev dir_ino name) (\<lambda>found.
       case found of
         None \<Rightarrow> io_ok False
       | Some ino \<Rightarrow>
           io_bind (read_inode sb dev ino) (\<lambda>inode.
             if mode_file_type (di_mode inode) = FT_DIR then remove_dir sb dev dir_ino name
             else minix_unlink sb dev dir_ino name))"

end
