(* ===== verification/Minix_Codec.thy ===== *)
theory Minix_Codec
  imports Minix_Write Bitmap_Correct
begin

text \<open>
  The disk structures survive the trip through their bytes, and computations on a device that keeps the contract of
  Block_Device.
\<close>

section \<open>Integers\<close>

lemma length_int_bytes [simp]: "length (u16_bytes w) = 2" "length (u32_bytes v) = 4" "length (u64_bytes x) = 8"
  by (simp_all add: u16_bytes_def u32_bytes_def u64_bytes_def)

lemma of_le_words:
  assumes "LENGTH('a) = 8 * n"
  shows "of_le_bytes (map (\<lambda>i. ucast (drop_bit (8 * i) (w :: 'a::len word)) :: u8) [0..<n]) = w"
proof (rule bit_word_eqI)
  fix k assume k: "k < LENGTH('a)"
  then have "k div 8 < n" using assms by auto
  then show "bit (of_le_bytes (map (\<lambda>i. ucast (drop_bit (8 * i) w) :: u8) [0..<n]) :: 'a word) k \<longleftrightarrow> bit w k"
    using k assms by (simp add: bit_of_le_bytes bit_unsigned_iff bit_drop_bit_eq)
qed

lemma of_le_u16 [simp]: "of_le_bytes (u16_bytes w) = w"
  using of_le_words [of 2 w] by (simp add: u16_bytes_def upt_rec)

lemma of_le_u32 [simp]: "of_le_bytes (u32_bytes w) = w"
  using of_le_words [of 4 w] by (simp add: u32_bytes_def)

lemma of_le_u64 [simp]: "of_le_bytes (u64_bytes w) = w"
  using of_le_words [of 8 w] by (simp add: u64_bytes_def)

lemma of_le_u8: "of_le_bytes [w] = (w :: u8)"
  by simp

section \<open>Tables of zone numbers\<close>

lemma length_u16s_bytes [simp]: "length (u16s_bytes ws) = 2 * length ws"
  by (induction ws) (simp_all add: u16s_bytes_def)

lemma take_u16s_bytes: "i < length ws \<Longrightarrow> take 2 (drop (2 * i) (u16s_bytes ws)) = u16_bytes (ws ! i)"
proof (induction ws arbitrary: i)
  case (Cons w ws)
  then show ?case by (cases i) (simp_all add: u16s_bytes_def)
qed simp

lemma u16s_of_bytes: "u16s_of (length ws) (u16s_bytes ws) = ws"
  by (rule nth_equalityI) (simp_all add: u16s_of_def take_u16s_bytes)

lemma length_u16s_of [simp]: "length (u16s_of n bs) = n"
  by (simp add: u16s_of_def)

section \<open>Inodes\<close>

lemma length_inode_bytes [simp]: "length (di_zone i) = 9 \<Longrightarrow> length (inode_bytes i) = INODE_SIZE"
  by (simp add: inode_bytes_def INODE_SIZE_def)

lemma inode_of_inode_bytes:
  assumes "length (di_zone i) = 9"
  shows "inode_of_bytes (inode_bytes i) = i"
proof -
  have "u16s_of 9 (u16s_bytes (di_zone i)) = di_zone i" using u16s_of_bytes [of "di_zone i"] assms by simp
  then show ?thesis by (simp add: inode_of_bytes_def inode_bytes_def)
qed

lemma length_di_zone_of_bytes [simp]: "length (di_zone (inode_of_bytes bs)) = 9"
  by (simp add: inode_of_bytes_def)

section \<open>Bitmaps\<close>

lemma length_words_bytes [simp]: "length (concat (map u64_bytes ws)) = 8 * length ws"
  by (induction ws) simp_all

lemma as_chunks_words: "as_chunks (length ws) (concat (map u64_bytes ws)) = map u64_bytes ws"
proof (rule nth_equalityI)
  fix i assume "i < length (as_chunks (length ws) (concat (map u64_bytes ws)))"
  then have i: "i < length ws" by simp
  have "take 8 (drop (8 * i) (concat (map u64_bytes ws))) = u64_bytes (ws ! i)"
    using i
  proof (induction ws arbitrary: i)
    case (Cons w ws)
    then show ?case by (cases i) simp_all
  qed simp
  then show "as_chunks (length ws) (concat (map u64_bytes ws)) ! i = map u64_bytes ws ! i"
    using i by (simp add: nth_as_chunks)
qed simp

lemma words_of_bytes: "map of_le_bytes (as_chunks (length ws) (concat (map u64_bytes ws))) = ws"
  by (simp add: as_chunks_words comp_def)

section \<open>Computations on a sound device\<close>

context block_device
begin

lemma io_read_ok:
  assumes "off + n \<le> cap"
  obtains d' where "io_read dev n off d = Some (Ok (bytes_at (disk d) off n), d')" "disk d' = disk d"
  using read_ok [of off "replicate n 0" d] assms that by (auto simp: io_read_def)

lemma io_write_ok:
  assumes "off + length bs \<le> cap"
  obtains d' where "io_write dev bs off d = Some (Ok (), d')" "disk d' = store_bytes off bs (disk d)"
  using write_ok [OF assms, of d] that by (auto simp: io_write_def)

end

end
