(* ===== verification/Virtio_Blk.thy ===== *)
theory Virtio_Blk
  imports Block_Device
begin

text \<open>
  The virtio block driver (src/driver/virtio_blk.rs): requests and the byte-addressed read and write on top of them.
  The hardware behind the queue is a parameter \<open>hw\<close>: given the request header, whether the device writes the data
  buffer, the data and the initial status byte, it gives the id of the used element, the status and the data after the
  request, or an error when the queue could not be set up.
\<close>

section \<open>Requests\<close>

definition SECTOR_SIZE :: nat where
  "SECTOR_SIZE = 512"

definition VIRTIO_BLK_T_IN :: u32 where
  "VIRTIO_BLK_T_IN = 0"

definition VIRTIO_BLK_T_OUT :: u32 where
  "VIRTIO_BLK_T_OUT = 1"

definition VIRTIO_BLK_S_OK :: u8 where
  "VIRTIO_BLK_S_OK = 0"

record virtio_blk_req =
  request_type :: u32
  reserved :: u32
  sector :: u64

type_synonym 'd blk_hw = "virtio_blk_req \<Rightarrow> bool \<Rightarrow> u8 list \<Rightarrow> u8 \<Rightarrow> 'd \<Rightarrow> (unit + u32 \<times> u8 \<times> u8 list) \<times> 'd"

text \<open>The device writes at most the buffer it was given, and only when the descriptor allows it.\<close>

definition device_wrote :: "bool \<Rightarrow> u8 list \<Rightarrow> u8 list \<Rightarrow> u8 list" where
  "device_wrote data_write bytes data = (if data_write then copy_into 0 (take (length data) bytes) data else data)"

definition submit_request :: "'d blk_hw \<Rightarrow> u32 \<Rightarrow> u64 \<Rightarrow> u8 list \<Rightarrow> bool \<Rightarrow> 'd \<Rightarrow> (io_error, unit) result \<times> u8 list \<times> 'd" where
  "submit_request hw req_type sec data data_write d =
     (case hw \<lparr>request_type = req_type, reserved = 0, sector = sec\<rparr> data_write data (NOT VIRTIO_BLK_S_OK) d of
        (Inl _, d') \<Rightarrow> (Err NotReady, data, d')
      | (Inr (elem_id, status, bytes), d') \<Rightarrow>
          if elem_id \<noteq> 0 then (Err Request, device_wrote data_write bytes data, d')
          else if status \<noteq> VIRTIO_BLK_S_OK then (Err Request, device_wrote data_write bytes data, d')
          else (Ok (), device_wrote data_write bytes data, d'))"

lemma length_submit: "length (fst (snd (submit_request hw ty sec data w d))) = length data"
  by (auto simp: submit_request_def device_wrote_def copy_into_def split: sum.splits prod.splits)

section \<open>Reading and writing\<close>

text \<open>The part of one sector that a step of a loop covers.\<close>

definition step_len :: "nat \<Rightarrow> nat \<Rightarrow> nat" where
  "step_len pos left = min (SECTOR_SIZE - pos mod SECTOR_SIZE) left"

lemma step_len_bounds: "0 < left \<Longrightarrow> 0 < step_len pos left" "step_len pos left \<le> left"
  by (simp_all add: step_len_def SECTOR_SIZE_def)

lemma step_len_decreases: "dn < n \<Longrightarrow> n - (dn + step_len pos (n - dn)) < n - dn"
  using step_len_bounds(1) [of "n - dn" pos] by simp

lemma length_read_step:
  assumes "(r, sector_buf, d') = submit_request hw ty sec (replicate SECTOR_SIZE 0) w d" "dn < length buf"
  shows "length (copy_into dn (take (step_len pos (length buf - dn)) (drop (pos mod SECTOR_SIZE) sector_buf)) buf) = length buf"
proof -
  have "length sector_buf = SECTOR_SIZE"
    using length_submit [of hw ty sec "replicate SECTOR_SIZE 0" w d] assms(1) by (metis fst_conv length_replicate snd_conv)
  then show ?thesis using assms(2) by (simp add: copy_into_def step_len_def)
qed

function blk_read_loop :: "'d blk_hw \<Rightarrow> u8 list \<Rightarrow> nat \<Rightarrow> nat \<Rightarrow> 'd \<Rightarrow> ((io_error, nat) result \<times> u8 list \<times> 'd) option" where
  "blk_read_loop hw buf off dn d =
     (if dn < length buf then
        do { pos \<leftarrow> checked_add off dn;
             (case submit_request hw VIRTIO_BLK_T_IN (of_nat (pos div SECTOR_SIZE)) (replicate SECTOR_SIZE 0) True d of
                (Inl e, _, d') \<Rightarrow> Some (Err e, buf, d')
              | (Inr _, sector_buf, d') \<Rightarrow>
                  (let shift = pos mod SECTOR_SIZE; n = step_len pos (length buf - dn) in
                   blk_read_loop hw (copy_into dn (take n (drop shift sector_buf)) buf) off (dn + n) d')) }
      else Some (Ok dn, buf, d))"
  by pat_completeness auto
termination
  by (relation "measure (\<lambda>(hw, buf, off, dn, d). length buf - dn)") (auto simp: length_read_step step_len_decreases)

definition blk_read_at :: "'d blk_hw \<Rightarrow> u8 list \<Rightarrow> nat \<Rightarrow> 'd \<Rightarrow> ((io_error, nat) result \<times> u8 list \<times> 'd) option" where
  "blk_read_at hw buf off d = blk_read_loop hw buf off 0 d"

text \<open>A write of less than a sector reads the sector, changes it and writes it back.\<close>

function blk_write_loop :: "'d blk_hw \<Rightarrow> u8 list \<Rightarrow> nat \<Rightarrow> nat \<Rightarrow> 'd \<Rightarrow> ((io_error, nat) result \<times> 'd) option" where
  "blk_write_loop hw buf off dn d =
     (if dn < length buf then
        do { pos \<leftarrow> checked_add off dn;
             let sec = of_nat (pos div SECTOR_SIZE);
             let shift = pos mod SECTOR_SIZE;
             let n = step_len pos (length buf - dn);
             let part = take n (drop dn buf);
             (if shift = 0 \<and> n = SECTOR_SIZE then
                (case submit_request hw VIRTIO_BLK_T_OUT sec part False d of
                   (Inl e, _, d') \<Rightarrow> Some (Err e, d')
                 | (Inr _, _, d') \<Rightarrow> blk_write_loop hw buf off (dn + n) d')
              else
                (case submit_request hw VIRTIO_BLK_T_IN sec (replicate SECTOR_SIZE 0) True d of
                   (Inl e, _, d') \<Rightarrow> Some (Err e, d')
                 | (Inr _, sector_buf, d') \<Rightarrow>
                     (case submit_request hw VIRTIO_BLK_T_OUT sec (copy_into shift part sector_buf) False d' of
                        (Inl e, _, d'') \<Rightarrow> Some (Err e, d'')
                      | (Inr _, _, d'') \<Rightarrow> blk_write_loop hw buf off (dn + n) d''))) }
      else Some (Ok dn, d))"
  by pat_completeness auto
termination
  by (relation "measure (\<lambda>(hw, buf, off, dn, d). length buf - dn)") (auto simp: SECTOR_SIZE_def step_len_decreases)

definition blk_write_at :: "'d blk_hw \<Rightarrow> u8 list \<Rightarrow> nat \<Rightarrow> 'd \<Rightarrow> ((io_error, nat) result \<times> 'd) option" where
  "blk_write_at hw buf off d = blk_write_loop hw buf off 0 d"

definition virtio_blk :: "'d blk_hw \<Rightarrow> 'd block_dev" where
  "virtio_blk hw = \<lparr>dev_read_at = blk_read_at hw, dev_write_at = blk_write_at hw\<rparr>"

declare blk_read_loop.simps [simp del] blk_write_loop.simps [simp del]

end
