(* ===== verification/Virtio_Blk_Correct.thy ===== *)
theory Virtio_Blk_Correct
  imports Virtio_Blk
begin

text \<open>
  The block driver on a device that behaves as the virtio specification says: it implements the byte-addressed block
  device of Block_Device, sector boundaries and partial sectors included.
\<close>

text \<open>The byte at an address of a disk of sectors.\<close>

definition sector_byte :: "(nat \<Rightarrow> u8 list) \<Rightarrow> nat \<Rightarrow> u8" where
  "sector_byte secs a = secs (a div SECTOR_SIZE) ! (a mod SECTOR_SIZE)"

section \<open>The device\<close>

text \<open>
  A virtio disk of \<open>nsec\<close> sectors (virtio 1.2, section 5.2.6): a request of type \<open>IN\<close> fills the buffer with the sector
  and one of type \<open>OUT\<close> stores the buffer in it; both complete with the head of the chain as the id and status \<open>OK\<close>.
\<close>

locale virtio_disk =
  fixes hw :: "'d blk_hw"
    and sectors :: "'d \<Rightarrow> nat \<Rightarrow> u8 list"
    and nsec :: nat
  assumes addressable: "nsec * SECTOR_SIZE \<le> usize_max"
    and sector_len: "length (sectors d s) = SECTOR_SIZE"
    and hw_in: "s < nsec \<Longrightarrow> length data = SECTOR_SIZE \<Longrightarrow>
      \<exists>d'. hw \<lparr>request_type = VIRTIO_BLK_T_IN, reserved = 0, sector = of_nat s\<rparr> True data st d =
        (Inr (0, VIRTIO_BLK_S_OK, sectors d s), d') \<and> sectors d' = sectors d"
    and hw_out: "s < nsec \<Longrightarrow> length data = SECTOR_SIZE \<Longrightarrow>
      \<exists>d' bytes. hw \<lparr>request_type = VIRTIO_BLK_T_OUT, reserved = 0, sector = of_nat s\<rparr> False data st d =
        (Inr (0, VIRTIO_BLK_S_OK, bytes), d') \<and> sectors d' = (sectors d)(s := data)"
begin

lemma submit_in:
  assumes "s < nsec" "length data = SECTOR_SIZE"
  obtains d' where "submit_request hw VIRTIO_BLK_T_IN (of_nat s) data True d = (Ok (), sectors d s, d')" "sectors d' = sectors d"
  using hw_in [OF assms, of "NOT VIRTIO_BLK_S_OK" d] that
  by (auto simp: submit_request_def device_wrote_def copy_into_def sector_len assms(2))

lemma submit_out:
  assumes "s < nsec" "length data = SECTOR_SIZE"
  obtains d' where "submit_request hw VIRTIO_BLK_T_OUT (of_nat s) data False d = (Ok (), data, d')"
    "sectors d' = (sectors d)(s := data)"
  using hw_out [OF assms, of "NOT VIRTIO_BLK_S_OK" d] that
  by (auto simp: submit_request_def device_wrote_def)

lemma sector_bound: "pos < nsec * SECTOR_SIZE \<Longrightarrow> pos div SECTOR_SIZE < nsec"
  by (simp add: less_mult_imp_div_less)

lemma in_range:
  assumes "off + len \<le> nsec * SECTOR_SIZE" "dn < len"
  shows "checked_add off dn = Some (off + dn)" "(off + dn) div SECTOR_SIZE < nsec"
  using assms addressable sector_bound by (auto simp: checked_add_def)

text \<open>The bytes a step reads are the bytes of the disk.\<close>

lemma sector_part:
  assumes "n = step_len pos k"
  shows "take n (drop (pos mod SECTOR_SIZE) (sectors d (pos div SECTOR_SIZE))) = bytes_at (sector_byte (sectors d)) pos n"
proof (rule nth_equalityI)
  have n: "n \<le> SECTOR_SIZE - pos mod SECTOR_SIZE" using assms by (simp add: step_len_def)
  then show "length (take n (drop (pos mod SECTOR_SIZE) (sectors d (pos div SECTOR_SIZE)))) = length (bytes_at (sector_byte (sectors d)) pos n)"
    by (simp add: sector_len)
  fix i assume "i < length (take n (drop (pos mod SECTOR_SIZE) (sectors d (pos div SECTOR_SIZE))))"
  then have i: "i < n" "pos mod SECTOR_SIZE + i < SECTOR_SIZE" using n by (auto simp: sector_len)
  have "pos + i = pos div SECTOR_SIZE * SECTOR_SIZE + (pos mod SECTOR_SIZE + i)" by simp
  then have "(pos + i) div SECTOR_SIZE = pos div SECTOR_SIZE" "(pos + i) mod SECTOR_SIZE = pos mod SECTOR_SIZE + i"
    using i(2) by (metis div_less div_mult_self3 mult.commute SECTOR_SIZE_def add.right_neutral zero_neq_numeral, metis mod_less mod_mult_self3)
  then show "take n (drop (pos mod SECTOR_SIZE) (sectors d (pos div SECTOR_SIZE))) ! i = bytes_at (sector_byte (sectors d)) pos n ! i"
    using i n by (simp add: sector_byte_def sector_len)
qed

lemma read_loop:
  assumes "off + length buf \<le> nsec * SECTOR_SIZE" "dn \<le> length buf" "take dn buf = bytes_at (sector_byte (sectors d)) off dn"
  shows "\<exists>d'. blk_read_loop hw buf off dn d = Some (Ok (length buf), bytes_at (sector_byte (sectors d)) off (length buf), d') \<and>
    sectors d' = sectors d"
  using assms
proof (induction "length buf - dn" arbitrary: buf dn d rule: less_induct)
  case less
  show ?case
  proof (cases "dn < length buf")
    case True
    let ?pos = "off + dn"
    let ?n = "step_len ?pos (length buf - dn)"
    let ?part = "take ?n (drop (?pos mod SECTOR_SIZE) (sectors d (?pos div SECTOR_SIZE)))"
    let ?buf = "copy_into dn ?part buf"
    note r = in_range [OF less.prems(1) True]
    obtain d' where d': "submit_request hw VIRTIO_BLK_T_IN (of_nat (?pos div SECTOR_SIZE)) (replicate SECTOR_SIZE 0) True d =
        (Ok (), sectors d (?pos div SECTOR_SIZE), d')" "sectors d' = sectors d"
      using submit_in [OF r(2)] by (metis length_replicate)
    have part: "?part = bytes_at (sector_byte (sectors d)) ?pos ?n" by (rule sector_part [OF refl])
    have n: "0 < ?n" "?n \<le> length buf - dn" using step_len_bounds True by simp_all
    have sb: "sector_byte (sectors d') = sector_byte (sectors d)" using d'(2) by (simp add: sector_byte_def fun_eq_iff)
    have len: "length ?buf = length buf" using n(2) True by (simp add: part length_copy_into)
    have tk: "take (dn + ?n) ?buf = bytes_at (sector_byte (sectors d')) off (dn + ?n)"
      using less.prems(3) n(2) True by (simp add: part copy_into_def bytes_at_append sb min_def)
    have step: "blk_read_loop hw buf off dn d = blk_read_loop hw ?buf off (dn + ?n) d'"
      by (subst blk_read_loop.simps) (use True r d' in \<open>simp add: Let_def\<close>)
    have "\<exists>d''. blk_read_loop hw ?buf off (dn + ?n) d' =
        Some (Ok (length ?buf), bytes_at (sector_byte (sectors d')) off (length ?buf), d'') \<and> sectors d'' = sectors d'"
      using less.hyps [of ?buf "dn + ?n" d'] less.prems(1) n True tk by (simp only: len)
    then show ?thesis using step d'(2) by (simp add: len sb)
  next
    case False
    then show ?thesis using less.prems by (subst blk_read_loop.simps) (simp add: le_antisym)
  qed
qed

text \<open>Storing a changed sector changes the bytes of the part.\<close>

lemma store_sector:
  assumes "length secs_part + pos mod SECTOR_SIZE \<le> SECTOR_SIZE" "\<And>s. length (secs s) = SECTOR_SIZE"
  shows "sector_byte (secs(pos div SECTOR_SIZE := copy_into (pos mod SECTOR_SIZE) secs_part (secs (pos div SECTOR_SIZE)))) =
    store_bytes pos secs_part (sector_byte secs)"
proof
  fix a
  let ?s = "pos div SECTOR_SIZE" and ?o = "pos mod SECTOR_SIZE"
  have eq: "pos \<le> a \<and> a < pos + length secs_part \<longleftrightarrow>
      a div SECTOR_SIZE = ?s \<and> ?o \<le> a mod SECTOR_SIZE \<and> a mod SECTOR_SIZE < ?o + length secs_part"
  proof -
    have p: "pos = SECTOR_SIZE * ?s + ?o" "a = SECTOR_SIZE * (a div SECTOR_SIZE) + a mod SECTOR_SIZE" by simp_all
    have m: "a mod SECTOR_SIZE < SECTOR_SIZE" "0 < SECTOR_SIZE" by (simp_all add: SECTOR_SIZE_def)
    show ?thesis
    proof
      assume l: "pos \<le> a \<and> a < pos + length secs_part"
      have "pos + length secs_part \<le> SECTOR_SIZE * ?s + SECTOR_SIZE" using p(1) assms(1) by linarith
      with l have "a < SECTOR_SIZE * (?s + 1)" by simp
      then have "a div SECTOR_SIZE < ?s + 1" using m(2) by (metis div_less_iff_less_mult mult.commute)
      moreover have "?s \<le> a div SECTOR_SIZE" using l by (simp add: div_le_mono)
      ultimately have "a div SECTOR_SIZE = ?s" by simp
      then show "a div SECTOR_SIZE = ?s \<and> ?o \<le> a mod SECTOR_SIZE \<and> a mod SECTOR_SIZE < ?o + length secs_part"
        using l p by (metis add.assoc add_le_cancel_left nat_add_left_cancel_less)
    next
      assume "a div SECTOR_SIZE = ?s \<and> ?o \<le> a mod SECTOR_SIZE \<and> a mod SECTOR_SIZE < ?o + length secs_part"
      then show "pos \<le> a \<and> a < pos + length secs_part"
        using p by (metis add.assoc add_le_cancel_left nat_add_left_cancel_less)
    qed
  qed
  have "a - pos = a mod SECTOR_SIZE - ?o" if "a div SECTOR_SIZE = ?s"
    using that by (metis add_diff_cancel_left mult_div_mod_eq)
  then show "sector_byte (secs(?s := copy_into ?o secs_part (secs ?s))) a = store_bytes pos secs_part (sector_byte secs) a"
    unfolding store_bytes_def eq using assms by (auto simp: sector_byte_def nth_copy_into SECTOR_SIZE_def)
qed

lemma write_loop:
  assumes "off + length buf \<le> nsec * SECTOR_SIZE" "dn \<le> length buf"
  shows "\<exists>d'. blk_write_loop hw buf off dn d = Some (Ok (length buf), d') \<and>
    sector_byte (sectors d') = store_bytes (off + dn) (drop dn buf) (sector_byte (sectors d))"
  using assms
proof (induction "length buf - dn" arbitrary: dn d rule: less_induct)
  case less
  show ?case
  proof (cases "dn < length buf")
    case True
    let ?pos = "off + dn"
    let ?n = "step_len ?pos (length buf - dn)" and ?s = "?pos div SECTOR_SIZE" and ?o = "?pos mod SECTOR_SIZE"
    let ?part = "take ?n (drop dn buf)"
    let ?new = "copy_into ?o ?part (sectors d ?s)"
    note r = in_range [OF less.prems(1) True]
    have n: "0 < ?n" "?n \<le> length buf - dn" "?n \<le> SECTOR_SIZE - ?o" "?o < SECTOR_SIZE" using step_len_bounds True
      by (simp_all add: step_len_def SECTOR_SIZE_def)
    then have lp: "length ?part = ?n" "?n + ?o \<le> SECTOR_SIZE" by simp_all
    then have ln: "length ?new = SECTOR_SIZE" by (simp add: length_copy_into sector_len add.commute)
    obtain d2 where d2: "blk_write_loop hw buf off dn d = blk_write_loop hw buf off (dn + ?n) d2"
      "sectors d2 = (sectors d)(?s := ?new)"
    proof (cases "?o = 0 \<and> ?n = SECTOR_SIZE")
      case full: True
      then have "?new = ?part" using lp by (simp add: copy_into_def sector_len)
      moreover obtain d1 where "submit_request hw VIRTIO_BLK_T_OUT (of_nat ?s) ?part False d = (Ok (), ?part, d1)"
        "sectors d1 = (sectors d)(?s := ?part)" using submit_out [OF r(2)] lp(1) full by metis
      moreover from this have "blk_write_loop hw buf off dn d = blk_write_loop hw buf off (dn + ?n) d1"
        by (subst blk_write_loop.simps) (use True r full in \<open>simp add: Let_def\<close>)
      ultimately show ?thesis using that by metis
    next
      case False
      obtain d1 where d1: "submit_request hw VIRTIO_BLK_T_IN (of_nat ?s) (replicate SECTOR_SIZE 0) True d = (Ok (), sectors d ?s, d1)"
        "sectors d1 = sectors d" using submit_in [OF r(2)] by (metis length_replicate)
      obtain d2 where d2: "submit_request hw VIRTIO_BLK_T_OUT (of_nat ?s) ?new False d1 = (Ok (), ?new, d2)"
        "sectors d2 = (sectors d1)(?s := ?new)" using submit_out [OF r(2) ln] by metis
      have "blk_write_loop hw buf off dn d = blk_write_loop hw buf off (dn + ?n) d2"
        using False by (subst blk_write_loop.simps; cases "?o = 0") (use True r d1(1) d2(1) in \<open>auto simp: Let_def\<close>)
      then show ?thesis using that d2(2) d1(2) by simp
    qed
    have b: "sector_byte (sectors d2) = store_bytes ?pos ?part (sector_byte (sectors d))"
      unfolding d2(2) by (rule store_sector) (use lp sector_len in auto)
    have "\<exists>d'. blk_write_loop hw buf off (dn + ?n) d2 = Some (Ok (length buf), d') \<and>
        sector_byte (sectors d') = store_bytes (off + (dn + ?n)) (drop (dn + ?n) buf) (sector_byte (sectors d2))"
      using less.hyps [of "dn + ?n" d2] less.prems(1) n True by simp
    moreover have "drop dn buf = ?part @ drop (dn + ?n) buf" by (metis append_take_drop_id drop_drop add.commute)
    ultimately show ?thesis using store_bytes_append [of ?pos ?part "drop (dn + ?n) buf" "sector_byte (sectors d)"] lp(1)
      by (simp add: d2(1) b add.assoc)
  next
    case False
    then show ?thesis using less.prems by (subst blk_write_loop.simps) (simp add: le_antisym)
  qed
qed

end

text \<open>A virtio disk is a block device of the capacity of its sectors.\<close>

sublocale virtio_disk < block_device "virtio_blk hw" "\<lambda>d. sector_byte (sectors d)" "nsec * SECTOR_SIZE"
proof
  fix off d and buf :: "u8 list"
  assume "off + length buf \<le> nsec * SECTOR_SIZE"
  then show "\<exists>d'. dev_read_at (virtio_blk hw) buf off d =
      Some (Ok (length buf), bytes_at (sector_byte (sectors d)) off (length buf), d') \<and>
      sector_byte (sectors d') = sector_byte (sectors d)"
    using read_loop [of off buf 0 d] by (auto simp: virtio_blk_def blk_read_at_def)
next
  fix off d and bs :: "u8 list"
  assume "off + length bs \<le> nsec * SECTOR_SIZE"
  then show "\<exists>d'. dev_write_at (virtio_blk hw) bs off d = Some (Ok (length bs), d') \<and>
      sector_byte (sectors d') = store_bytes off bs (sector_byte (sectors d))"
    using write_loop [of off bs 0 d] by (auto simp: virtio_blk_def blk_write_at_def)
qed

section \<open>A reference device\<close>

text \<open>A disk of \<open>n\<close> sectors as the specification describes it; requests outside it end with status 1 (\<open>IOERR\<close>).\<close>

definition ram_sectors :: "(nat \<Rightarrow> nat \<Rightarrow> u8) \<Rightarrow> nat \<Rightarrow> u8 list" where
  "ram_sectors d s = map (d s) [0..<SECTOR_SIZE]"

definition ram_hw :: "nat \<Rightarrow> (nat \<Rightarrow> nat \<Rightarrow> u8) blk_hw" where
  "ram_hw n req data_write data status d =
     (let s = unat (sector req) in
      if n \<le> s then (Inr (0, 1, data), d)
      else if request_type req = VIRTIO_BLK_T_IN then (Inr (0, VIRTIO_BLK_S_OK, ram_sectors d s), d)
      else if request_type req = VIRTIO_BLK_T_OUT then (Inr (0, VIRTIO_BLK_S_OK, data), d(s := (\<lambda>i. data ! i)))
      else (Inr (0, 2, data), d))"

lemma ram_disk:
  assumes "n * SECTOR_SIZE \<le> usize_max"
  shows "virtio_disk (ram_hw n) ram_sectors n"
proof
  have small: "unat (of_nat s :: u64) = s" if "s < n" for s
    using that assms by (intro unat_of_nat_small) (simp add: SECTOR_SIZE_def usize_max_def)
  fix s d st and data :: "u8 list"
  show "length (ram_sectors d s) = SECTOR_SIZE" by (simp add: ram_sectors_def)
  assume s: "s < n" and len: "length data = SECTOR_SIZE"
  show "\<exists>d'. ram_hw n \<lparr>request_type = VIRTIO_BLK_T_IN, reserved = 0, sector = of_nat s\<rparr> True data st d =
      (Inr (0, VIRTIO_BLK_S_OK, ram_sectors d s), d') \<and> ram_sectors d' = ram_sectors d"
    using s by (simp add: ram_hw_def small)
  have "map (\<lambda>i. data ! i) [0..<SECTOR_SIZE] = data" using len map_nth [of data] by simp
  then show "\<exists>d' bytes. ram_hw n \<lparr>request_type = VIRTIO_BLK_T_OUT, reserved = 0, sector = of_nat s\<rparr> False data st d =
      (Inr (0, VIRTIO_BLK_S_OK, bytes), d') \<and> ram_sectors d' = (ram_sectors d)(s := data)"
    using s by (intro exI [of _ "d(s := (\<lambda>i. data ! i))"] exI [of _ data])
      (simp add: ram_hw_def small ram_sectors_def fun_eq_iff VIRTIO_BLK_T_IN_def VIRTIO_BLK_T_OUT_def)
qed (rule assms)

interpretation ram8: virtio_disk "ram_hw 8" ram_sectors 8
  by (rule ram_disk) (simp add: SECTOR_SIZE_def usize_max_def)

section \<open>Properties\<close>

text \<open>C6: on a virtio disk, a write inside the capacity stores all its bytes and changes no other byte, whatever its
  alignment to sectors, and a later read of any range returns the bytes stored there.\<close>

theorem blk_write_then_read:
  assumes "virtio_disk hw sectors nsec" "off + length bs \<le> nsec * SECTOR_SIZE" "off' + length buf \<le> nsec * SECTOR_SIZE"
  shows "\<exists>d' d''. blk_write_at hw bs off d = Some (Ok (length bs), d') \<and>
    sector_byte (sectors d') = store_bytes off bs (sector_byte (sectors d)) \<and>
    blk_read_at hw buf off' d' =
      Some (Ok (length buf), bytes_at (store_bytes off bs (sector_byte (sectors d))) off' (length buf), d'')"
proof -
  obtain d' where d': "blk_write_at hw bs off d = Some (Ok (length bs), d')"
    "sector_byte (sectors d') = store_bytes off bs (sector_byte (sectors d))"
    using virtio_disk.write_loop [OF assms(1,2), of 0 d] by (auto simp: blk_write_at_def)
  moreover obtain d'' where "blk_read_at hw buf off' d' =
      Some (Ok (length buf), bytes_at (sector_byte (sectors d')) off' (length buf), d'')"
    using virtio_disk.read_loop [OF assms(1,3), of 0 d'] by (auto simp: blk_read_at_def)
  ultimately show ?thesis by auto
qed

theorem blk_write_then_read_witness:
  "\<exists>d' d''. blk_write_at (ram_hw 8) [1, 2, 3, 4] 510 (\<lambda>_ _. 7) = Some (Ok 4, d') \<and>
     blk_read_at (ram_hw 8) [0, 0, 0, 0, 0, 0] 509 d' = Some (Ok 6, [7, 1, 2, 3, 4, 7], d'')"
proof -
  have f: "sector_byte (ram_sectors (\<lambda>_ _. 7)) = (\<lambda>_. 7)"
    by (auto simp: sector_byte_def ram_sectors_def fun_eq_iff SECTOR_SIZE_def)
  have b: "bytes_at (store_bytes 510 [1, 2, 3, 4] (\<lambda>_. 7)) 509 (length [0, 0, 0, 0, 0, 0 :: u8]) = [7, 1, 2, 3, 4, 7 :: u8]"
    by (simp add: bytes_at_def store_bytes_def upt_rec)
  obtain d' d'' where "blk_write_at (ram_hw 8) [1, 2, 3, 4] 510 (\<lambda>_ _. 7) = Some (Ok (length [1, 2, 3, 4 :: u8]), d')"
    "blk_read_at (ram_hw 8) [0, 0, 0, 0, 0, 0] 509 d' = Some (Ok (length [0, 0, 0, 0, 0, 0 :: u8]), [7, 1, 2, 3, 4, 7], d'')"
    using blk_write_then_read [OF ram8.virtio_disk_axioms, of 510 "[1, 2, 3, 4]" 509 "[0, 0, 0, 0, 0, 0]" "\<lambda>_ _. 7"]
    unfolding f b by (auto simp: SECTOR_SIZE_def)
  then show ?thesis by auto
qed



end
