(* ===== verification/Minix_Alloc.thy ===== *)
theory Minix_Alloc
  imports Minix_Codec Virtio_Blk_Correct
begin

text \<open>
  The geometry of a well-formed disk, inodes read back after they are written, and the allocation of zones and inodes
  from the bitmaps.
\<close>

section \<open>Geometry\<close>

text \<open>
  Boot block, superblock, the two maps, the inode table and the data zones follow one another inside the capacity; the
  maps have a bit for every inode and every data zone.
\<close>

definition sb_ok :: "disk_super_block \<Rightarrow> nat \<Rightarrow> nat \<Rightarrow> bool" where
  "sb_ok sb zs cap \<longleftrightarrow>
     zone_size sb = Some zs \<and> 1024 \<le> zs \<and> 64 dvd zs \<and>
     2 + unat (imap_blocks sb) + unat (zmap_blocks sb) < 2 ^ 16 \<and>
     (2 + unat (imap_blocks sb) + unat (zmap_blocks sb)) * zs + unat (ninodes sb) * INODE_SIZE \<le> unat (first_data_zone sb) * zs \<and>
     first_data_zone sb \<le> nzones sb \<and> unat (nzones sb) * zs \<le> cap \<and> cap \<le> usize_max \<and>
     unat (ninodes sb) + 1 \<le> unat (imap_blocks sb) * zs * 8 \<and>
     unat (nzones sb) - unat (first_data_zone sb) + 1 \<le> unat (zmap_blocks sb) * zs * 8"

definition inode_pos :: "disk_super_block \<Rightarrow> nat \<Rightarrow> u16 \<Rightarrow> nat" where
  "inode_pos sb zs ino = (2 + unat (imap_blocks sb) + unat (zmap_blocks sb)) * zs + (unat ino - 1) * INODE_SIZE"

definition ino_ok :: "disk_super_block \<Rightarrow> u16 \<Rightarrow> bool" where
  "ino_ok sb ino \<longleftrightarrow> 1 \<le> ino \<and> ino \<le> ninodes sb"

definition inode_on :: "disk_super_block \<Rightarrow> nat \<Rightarrow> (nat \<Rightarrow> u8) \<Rightarrow> u16 \<Rightarrow> disk_inode" where
  "inode_on sb zs dsk ino = inode_of_bytes (bytes_at dsk (inode_pos sb zs ino) INODE_SIZE)"

lemma sb_okD:
  assumes "sb_ok sb zs cap"
  shows "zone_size sb = Some zs" "1024 \<le> zs" "unat (nzones sb) * zs \<le> cap" "cap \<le> usize_max"
    "unat (first_data_zone sb) \<le> unat (nzones sb)" "unat (first_data_zone sb) * zs \<le> cap"
proof -
  show "zone_size sb = Some zs" "1024 \<le> zs" "unat (nzones sb) * zs \<le> cap" "cap \<le> usize_max"
    "unat (first_data_zone sb) \<le> unat (nzones sb)"
    using assms by (simp_all add: sb_ok_def word_le_nat_alt)
  then show "unat (first_data_zone sb) * zs \<le> cap" using mult_le_mono1 order_trans by blast
qed

lemma ino_okD: "ino_ok sb ino \<Longrightarrow> 1 \<le> unat ino \<and> unat ino \<le> unat (ninodes sb)"
  by (auto simp: ino_ok_def word_le_nat_alt)

lemma inode_offset_ok:
  assumes "sb_ok sb zs cap" "ino_ok sb ino"
  shows "inode_offset sb ino = Some (inode_pos sb zs ino)"
    "inode_pos sb zs ino + INODE_SIZE \<le> unat (first_data_zone sb) * zs" "inode_pos sb zs ino + INODE_SIZE \<le> cap"
    "(2 + unat (imap_blocks sb) + unat (zmap_blocks sb)) * zs \<le> inode_pos sb zs ino"
proof -
  let ?b = "2 + unat (imap_blocks sb) + unat (zmap_blocks sb)"
  have i: "1 \<le> unat ino" "unat ino \<le> unat (ninodes sb)" using ino_okD [OF assms(2)] by simp_all
  have z: "?b * zs + unat (ninodes sb) * INODE_SIZE \<le> unat (first_data_zone sb) * zs" using assms(1) by (simp add: sb_ok_def)
  have "(unat ino - 1) * INODE_SIZE + INODE_SIZE = unat ino * INODE_SIZE" using i(1) by (simp add: INODE_SIZE_def)
  also have "\<dots> \<le> unat (ninodes sb) * INODE_SIZE" using i(2) by simp
  finally show e: "inode_pos sb zs ino + INODE_SIZE \<le> unat (first_data_zone sb) * zs" using z by (simp add: inode_pos_def)
  then show "inode_pos sb zs ino + INODE_SIZE \<le> cap" using sb_okD(6) [OF assms(1)] by linarith
  then have "inode_pos sb zs ino \<le> usize_max" using sb_okD(4) [OF assms(1)] by linarith
  moreover from this have "?b * zs \<le> usize_max" unfolding inode_pos_def by linarith
  moreover have "?b < 2 ^ 16" using assms(1) by (simp add: sb_ok_def)
  ultimately show "inode_offset sb ino = Some (inode_pos sb zs ino)"
    using i sb_okD(1) [OF assms(1)]
    by (simp add: inode_offset_def checked_sub_def inode_table_offset_def checked_mul_def checked_add_def inode_pos_def Let_def)
  show "?b * zs \<le> inode_pos sb zs ino" by (simp add: inode_pos_def)
qed

lemma inode_pos_apart:
  assumes "ino_ok sb i" "ino_ok sb j" "i \<noteq> j"
  shows "inode_pos sb zs i + INODE_SIZE \<le> inode_pos sb zs j \<or> inode_pos sb zs j + INODE_SIZE \<le> inode_pos sb zs i"
proof -
  have "unat i \<noteq> unat j" using assms(3) by (simp add: word_unat_eq_iff)
  then consider "unat i < unat j" | "unat j < unat i" by linarith
  then show ?thesis using ino_okD [OF assms(1)] ino_okD [OF assms(2)]
    unfolding inode_pos_def INODE_SIZE_def by cases linarith+
qed

section \<open>Inodes\<close>

context block_device
begin

lemma read_inode_ok:
  assumes "sb_ok sb zs cap" "ino_ok sb ino"
  obtains d' where "read_inode sb dev ino d = Some (Ok (inode_on sb zs (disk d) ino), d')" "disk d' = disk d"
proof -
  note p = inode_offset_ok [OF assms]
  obtain d' where "io_read dev INODE_SIZE (inode_pos sb zs ino) d =
      Some (Ok (bytes_at (disk d) (inode_pos sb zs ino) INODE_SIZE), d')" "disk d' = disk d"
    using io_read_ok [OF p(3)] by metis
  then show ?thesis using that p(1) by (simp add: read_inode_def io_bind_Some inode_on_def io_ok_def)
qed

lemma write_inode_ok:
  assumes "sb_ok sb zs cap" "ino_ok sb ino" "length (di_zone inode) = 9"
  obtains d' where "write_inode sb dev ino inode d = Some (Ok (), d')"
    "disk d' = store_bytes (inode_pos sb zs ino) (inode_bytes inode) (disk d)"
proof -
  note p = inode_offset_ok [OF assms(1,2)]
  have "inode_pos sb zs ino + length (inode_bytes inode) \<le> cap" using p(3) assms(3) by simp
  from io_write_ok [OF this, of d] obtain d' where "io_write dev (inode_bytes inode) (inode_pos sb zs ino) d = Some (Ok (), d')"
    "disk d' = store_bytes (inode_pos sb zs ino) (inode_bytes inode) (disk d)" by metis
  then show ?thesis using that p(1) by (simp add: write_inode_def)
qed

end

lemma inode_on_store:
  assumes "ino_ok sb i" "ino_ok sb j" "length (di_zone inode) = 9"
  shows "inode_on sb zs (store_bytes (inode_pos sb zs i) (inode_bytes inode) dsk) j =
    (if j = i then inode else inode_on sb zs dsk j)"
proof (cases "j = i")
  case True
  have "bytes_at (store_bytes (inode_pos sb zs i) (inode_bytes inode) dsk) (inode_pos sb zs i) INODE_SIZE = inode_bytes inode"
    using bytes_at_store [of "inode_pos sb zs i" "inode_bytes inode" dsk] assms(3) by simp
  then show ?thesis using True inode_of_inode_bytes [OF assms(3)] by (simp add: inode_on_def)
next
  case False
  then show ?thesis using inode_pos_apart [OF assms(1,2), of zs] assms(3)
    by (auto simp: inode_on_def bytes_at_store_other)
qed

section \<open>Scans of a view with spare words\<close>

text \<open>
  The words of an on-disk map fill whole zones, so the view has words past its last bit.  The scan masks only the last
  word: a free bit below the capacity is found first, but on a full map the scan runs on into the padding.
\<close>

lemma scan_pred_below:
  assumes "bits \<le> 64 * length ws" "i < bits"
  shows "scan_pred ws bits want i \<longleftrightarrow> is_bit_set ws i = (\<not> want)"
proof -
  define a c where "a = i div 64" and "c = i mod 64"
  then have i: "i = 64 * a + c" "c < 64" by simp_all
  have "\<not> (a = length ws - 1 \<and> bits mod 64 \<noteq> 0 \<and> bits mod 64 \<le> c)"
  proof (rule notI)
    assume h: "a = length ws - 1 \<and> bits mod 64 \<noteq> 0 \<and> bits mod 64 \<le> c"
    have "bits = 64 * (bits div 64) + bits mod 64" by simp
    moreover have "bits div 64 < length ws" using h assms(1) \<open>bits = _\<close> by linarith
    then have "bits div 64 \<le> a" using h by linarith
    ultimately show False using h i assms(2) by linarith
  qed
  then show ?thesis by (auto simp: scan_pred_def a_def c_def)
qed

lemma view_alloc_least:
  assumes "bv_bits v \<le> 64 * length (bv_words v)" "1 \<le> i" "i < bv_bits v" "i \<notin> used_bits (bv_words v)"
    "\<forall>j. 1 \<le> j \<longrightarrow> j < i \<longrightarrow> j \<in> used_bits (bv_words v)"
  shows "view_alloc v = (Some i, bv_mark v i)"
proof -
  have "scan_words (bv_words v) (bv_bits v) 1 True = Some i"
    using assms scan_words_general [OF assms(1), of 1 True]
    by (auto simp: find_upt_Some_iff scan_pred_below used_bits_def)
  then show ?thesis by (simp add: view_alloc_def bv_alloc_from_def bv_find_free_from_def)
qed

text \<open>With every bit below the capacity taken, the first clear padding bit outside the last word is handed out.\<close>

lemma view_alloc_padding:
  assumes "1 < bv_bits v" "bv_bits v div 64 < length (bv_words v) - 1" "bv_bits v \<notin> used_bits (bv_words v)"
    "\<forall>j. 1 \<le> j \<longrightarrow> j < bv_bits v \<longrightarrow> j \<in> used_bits (bv_words v)"
  shows "view_alloc v = (Some (bv_bits v), bv_mark v (bv_bits v))"
proof -
  have len: "bv_bits v < 64 * length (bv_words v)" using assms(2) by linarith
  have "scan_pred (bv_words v) (bv_bits v) True (bv_bits v)"
    using assms(2,3) by (auto simp: scan_pred_def used_bits_def)
  then have "scan_words (bv_words v) (bv_bits v) 1 True = Some (bv_bits v)"
    using assms(1,4) len scan_words_general [of "bv_bits v" "bv_words v" 1 True]
    by (auto simp: find_upt_Some_iff scan_pred_below used_bits_def)
  then show ?thesis by (simp add: view_alloc_def bv_alloc_from_def bv_find_free_from_def)
qed

section \<open>Maps on the disk\<close>

definition words_on :: "(nat \<Rightarrow> u8) \<Rightarrow> nat \<Rightarrow> nat \<Rightarrow> u64 list" where
  "words_on dsk off n = map of_le_bytes (as_chunks n (bytes_at dsk off (8 * n)))"

lemma length_words_on [simp]: "length (words_on dsk off n) = n"
  by (simp add: words_on_def)

lemma words_on_store: "words_on (store_bytes off (concat (map u64_bytes ws)) dsk) off (length ws) = ws"
  using bytes_at_store [of off "concat (map u64_bytes ws)" dsk] words_of_bytes [of ws]
  by (simp only: words_on_def length_words_bytes)

lemma words_on_store_other:
  "off' + 8 * n \<le> off \<or> off + length bs \<le> off' \<Longrightarrow> words_on (store_bytes off bs dsk) off' n = words_on dsk off' n"
  by (simp add: words_on_def bytes_at_store_other)

context block_device
begin

lemma with_bitmap_ok:
  assumes "off + map_bytes \<le> cap" "map_bytes = 8 * n"
    and "f \<lparr>bv_words = words_on (disk d) off n, bv_bits = min bits (n * 64)\<rparr> = (r, v')" "length (bv_words v') = n"
  obtains d' where "with_bitmap dev off map_bytes bits f d = Some (Ok r, d')"
    "disk d' = store_bytes off (concat (map u64_bytes (bv_words v'))) (disk d)"
    "words_on (disk d') off n = bv_words v'"
proof -
  obtain d1 where d1: "io_read dev map_bytes off d = Some (Ok (bytes_at (disk d) off map_bytes), d1)" "disk d1 = disk d"
    using io_read_ok [OF assms(1)] by metis
  have "off + length (concat (map u64_bytes (bv_words v'))) \<le> cap" using assms by simp
  from io_write_ok [OF this, of d1] obtain d2 where
    d2: "io_write dev (concat (map u64_bytes (bv_words v'))) off d1 = Some (Ok (), d2)"
      "disk d2 = store_bytes off (concat (map u64_bytes (bv_words v'))) (disk d1)" by metis
  have "with_bitmap dev off map_bytes bits f d = Some (Ok r, d2)"
    using d1(1) d2(1) assms(2,3)
    by (simp add: with_bitmap_def io_bind_Some bv_new_with_capacity_def WORD_BITS_def words_on_def io_ok_def)
  then show ?thesis using that d2(2) d1(2) words_on_store [of off "bv_words v'" "disk d"] assms(4) by simp
qed

text \<open>The least free bit below the capacity is taken; the write changes only the bytes of the map.\<close>

lemma bitmap_alloc_ok:
  assumes "off + 8 * n \<le> cap" "bits \<le> 64 * n" "1 \<le> i" "i < bits" "i \<notin> used_bits (words_on (disk d) off n)"
    "\<forall>j. 1 \<le> j \<longrightarrow> j < i \<longrightarrow> j \<in> used_bits (words_on (disk d) off n)"
  obtains d' bs where "with_bitmap dev off (8 * n) bits view_alloc d = Some (Ok (Some i), d')"
    "disk d' = store_bytes off bs (disk d)" "length bs = 8 * n"
    "used_bits (words_on (disk d') off n) = insert i (used_bits (words_on (disk d) off n))"
proof -
  define v where "v = \<lparr>bv_words = words_on (disk d) off n, bv_bits = min bits (n * 64)\<rparr>"
  have "view_alloc v = (Some i, bv_mark v i)"
    using assms by (intro view_alloc_least) (auto simp: v_def)
  then have f: "view_alloc \<lparr>bv_words = words_on (disk d) off n, bv_bits = min bits (n * 64)\<rparr> = (Some i, bv_mark v i)"
    by (simp only: v_def)
  have len: "length (bv_words (bv_mark v i)) = n" by (simp add: bv_mark_def v_def)
  have "used_bits (bv_words (bv_mark v i)) = insert i (used_bits (words_on (disk d) off n))"
    using assms(2,4) by (simp add: bv_mark_def v_def)
  moreover have "length (concat (map u64_bytes (bv_words (bv_mark v i)))) = 8 * n" unfolding length_words_bytes len ..
  ultimately show ?thesis
    using with_bitmap_ok [where f = view_alloc, OF assms(1) refl f len] that by metis
qed

text \<open>Clearing a bit below the capacity.\<close>

lemma bitmap_clear_ok:
  assumes "off + 8 * n \<le> cap" "bits \<le> 64 * n" "i < bits"
  obtains d' bs where "with_bitmap dev off (8 * n) bits (view_clear i) d = Some (Ok (), d')"
    "disk d' = store_bytes off bs (disk d)" "length bs = 8 * n"
    "used_bits (words_on (disk d') off n) = used_bits (words_on (disk d) off n) - {i}"
proof -
  define v where "v = \<lparr>bv_words = words_on (disk d) off n, bv_bits = min bits (n * 64)\<rparr>"
  have "view_clear i v = ((), bv_unmark v i)"
    using assms by (simp add: view_clear_def bv_clear_def bv_contains_def v_def)
  then have f: "view_clear i \<lparr>bv_words = words_on (disk d) off n, bv_bits = min bits (n * 64)\<rparr> = ((), bv_unmark v i)"
    by (simp only: v_def)
  have len: "length (bv_words (bv_unmark v i)) = n" by (simp add: bv_unmark_def v_def)
  have "used_bits (bv_words (bv_unmark v i)) = used_bits (words_on (disk d) off n) - {i}"
    using assms(2,3) by (simp add: bv_unmark_def v_def)
  moreover have "length (concat (map u64_bytes (bv_words (bv_unmark v i)))) = 8 * n" unfolding length_words_bytes len ..
  ultimately show ?thesis
    using with_bitmap_ok [where f = "view_clear i", OF assms(1) refl f len] that by metis
qed

end

section \<open>Zones\<close>

definition zmap_pos :: "disk_super_block \<Rightarrow> nat \<Rightarrow> nat" where
  "zmap_pos sb zs = (2 + unat (imap_blocks sb)) * zs"

definition zmap_words :: "disk_super_block \<Rightarrow> nat \<Rightarrow> nat" where
  "zmap_words sb zs = unat (zmap_blocks sb) * zs div 8"

text \<open>The data zones marked in the zone map.\<close>

definition zones_used :: "disk_super_block \<Rightarrow> nat \<Rightarrow> (nat \<Rightarrow> u8) \<Rightarrow> nat set" where
  "zones_used sb zs dsk =
     {z. unat (first_data_zone sb) \<le> z \<and> z < unat (nzones sb) \<and>
         z - unat (first_data_zone sb) + 1 \<in> used_bits (words_on dsk (zmap_pos sb zs) (zmap_words sb zs))}"

lemma zmap_region_ok:
  assumes "sb_ok sb zs cap"
  shows "zmap_region sb = Some (zmap_pos sb zs, 8 * zmap_words sb zs, unat (nzones sb) - unat (first_data_zone sb) + 1)"
    "zmap_pos sb zs + 8 * zmap_words sb zs \<le> unat (first_data_zone sb) * zs"
    "zmap_pos sb zs + 8 * zmap_words sb zs \<le> cap"
    "unat (nzones sb) - unat (first_data_zone sb) + 1 \<le> 64 * zmap_words sb zs"
proof -
  let ?f = "unat (first_data_zone sb)" and ?n = "unat (nzones sb)"
  have "(8::nat) dvd 64" by simp
  then have "8 dvd zs" using assms unfolding sb_ok_def by (meson dvd_trans)
  then have w: "8 * zmap_words sb zs = unat (zmap_blocks sb) * zs" by (simp add: zmap_words_def)
  have b: "(2 + unat (imap_blocks sb) + unat (zmap_blocks sb)) * zs + unat (ninodes sb) * INODE_SIZE \<le> ?f * zs"
    using assms by (simp add: sb_ok_def)
  have e: "zmap_pos sb zs + 8 * zmap_words sb zs = (2 + unat (imap_blocks sb) + unat (zmap_blocks sb)) * zs"
    unfolding w zmap_pos_def by (simp add: algebra_simps)
  show le: "zmap_pos sb zs + 8 * zmap_words sb zs \<le> ?f * zs" using b unfolding e by linarith
  then show c: "zmap_pos sb zs + 8 * zmap_words sb zs \<le> cap" using sb_okD(6) [OF assms] by linarith
  have "zmap_pos sb zs \<le> usize_max" "8 * zmap_words sb zs \<le> usize_max" using c sb_okD(4) [OF assms] by linarith+
  then show "zmap_region sb = Some (zmap_pos sb zs, 8 * zmap_words sb zs, ?n - ?f + 1)"
    using sb_okD(1,5) [OF assms] unfolding w zmap_pos_def
    by (simp add: zmap_region_def checked_mul_def checked_sub_def)
  have "?n - ?f + 1 \<le> unat (zmap_blocks sb) * zs * 8" using assms by (simp add: sb_ok_def)
  then show "?n - ?f + 1 \<le> 64 * zmap_words sb zs" unfolding w [symmetric] by linarith
qed

context block_device
begin

lemma alloc_zone_ok:
  assumes "sb_ok sb zs cap" "unat (first_data_zone sb) \<le> z" "z < unat (nzones sb)" "z \<notin> zones_used sb zs (disk d)"
    and least: "\<forall>y. unat (first_data_zone sb) \<le> y \<longrightarrow> y < z \<longrightarrow> y \<in> zones_used sb zs (disk d)"
  obtains d' bs where "alloc_zone sb dev d = Some (Ok (Some (of_nat z)), d')"
    "disk d' = store_bytes (zmap_pos sb zs) bs (disk d)" "length bs = 8 * zmap_words sb zs"
    "zones_used sb zs (disk d') = insert z (zones_used sb zs (disk d))"
proof -
  let ?f = "unat (first_data_zone sb)" and ?n = "unat (nzones sb)" and ?w = "zmap_words sb zs"
  let ?ws = "words_on (disk d) (zmap_pos sb zs) ?w" and ?i = "z - unat (first_data_zone sb) + 1"
  note r = zmap_region_ok [OF assms(1)]
  have i: "1 \<le> ?i" "?i < ?n - ?f + 1" using assms(2,3) by linarith+
  have free: "?i \<notin> used_bits ?ws" using assms(2-4) by (simp add: zones_used_def)
  have low: "\<forall>j. 1 \<le> j \<longrightarrow> j < ?i \<longrightarrow> j \<in> used_bits ?ws"
  proof (intro allI impI)
    fix j assume j: "1 \<le> j" "j < ?i"
    then have "?f + j - 1 \<in> zones_used sb zs (disk d)" using least by simp
    then show "j \<in> used_bits ?ws" using j by (simp add: zones_used_def)
  qed
  obtain d' bs where d': "with_bitmap dev (zmap_pos sb zs) (8 * ?w) (?n - ?f + 1) view_alloc d = Some (Ok (Some ?i), d')"
    "disk d' = store_bytes (zmap_pos sb zs) bs (disk d)" "length bs = 8 * ?w"
    "used_bits (words_on (disk d') (zmap_pos sb zs) ?w) = insert ?i (used_bits ?ws)"
    by (rule bitmap_alloc_ok [OF r(3,4) i free low])
  have "zones_used sb zs (disk d') = insert z (zones_used sb zs (disk d))"
    using assms(2,3) unfolding zones_used_def d'(4) by auto
  moreover have "alloc_zone sb dev d = Some (Ok (Some (of_nat z)), d')"
    using d'(1) r(1) assms(2) by (simp add: alloc_zone_def io_bind_Some io_lift_def io_ok_def)
  ultimately show ?thesis using that d'(2,3) by metis
qed

lemma free_zone_ok:
  assumes "sb_ok sb zs cap"
  obtains d' where "free_zone sb dev z d = Some (Ok (), d')"
    "zones_used sb zs (disk d') = zones_used sb zs (disk d) - {unat z}"
proof (cases "z < first_data_zone sb \<or> nzones sb \<le> z")
  case True
  then have "unat z \<notin> zones_used sb zs (disk d)" by (auto simp: zones_used_def word_less_nat_alt word_le_nat_alt)
  then show ?thesis using that [of d] True by (simp add: free_zone_def io_ok_def)
next
  case False
  let ?f = "unat (first_data_zone sb)" and ?n = "unat (nzones sb)" and ?w = "zmap_words sb zs"
  note r = zmap_region_ok [OF assms]
  have z: "?f \<le> unat z" "unat z < ?n" using False by (auto simp: word_less_nat_alt word_le_nat_alt)
  then have "unat z - ?f + 1 < ?n - ?f + 1" by linarith
  from bitmap_clear_ok [OF r(3,4) this, of d] obtain d' where
    d': "with_bitmap dev (zmap_pos sb zs) (8 * ?w) (?n - ?f + 1) (view_clear (unat z - ?f + 1)) d = Some (Ok (), d')"
    "used_bits (words_on (disk d') (zmap_pos sb zs) ?w) =
       used_bits (words_on (disk d) (zmap_pos sb zs) ?w) - {unat z - ?f + 1}" by metis
  have "zones_used sb zs (disk d') = zones_used sb zs (disk d) - {unat z}"
    using z unfolding zones_used_def d'(2) by auto
  moreover have "free_zone sb dev z d = Some (Ok (), d')"
    using d'(1) r(1) False by (simp add: free_zone_def io_bind_Some io_lift_def)
  ultimately show ?thesis using that by metis
qed

text \<open>A full map whose padding has a clear bit yields the zone number just past the last zone of the disk.\<close>

lemma alloc_zone_full:
  assumes "sb_ok sb zs cap" "first_data_zone sb < nzones sb"
    and "\<forall>y. unat (first_data_zone sb) \<le> y \<longrightarrow> y < unat (nzones sb) \<longrightarrow> y \<in> zones_used sb zs (disk d)"
    and "(unat (nzones sb) - unat (first_data_zone sb) + 1) div 64 < zmap_words sb zs - 1"
    and "unat (nzones sb) - unat (first_data_zone sb) + 1 \<notin> used_bits (words_on (disk d) (zmap_pos sb zs) (zmap_words sb zs))"
  obtains d' where "alloc_zone sb dev d = Some (Ok (Some (nzones sb)), d')"
proof -
  let ?f = "unat (first_data_zone sb)" and ?n = "unat (nzones sb)" and ?w = "zmap_words sb zs"
  let ?ws = "words_on (disk d) (zmap_pos sb zs) ?w" and ?i = "unat (nzones sb) - unat (first_data_zone sb) + 1"
  note r = zmap_region_ok [OF assms(1)]
  have lt: "?f < ?n" using assms(2) by (simp add: word_less_nat_alt)
  define v where "v = \<lparr>bv_words = ?ws, bv_bits = min ?i (?w * 64)\<rparr>"
  have bits: "bv_bits v = ?i" using r(4) by (simp add: v_def)
  have low: "j \<in> used_bits (bv_words v)" if "1 \<le> j" "j < ?i" for j
  proof -
    have "?f + j - 1 \<in> zones_used sb zs (disk d)" using assms(3) that by simp
    then show ?thesis using that by (simp add: zones_used_def v_def)
  qed
  have "view_alloc v = (Some (bv_bits v), bv_mark v (bv_bits v))"
  proof (rule view_alloc_padding)
    show "1 < bv_bits v" unfolding bits using lt by simp
    show "bv_bits v div 64 < length (bv_words v) - 1" unfolding bits using assms(4) by (simp add: v_def)
    show "bv_bits v \<notin> used_bits (bv_words v)" unfolding bits using assms(5) by (simp add: v_def)
    show "\<forall>j. 1 \<le> j \<longrightarrow> j < bv_bits v \<longrightarrow> j \<in> used_bits (bv_words v)" unfolding bits using low by simp
  qed
  then have f: "view_alloc \<lparr>bv_words = ?ws, bv_bits = min ?i (?w * 64)\<rparr> = (Some ?i, bv_mark v ?i)"
    unfolding bits by (simp only: v_def)
  have len: "length (bv_words (bv_mark v ?i)) = ?w" by (simp add: bv_mark_def v_def)
  obtain d' where d': "with_bitmap dev (zmap_pos sb zs) (8 * ?w) ?i view_alloc d = Some (Ok (Some ?i), d')"
    by (rule with_bitmap_ok [where f = view_alloc, OF r(3) refl f len])
  then have "alloc_zone sb dev d = Some (Ok (Some (of_nat (?i + ?f - 1))), d')"
    using r(1) by (simp add: alloc_zone_def io_bind_Some io_lift_def io_ok_def)
  moreover have "?i + ?f - 1 = ?n" using lt by simp
  ultimately have "alloc_zone sb dev d = Some (Ok (Some (of_nat ?n)), d')" by metis
  then show ?thesis using that by simp
qed

end

section \<open>Inode numbers\<close>

definition imap_words :: "disk_super_block \<Rightarrow> nat \<Rightarrow> nat" where
  "imap_words sb zs = unat (imap_blocks sb) * zs div 8"

definition inodes_used :: "disk_super_block \<Rightarrow> nat \<Rightarrow> (nat \<Rightarrow> u8) \<Rightarrow> nat set" where
  "inodes_used sb zs dsk =
     {i. 1 \<le> i \<and> i \<le> unat (ninodes sb) \<and> i \<in> used_bits (words_on dsk (2 * zs) (imap_words sb zs))}"

lemma imap_region_ok:
  assumes "sb_ok sb zs cap"
  shows "imap_region sb = Some (2 * zs, 8 * imap_words sb zs)" "2 * zs + 8 * imap_words sb zs \<le> zmap_pos sb zs"
    "2 * zs + 8 * imap_words sb zs \<le> cap" "unat (ninodes sb) + 1 \<le> 64 * imap_words sb zs"
proof -
  have "(8::nat) dvd 64" by simp
  then have "8 dvd zs" using assms unfolding sb_ok_def by (meson dvd_trans)
  then have w: "8 * imap_words sb zs = unat (imap_blocks sb) * zs" by (simp add: imap_words_def)
  show le: "2 * zs + 8 * imap_words sb zs \<le> zmap_pos sb zs" unfolding w zmap_pos_def by (simp add: algebra_simps)
  then show c: "2 * zs + 8 * imap_words sb zs \<le> cap" using zmap_region_ok(3) [OF assms] by linarith
  then have "2 * zs \<le> usize_max" "8 * imap_words sb zs \<le> usize_max" using sb_okD(4) [OF assms] by linarith+
  then show "imap_region sb = Some (2 * zs, 8 * imap_words sb zs)"
    using sb_okD(1) [OF assms] unfolding w by (simp add: imap_region_def checked_mul_def)
  have "unat (ninodes sb) + 1 \<le> unat (imap_blocks sb) * zs * 8" using assms by (simp add: sb_ok_def)
  then show "unat (ninodes sb) + 1 \<le> 64 * imap_words sb zs" unfolding w [symmetric] by linarith
qed

context block_device
begin

lemma alloc_inode_ok:
  assumes "sb_ok sb zs cap" "1 \<le> i" "i \<le> unat (ninodes sb)" "i \<notin> inodes_used sb zs (disk d)"
    and least: "\<forall>j. 1 \<le> j \<longrightarrow> j < i \<longrightarrow> j \<in> inodes_used sb zs (disk d)"
  obtains d' bs where "alloc_inode sb dev d = Some (Ok (Some (of_nat i)), d')"
    "disk d' = store_bytes (2 * zs) bs (disk d)" "length bs = 8 * imap_words sb zs"
    "inodes_used sb zs (disk d') = insert i (inodes_used sb zs (disk d))"
proof -
  note r = imap_region_ok [OF assms(1)]
  have i: "i < unat (ninodes sb) + 1" using assms(3) by simp
  have free: "i \<notin> used_bits (words_on (disk d) (2 * zs) (imap_words sb zs))" using assms(2-4) by (simp add: inodes_used_def)
  have low: "\<forall>j. 1 \<le> j \<longrightarrow> j < i \<longrightarrow> j \<in> used_bits (words_on (disk d) (2 * zs) (imap_words sb zs))"
    using least by (simp add: inodes_used_def)
  obtain d' bs where d': "with_bitmap dev (2 * zs) (8 * imap_words sb zs) (unat (ninodes sb) + 1) view_alloc d = Some (Ok (Some i), d')"
    "disk d' = store_bytes (2 * zs) bs (disk d)" "length bs = 8 * imap_words sb zs"
    "used_bits (words_on (disk d') (2 * zs) (imap_words sb zs)) = insert i (used_bits (words_on (disk d) (2 * zs) (imap_words sb zs)))"
    by (rule bitmap_alloc_ok [OF r(3,4) assms(2) i free low])
  have "inodes_used sb zs (disk d') = insert i (inodes_used sb zs (disk d))"
    using assms(2,3) unfolding inodes_used_def d'(4) by auto
  moreover have "alloc_inode sb dev d = Some (Ok (Some (of_nat i)), d')"
    using d'(1) r(1) by (simp add: alloc_inode_def io_bind_Some io_lift_def io_ok_def)
  ultimately show ?thesis using that d'(2,3) by metis
qed

end

section \<open>Properties\<close>

interpretation ram32: virtio_disk "ram_hw 32" ram_sectors 32
  by (rule ram_disk) (simp add: SECTOR_SIZE_def usize_max_def)

lemmas ram32_device = ram32.block_device_axioms

text \<open>A disk of sixteen 1 KiB zones: one zone for each map, 32 inodes in one zone, data from zone 5.\<close>

definition example_sb :: disk_super_block where
  "example_sb =
     \<lparr>ninodes = 32, nzones = 16, imap_blocks = 1, zmap_blocks = 1, first_data_zone = 5, log_zone_size = 0,
      max_size = 268966912, magic = MAGIC_V1_14, state = 1\<rparr>"

lemma example_sb_ok: "sb_ok example_sb 1024 (32 * SECTOR_SIZE)"
  by (simp add: sb_ok_def example_sb_def zone_size_def INODE_SIZE_def SECTOR_SIZE_def usize_max_def)

lemma sector_byte_ram: "sector_byte (ram_sectors d) a = d (a div SECTOR_SIZE) (a mod SECTOR_SIZE)"
  by (simp add: sector_byte_def ram_sectors_def SECTOR_SIZE_def)

lemma used_bits_words_on:
  "i \<in> used_bits (words_on dsk off n) \<longleftrightarrow> i < 64 * n \<and> bit (dsk (off + i div 8)) (i mod 8)"
proof -
  have "i div 8 < 8 * n" if "i < 64 * n" using that by linarith
  then show ?thesis unfolding words_on_def by (subst bits_set_le_chunks) auto
qed

text \<open>C13: an inode written to the inode table reads back unchanged, every other inode keeps its contents, and no byte
  outside the inode table changes.\<close>

theorem inode_write_read:
  assumes "block_device dev disk cap" "sb_ok sb zs cap" "ino_ok sb ino" "ino_ok sb other" "length (di_zone inode) = 9"
  shows "\<exists>d' d''. write_inode sb dev ino inode d = Some (Ok (), d') \<and>
    read_inode sb dev other d' = Some (Ok (if other = ino then inode else inode_on sb zs (disk d) other), d'') \<and>
    (\<forall>a. a < (2 + unat (imap_blocks sb) + unat (zmap_blocks sb)) * zs \<or> unat (first_data_zone sb) * zs \<le> a \<longrightarrow>
      disk d' a = disk d a)"
proof -
  obtain d' where d': "write_inode sb dev ino inode d = Some (Ok (), d')"
    "disk d' = store_bytes (inode_pos sb zs ino) (inode_bytes inode) (disk d)"
    by (rule block_device.write_inode_ok [OF assms(1,2,3,5)])
  obtain d'' where r: "read_inode sb dev other d' = Some (Ok (inode_on sb zs (disk d') other), d'')"
    by (rule block_device.read_inode_ok [OF assms(1,2,4)])
  have e: "inode_on sb zs (disk d') other = (if other = ino then inode else inode_on sb zs (disk d) other)"
    unfolding d'(2) by (rule inode_on_store [OF assms(3,4,5)])
  have f: "disk d' a = disk d a"
    if "a < (2 + unat (imap_blocks sb) + unat (zmap_blocks sb)) * zs \<or> unat (first_data_zone sb) * zs \<le> a" for a
  proof -
    have "a < inode_pos sb zs ino \<or> inode_pos sb zs ino + INODE_SIZE \<le> a"
      using that inode_offset_ok(2,4) [OF assms(2,3)] by (meson order_trans order_less_le_trans)
    then show ?thesis using assms(5) unfolding d'(2) store_bytes_def by auto
  qed
  show ?thesis by (rule exI [of _ d'], rule exI [of _ d''], intro conjI allI impI d'(1) r [unfolded e] f)
qed

definition example_inode :: disk_inode where
  "example_inode =
     \<lparr>di_mode = 0x81A4, di_uid = 0, di_size = 5, di_mtime = 1, di_gid = 0, di_nlinks = 1, di_zone = [7, 0, 0, 0, 0, 0, 0, 0, 0]\<rparr>"

theorem inode_write_read_witness:
  "\<exists>d' d''. write_inode example_sb (virtio_blk (ram_hw 32)) 2 example_inode (\<lambda>_ _. 0) = Some (Ok (), d') \<and>
     read_inode example_sb (virtio_blk (ram_hw 32)) 2 d' = Some (Ok example_inode, d'')"
proof -
  have "ino_ok example_sb 2" "length (di_zone example_inode) = 9"
    by (simp_all add: ino_ok_def example_sb_def example_inode_def)
  then show ?thesis using inode_write_read [OF ram32_device example_sb_ok, of 2 2 example_inode "\<lambda>_ _. 0"] by auto
qed

text \<open>C12: while a data zone is free, allocation returns one: the number lies between the first data zone and the end of
  the disk, was not in use, is in use afterwards and is the only change to the map; inodes and data are untouched.\<close>

theorem alloc_zone_fresh:
  assumes "block_device dev disk cap" "sb_ok sb zs cap"
    and "{unat (first_data_zone sb)..<unat (nzones sb)} - zones_used sb zs (disk d) \<noteq> {}"
  shows "\<exists>z d'. alloc_zone sb dev d = Some (Ok (Some z), d') \<and> first_data_zone sb \<le> z \<and> z < nzones sb \<and>
    unat z \<notin> zones_used sb zs (disk d) \<and> zones_used sb zs (disk d') = insert (unat z) (zones_used sb zs (disk d)) \<and>
    inodes_used sb zs (disk d') = inodes_used sb zs (disk d) \<and>
    (\<forall>a \<ge> zmap_pos sb zs + 8 * zmap_words sb zs. disk d' a = disk d a)"
proof -
  let ?P = "\<lambda>z. z \<in> {unat (first_data_zone sb)..<unat (nzones sb)} - zones_used sb zs (disk d)"
  obtain z where z: "?P z" and l: "\<And>y. y < z \<Longrightarrow> \<not> ?P y"
    using assms(3) exists_least_iff [of ?P] by blast
  have "\<forall>y. unat (first_data_zone sb) \<le> y \<longrightarrow> y < z \<longrightarrow> y \<in> zones_used sb zs (disk d)" using z l by fastforce
  with z obtain d' bs where d': "alloc_zone sb dev d = Some (Ok (Some (of_nat z)), d')"
    "disk d' = store_bytes (zmap_pos sb zs) bs (disk d)" "length bs = 8 * zmap_words sb zs"
    "zones_used sb zs (disk d') = insert z (zones_used sb zs (disk d))"
    using block_device.alloc_zone_ok [OF assms(1,2), of z d] by auto
  have "unat (nzones sb) < 2 ^ 16" using unsigned_less [of "nzones sb"] by simp
  then have "z < 2 ^ 16" using z by simp
  then have u: "unat (of_nat z :: u16) = z" by (simp add: unat_of_nat)
  have "inodes_used sb zs (disk d') = inodes_used sb zs (disk d)"
    using imap_region_ok(2) [OF assms(2)] by (simp add: inodes_used_def d'(2) words_on_store_other)
  moreover have "\<forall>a \<ge> zmap_pos sb zs + 8 * zmap_words sb zs. disk d' a = disk d a"
    using d'(3) by (simp add: d'(2) store_bytes_def)
  ultimately show ?thesis using d'(1,4) z u
    by (intro exI [of _ "of_nat z"] exI [of _ d']) (auto simp: word_le_nat_alt word_less_nat_alt)
qed

lemma example_sb_simps:
  "unat (first_data_zone example_sb) = 5" "unat (nzones example_sb) = 16" "first_data_zone example_sb = 5"
  "nzones example_sb = 16" "zmap_pos example_sb 1024 = 3072" "zmap_words example_sb 1024 = 128"
  by (simp_all add: example_sb_def zmap_pos_def zmap_words_def)

theorem alloc_zone_fresh_witness:
  "\<exists>z d'. alloc_zone example_sb (virtio_blk (ram_hw 32)) (\<lambda>_ _. 0) = Some (Ok (Some z), d') \<and> 5 \<le> z \<and> z < 16"
proof -
  have "5 \<in> {unat (first_data_zone example_sb)..<unat (nzones example_sb)} -
      zones_used example_sb 1024 (sector_byte (ram_sectors (\<lambda>_ _. 0)))"
    by (simp add: example_sb_simps zones_used_def used_bits_words_on sector_byte_ram)
  then have "{unat (first_data_zone example_sb)..<unat (nzones example_sb)} -
      zones_used example_sb 1024 (sector_byte (ram_sectors (\<lambda>_ _. 0))) \<noteq> {}" by blast
  from alloc_zone_fresh [where d = "\<lambda>_ _. 0", OF ram32_device example_sb_ok this] show ?thesis
    unfolding example_sb_simps by blast
qed

text \<open>C39: on a disk whose data zones are all in use, allocation does not report a full disk but returns the number just
  past the last zone, when the map has a spare word and its first padding bit is clear: the scan masks only the padding
  of the last word.\<close>

theorem alloc_zone_past_end:
  assumes "block_device dev disk cap" "sb_ok sb zs cap" "first_data_zone sb < nzones sb"
    and "{unat (first_data_zone sb)..<unat (nzones sb)} \<subseteq> zones_used sb zs (disk d)"
    and "(unat (nzones sb) - unat (first_data_zone sb) + 1) div 64 < zmap_words sb zs - 1"
    and "unat (nzones sb) - unat (first_data_zone sb) + 1 \<notin> used_bits (words_on (disk d) (zmap_pos sb zs) (zmap_words sb zs))"
  shows "\<exists>d'. alloc_zone sb dev d = Some (Ok (Some (nzones sb)), d')"
proof -
  have "\<forall>y. unat (first_data_zone sb) \<le> y \<longrightarrow> y < unat (nzones sb) \<longrightarrow> y \<in> zones_used sb zs (disk d)"
    using assms(4) by auto
  from block_device.alloc_zone_full [OF assms(1-3) this assms(5,6)] show ?thesis by metis
qed

definition full_disk :: "nat \<Rightarrow> nat \<Rightarrow> u8" where
  "full_disk s i = (if s = 6 \<and> i = 0 then 0xFF else if s = 6 \<and> i = 1 then 0x0F else 0)"

theorem alloc_zone_past_end_witness:
  "\<exists>d'. alloc_zone example_sb (virtio_blk (ram_hw 32)) full_disk = Some (Ok (Some 16), d')"
proof -
  let ?d = "sector_byte (ram_sectors full_disk)"
  have b: "\<forall>i \<in> set [0..<16]. bit (if i div 8 = 0 then 0xFF else 0x0F :: u8) (i mod 8) = (i < 12)" by code_simp
  have u: "i \<in> used_bits (words_on ?d 3072 128) \<longleftrightarrow> i < 12" if "i < 16" for i
  proof -
    have "bit (if i div 8 = 0 then 0xFF else 0x0F :: u8) (i mod 8) = (i < 12)" by (rule bspec [OF b]) (simp add: that)
    moreover have "i div 8 = 0 \<or> i div 8 = 1" using that by presburger
    ultimately show ?thesis using that
      by (auto simp: used_bits_words_on sector_byte_ram full_disk_def SECTOR_SIZE_def)
  qed
  have "x \<in> zones_used example_sb 1024 ?d" if "5 \<le> x" "x < 16" for x
    using u [of "x - 5 + 1"] that by (simp add: zones_used_def example_sb_simps)
  then have "{5..<16} \<subseteq> zones_used example_sb 1024 ?d" by auto
  then have "\<exists>d'. alloc_zone example_sb (virtio_blk (ram_hw 32)) full_disk = Some (Ok (Some (nzones example_sb)), d')"
    using u [of 12] by (intro alloc_zone_past_end [OF ram32_device example_sb_ok]) (simp_all add: example_sb_simps)
  then show ?thesis by (simp only: example_sb_simps)
qed

end
