(* ===== verification/Slub.thy ===== *)
theory Slub
  imports Buddy
begin

text \<open>
  The kernel heap (src/mm/allocator/slub.rs): caches of equally sized objects on pages of the buddy allocator, one set of
  caches per hart and a shared one behind a lock.  The memory is the store of the buddy allocator, which also holds the
  links of the free objects, and a map from the address of a page to the \<open>SlubPage\<close> header at its start.  The null
  pointer is 0.  \<open>None\<close> is a panic or a list walk that does not end.
\<close>

section \<open>Constants and layouts\<close>

definition SLUB_MAX_ORDER :: nat where
  "SLUB_MAX_ORDER = 12"

definition SLUB_MIN_ORDER :: nat where
  "SLUB_MIN_ORDER = 4"

definition CACHES_MAX :: nat where
  "CACHES_MAX = SLUB_MAX_ORDER - SLUB_MIN_ORDER"

definition SLUB_MIN_OBJECTS :: nat where
  "SLUB_MIN_OBJECTS = 4"

definition SLUB_MAX_PAGE_SIZE :: nat where
  "SLUB_MAX_PAGE_SIZE = 2 ^ 20"

record alloc_layout =
  lay_size :: nat
  lay_align :: nat

text \<open>\<open>usize::next_power_of_two\<close> of a positive number; the overflow is a panic.\<close>

definition next_power_of_two :: "nat \<Rightarrow> nat option" where
  "next_power_of_two n = (if n \<le> 2 ^ 63 then map_option (\<lambda>k. 2 ^ k) (ilog2_ceil n) else None)"

definition layout_order :: "alloc_layout \<Rightarrow> nat option" where
  "layout_order layout =
     (let adjusted_size = max (lay_size layout) (lay_align layout);
          sz = max adjusted_size (2 ^ SLUB_MIN_ORDER) in
      map_option (\<lambda>p. trailing_zeros (of_nat p :: u64)) (next_power_of_two sz))"

section \<open>Pages\<close>

record slub_page =
  sp_page_size :: nat
  sp_next :: nat
  sp_free_list :: nat
  sp_inuse :: nat
  sp_objects :: nat
  sp_page_start :: nat

definition slub_is_full :: "slub_page \<Rightarrow> bool" where
  "slub_is_full pg \<longleftrightarrow> sp_inuse pg = sp_objects pg"

definition slub_is_empty :: "slub_page \<Rightarrow> bool" where
  "slub_is_empty pg \<longleftrightarrow> sp_inuse pg = 0"

record slub_mem =
  sm_pages :: "nat \<Rightarrow> slub_page"
  sm_buddy :: buddy_state

definition upd_page :: "nat \<Rightarrow> (slub_page \<Rightarrow> slub_page) \<Rightarrow> slub_mem \<Rightarrow> slub_mem" where
  "upd_page p f sm = sm\<lparr>sm_pages := (sm_pages sm)(p := f (sm_pages sm p))\<rparr>"

text \<open>\<open>page.free_list.push(item)\<close>\<close>

definition page_push :: "nat \<Rightarrow> nat \<Rightarrow> slub_mem \<Rightarrow> slub_mem" where
  "page_push p item sm =
     (case il_push (fst (sm_buddy sm)) (sp_free_list (sm_pages sm p)) item of
        (m, h) \<Rightarrow> upd_page p (\<lambda>pg. pg\<lparr>sp_free_list := h\<rparr>) (sm\<lparr>sm_buddy := (m, snd (sm_buddy sm))\<rparr>))"

text \<open>The header has six words.\<close>

definition SLUB_HEADER_SIZE :: nat where
  "SLUB_HEADER_SIZE = 48"

definition slub_start_offset :: "nat \<Rightarrow> nat" where
  "slub_start_offset object_size = align SLUB_HEADER_SIZE object_size"

function double_until :: "nat \<Rightarrow> nat \<Rightarrow> nat" where
  "double_until min_page_size page_size =
     (if 0 < page_size \<and> page_size < min_page_size then double_until min_page_size (page_size * 2) else page_size)"
  by pat_completeness auto
termination
  by (relation "measure (\<lambda>(m, p). m - p)") auto

declare double_until.simps [simp del]

definition slub_page_size :: "nat \<Rightarrow> nat" where
  "slub_page_size object_size =
     (let min_page_size = slub_start_offset object_size + object_size;
          page_size = double_until min_page_size PAGE_SIZE;
          desired_objects = page_size div object_size in
      if desired_objects < SLUB_MIN_OBJECTS \<and> page_size < SLUB_MAX_PAGE_SIZE then
        (let new_page_size = page_size * 2 in
         if new_page_size div object_size \<ge> 2 then new_page_size else page_size)
      else page_size)"

text \<open>The loop that threads the objects of a new page on its free list and counts them.\<close>

function push_objects :: "nat \<Rightarrow> nat \<Rightarrow> nat \<Rightarrow> nat \<Rightarrow> nat \<Rightarrow> slub_mem \<Rightarrow> nat \<times> slub_mem" where
  "push_objects p object_size limit pos count sm =
     (if 0 < object_size \<and> pos + object_size \<le> limit
      then push_objects p object_size limit (pos + object_size) (count + 1) (page_push p pos sm)
      else (count, sm))"
  by pat_completeness auto
termination
  by (relation "measure (\<lambda>(p, os, limit, pos, count, sm). limit - pos)") auto

declare push_objects.simps [simp del]

definition slub_page_new :: "nat \<Rightarrow> slub_mem \<Rightarrow> (nat option \<times> slub_mem) option" where
  "slub_page_new object_size sm =
     (let start_offset = slub_start_offset object_size; page_size = slub_page_size object_size in
      case buddy_alloc_frame page_size (sm_buddy sm) of
        None \<Rightarrow> None
      | Some (None, st) \<Rightarrow> Some (None, sm\<lparr>sm_buddy := st\<rparr>)
      | Some (Some page, st) \<Rightarrow>
          (let sm1 = upd_page page (\<lambda>_. \<lparr>sp_page_size = page_size, sp_next = 0, sp_free_list = il_new, sp_inuse = 0,
                 sp_objects = 0, sp_page_start = page\<rparr>) (sm\<lparr>sm_buddy := st\<rparr>) in
           case push_objects page object_size (page + page_size) (page + start_offset) 0 sm1 of
             (count, sm2) \<Rightarrow> Some (Some page, upd_page page (\<lambda>pg. pg\<lparr>sp_objects := count\<rparr>) sm2)))"

definition alloc_obj :: "nat \<Rightarrow> slub_mem \<Rightarrow> nat option \<times> slub_mem" where
  "alloc_obj p sm =
     (case il_pop (fst (sm_buddy sm)) (sp_free_list (sm_pages sm p)) of
        None \<Rightarrow> (None, sm)
      | Some (obj, h) \<Rightarrow> (Some obj, upd_page p (\<lambda>pg. pg\<lparr>sp_free_list := h, sp_inuse := sp_inuse pg + 1\<rparr>) sm))"

definition dealloc_obj :: "nat \<Rightarrow> nat \<Rightarrow> slub_mem \<Rightarrow> slub_mem option" where
  "dealloc_obj p ptr sm =
     (let sm1 = page_push p ptr sm in
      map_option (\<lambda>n. upd_page p (\<lambda>pg. pg\<lparr>sp_inuse := n\<rparr>) sm1) (checked_sub (sp_inuse (sm_pages sm1 p)) 1))"

section \<open>Lists of pages\<close>

definition spl_push :: "nat \<Rightarrow> nat \<Rightarrow> slub_mem \<Rightarrow> nat \<times> slub_mem" where
  "spl_push head node sm = (node, upd_page node (\<lambda>pg. pg\<lparr>sp_next := head\<rparr>) sm)"

definition spl_pop :: "nat \<Rightarrow> slub_mem \<Rightarrow> (nat \<times> nat) option" where
  "spl_pop head sm = (if head = 0 then None else Some (head, sp_next (sm_pages sm head)))"

partial_function (option) spl_remove_loop :: "nat \<Rightarrow> nat \<Rightarrow> slub_mem \<Rightarrow> (slub_mem \<times> bool) option" where
  "spl_remove_loop item current sm =
     (if current = 0 then Some (sm, False)
      else let nxt = sp_next (sm_pages sm current) in
        if nxt = item then Some (upd_page current (\<lambda>pg. pg\<lparr>sp_next := sp_next (sm_pages sm nxt)\<rparr>) sm, True)
        else spl_remove_loop item nxt sm)"

definition spl_remove :: "nat \<Rightarrow> nat \<Rightarrow> slub_mem \<Rightarrow> (nat \<times> slub_mem \<times> bool) option" where
  "spl_remove head item sm =
     (if head = 0 then Some (head, sm, False)
      else if head = item then Some (sp_next (sm_pages sm head), sm, True)
      else map_option (\<lambda>(sm', found). (head, sm', found)) (spl_remove_loop item head sm))"

text \<open>The first page of a list whose range contains \<open>ptr\<close>.\<close>

partial_function (option) spl_find :: "nat \<Rightarrow> nat \<Rightarrow> slub_mem \<Rightarrow> nat option option" where
  "spl_find ptr current sm =
     (if current = 0 then Some None
      else let pg = sm_pages sm current in
        if sp_page_start pg \<le> ptr \<and> ptr < sp_page_start pg + sp_page_size pg then Some (Some current)
        else spl_find ptr (sp_next pg) sm)"

section \<open>Caches\<close>

record slub_cache =
  objects_size :: nat
  partial_slubs :: nat
  full_slubs :: nat

definition cache_new :: "nat \<Rightarrow> slub_cache" where
  "cache_new sz = \<lparr>objects_size = sz, partial_slubs = 0, full_slubs = 0\<rparr>"

definition cache_alloc :: "slub_cache \<Rightarrow> slub_mem \<Rightarrow> (nat option \<times> slub_cache \<times> slub_mem) option" where
  "cache_alloc c sm =
     (if partial_slubs c \<noteq> 0 then
        (let page = partial_slubs c in
         case alloc_obj page sm of
           (None, sm1) \<Rightarrow> Some (None, c, sm1)
         | (Some ptr, sm1) \<Rightarrow>
             if slub_is_full (sm_pages sm1 page) then
               (case spl_pop (partial_slubs c) sm1 of
                  None \<Rightarrow> Some (None, c, sm1)
                | Some (node, h) \<Rightarrow>
                    (case spl_push (full_slubs c) node sm1 of
                       (h', sm2) \<Rightarrow> Some (Some ptr, c\<lparr>partial_slubs := h, full_slubs := h'\<rparr>, sm2)))
             else Some (Some ptr, c, sm1))
      else
        (case slub_page_new (objects_size c) sm of
           None \<Rightarrow> None
         | Some (None, sm1) \<Rightarrow> Some (None, c, sm1)
         | Some (Some page, sm1) \<Rightarrow>
             (case alloc_obj page sm1 of
                (None, sm2) \<Rightarrow> Some (None, c, sm2)
              | (Some ptr, sm2) \<Rightarrow>
                  (case spl_push (partial_slubs c) page sm2 of
                     (h, sm3) \<Rightarrow> Some (Some ptr, c\<lparr>partial_slubs := h\<rparr>, sm3)))))"

text \<open>An object of a full page: the page becomes a partial one.\<close>

definition dealloc_full :: "slub_cache \<Rightarrow> nat \<Rightarrow> nat \<Rightarrow> slub_mem \<Rightarrow> (bool \<times> slub_cache \<times> slub_mem) option" where
  "dealloc_full c page ptr sm =
     Option.bind (dealloc_obj page ptr sm) (\<lambda>sm1.
     Option.bind (spl_remove (full_slubs c) page sm1) (\<lambda>(h, sm2, _).
       case spl_push (partial_slubs c) page sm2 of
         (h', sm3) \<Rightarrow> Some (True, c\<lparr>partial_slubs := h', full_slubs := h\<rparr>, sm3)))"

text \<open>An object of a partial page: an empty page goes back to the buddy allocator.\<close>

definition dealloc_partial :: "slub_cache \<Rightarrow> nat \<Rightarrow> nat \<Rightarrow> slub_mem \<Rightarrow> (bool \<times> slub_cache \<times> slub_mem) option" where
  "dealloc_partial c page ptr sm =
     Option.bind (dealloc_obj page ptr sm) (\<lambda>sm1.
       if slub_is_empty (sm_pages sm1 page) then
         Option.bind (spl_remove (partial_slubs c) page sm1) (\<lambda>(h, sm2, _).
         Option.bind (buddy_dealloc_frame page (sp_page_size (sm_pages sm2 page)) (sm_buddy sm2)) (\<lambda>st.
           Some (True, c\<lparr>partial_slubs := h\<rparr>, sm2\<lparr>sm_buddy := st\<rparr>)))
       else Some (True, c, sm1))"

definition cache_dealloc :: "slub_cache \<Rightarrow> nat \<Rightarrow> slub_mem \<Rightarrow> (bool \<times> slub_cache \<times> slub_mem) option" where
  "cache_dealloc c ptr sm =
     Option.bind (spl_find ptr (full_slubs c) sm) (\<lambda>found.
       case found of
         Some page \<Rightarrow> dealloc_full c page ptr sm
       | None \<Rightarrow>
           Option.bind (spl_find ptr (partial_slubs c) sm) (\<lambda>found'.
             case found' of
               Some page \<Rightarrow> dealloc_partial c page ptr sm
             | None \<Rightarrow> Some (False, c, sm)))"

section \<open>The caches of a hart and the shared ones\<close>

type_synonym slow_caches = "slub_cache list"

definition slow_new :: slow_caches where
  "slow_new = map (\<lambda>i. cache_new (2 ^ (i + SLUB_MIN_ORDER))) [0..<CACHES_MAX]"

definition slow_alloc :: "alloc_layout \<Rightarrow> slow_caches \<Rightarrow> slub_mem \<Rightarrow> (nat \<times> slow_caches \<times> slub_mem) option" where
  "slow_alloc layout cs sm =
     Option.bind (layout_order layout) (\<lambda>order.
       if order \<ge> SLUB_MAX_ORDER then
         map_option (\<lambda>(r, st). (case r of Some addr \<Rightarrow> addr | None \<Rightarrow> 0, cs, sm\<lparr>sm_buddy := st\<rparr>))
           (buddy_alloc_frame (2 ^ order) (sm_buddy sm))
       else
         (let index = order - SLUB_MIN_ORDER in
          map_option (\<lambda>(r, c, sm'). (case r of Some p \<Rightarrow> p | None \<Rightarrow> 0, cs[index := c], sm'))
            (cache_alloc (cs ! index) sm)))"

definition slow_dealloc :: "nat \<Rightarrow> alloc_layout \<Rightarrow> slow_caches \<Rightarrow> slub_mem \<Rightarrow> (bool \<times> slow_caches \<times> slub_mem) option" where
  "slow_dealloc ptr layout cs sm =
     Option.bind (layout_order layout) (\<lambda>order.
       if order \<ge> SLUB_MAX_ORDER then
         map_option (\<lambda>st. (True, cs, sm\<lparr>sm_buddy := st\<rparr>)) (buddy_dealloc_frame ptr (2 ^ order) (sm_buddy sm))
       else
         (let index = order - SLUB_MIN_ORDER in
          map_option (\<lambda>(found, c, sm'). (found, cs[index := c], sm')) (cache_dealloc (cs ! index) ptr sm)))"

record caches =
  cpu_caches :: "slow_caches list"
  shared_caches :: slow_caches

definition caches_new :: "nat \<Rightarrow> caches" where
  "caches_new max_cpu = \<lparr>cpu_caches = replicate max_cpu slow_new, shared_caches = slow_new\<rparr>"

definition caches_alloc :: "nat \<Rightarrow> alloc_layout \<Rightarrow> caches \<Rightarrow> slub_mem \<Rightarrow> (nat \<times> caches \<times> slub_mem) option" where
  "caches_alloc hart layout ca sm =
     Option.bind (slow_alloc layout (cpu_caches ca ! hart) sm) (\<lambda>(ptr, cs, sm1).
       let ca1 = ca\<lparr>cpu_caches := (cpu_caches ca)[hart := cs]\<rparr> in
       if ptr \<noteq> 0 then Some (ptr, ca1, sm1)
       else map_option (\<lambda>(ptr, cs, sm2). (ptr, ca1\<lparr>shared_caches := cs\<rparr>, sm2)) (slow_alloc layout (shared_caches ca1) sm1))"

definition caches_dealloc :: "nat \<Rightarrow> nat \<Rightarrow> alloc_layout \<Rightarrow> caches \<Rightarrow> slub_mem \<Rightarrow> (caches \<times> slub_mem) option" where
  "caches_dealloc hart ptr layout ca sm =
     Option.bind (slow_dealloc ptr layout (cpu_caches ca ! hart) sm) (\<lambda>(found, cs, sm1).
       let ca1 = ca\<lparr>cpu_caches := (cpu_caches ca)[hart := cs]\<rparr> in
       if found then Some (ca1, sm1)
       else map_option (\<lambda>(_, cs, sm2). (ca1\<lparr>shared_caches := cs\<rparr>, sm2)) (slow_dealloc ptr layout (shared_caches ca1) sm1))"

end
