(* ===== verification/Slub_Pages.thy ===== *)
theory Slub_Pages
  imports Slub Buddy_Props
begin

text \<open>
  Facts about one page of the heap: the geometry of its objects, the store that the buddy allocator writes, the free list
  of the objects and the lists that pages are on.
\<close>

section \<open>The object sizes\<close>

definition osizes :: "nat set" where
  "osizes = {16, 32, 64, 128, 256, 512, 1024, 2048}"

definition nobj :: "nat \<Rightarrow> nat" where
  "nobj s = (slub_page_size s - slub_start_offset s) div s"

definition page_order :: "nat \<Rightarrow> nat" where
  "page_order s = (if s = 2048 then 1 else 0)"

lemma start_offsets:
  "slub_start_offset 16 = 48" "slub_start_offset 32 = 64" "slub_start_offset 64 = 64" "slub_start_offset 128 = 128"
  "slub_start_offset 256 = 256" "slub_start_offset 512 = 512" "slub_start_offset 1024 = 1024" "slub_start_offset 2048 = 2048"
  by code_simp+

lemma double_until_done: "m \<le> p \<Longrightarrow> double_until m p = p"
  by (simp add: double_until.simps [of m p])

lemma page_sizes:
  "slub_page_size 16 = 4096" "slub_page_size 32 = 4096" "slub_page_size 64 = 4096" "slub_page_size 128 = 4096"
  "slub_page_size 256 = 4096" "slub_page_size 512 = 4096" "slub_page_size 1024 = 4096" "slub_page_size 2048 = 8192"
  by (simp_all add: slub_page_size_def Let_def start_offsets double_until_done PAGE_SIZE_def SLUB_MIN_OBJECTS_def SLUB_MAX_PAGE_SIZE_def)

lemma osizes_facts:
  assumes "s \<in> osizes"
  shows "16 \<le> s" "s \<le> 2048" "48 \<le> slub_start_offset s" "slub_start_offset s + nobj s * s = slub_page_size s" "2 \<le> nobj s"
    "slub_page_size s = order_size (page_order s)" "s dvd slub_start_offset s" "s dvd 4096"
    "size_to_order (slub_page_size s) = Some (page_order s)" "page_order s < 11"
proof -
  show "16 \<le> s" "s \<le> 2048" "48 \<le> slub_start_offset s" "slub_start_offset s + nobj s * s = slub_page_size s" "2 \<le> nobj s"
    "s dvd slub_start_offset s" "s dvd 4096" "page_order s < 11"
    using assms by (auto simp: osizes_def start_offsets page_sizes nobj_def page_order_def)
  show o: "slub_page_size s = order_size (page_order s)"
    using assms by (auto simp: osizes_def page_sizes page_order_def order_size_eq)
  show "size_to_order (slub_page_size s) = Some (page_order s)"
    unfolding o by (rule size_to_order_order_size) (simp add: page_order_def)
qed

definition objs :: "nat \<Rightarrow> nat \<Rightarrow> nat set" where
  "objs s p = (\<lambda>j. p + slub_start_offset s + j * s) ` {..<nobj s}"

definition obj_mem :: "nat \<Rightarrow> nat \<Rightarrow> nat set" where
  "obj_mem s x = {x..<x + s}"

lemma card_objs: "s \<in> osizes \<Longrightarrow> card (objs s p) = nobj s"
  using osizes_facts(1) [of s] unfolding objs_def by (subst card_image) (auto simp: inj_on_def)

lemma finite_objs [simp]: "finite (objs s p)"
  by (simp add: objs_def)

lemma objs_mem:
  assumes "s \<in> osizes" "x \<in> objs s p"
  shows "p + 48 \<le> x" "obj_mem s x \<subseteq> blk (page_order s) p" "x \<in> obj_mem s x"
proof -
  note o = osizes_facts [OF assms(1)]
  obtain j where j: "j < nobj s" "x = p + slub_start_offset s + j * s" using assms(2) by (auto simp: objs_def)
  then show "p + 48 \<le> x" using o(3) by simp
  have "(j + 1) * s \<le> nobj s * s" using j(1) by (intro mult_le_mono1) simp
  then have "x + s \<le> p + slub_page_size s" using o(4) j(2) by simp
  then show "obj_mem s x \<subseteq> blk (page_order s) p" using j(2) o(6) by (auto simp: obj_mem_def blk_def)
  show "x \<in> obj_mem s x" using o(1) by (simp add: obj_mem_def)
qed

lemma objs_disjoint:
  assumes "x \<in> objs s p" "y \<in> objs s p" "x \<noteq> y"
  shows "obj_mem s x \<inter> obj_mem s y = {}"
proof -
  obtain i j where ij: "x = p + slub_start_offset s + i * s" "y = p + slub_start_offset s + j * s"
    using assms(1,2) by (auto simp: objs_def)
  with assms(3) have "i < j \<or> j < i" by (metis linorder_neqE_nat)
  then have "Suc i * s \<le> j * s \<or> Suc j * s \<le> i * s" by (meson Suc_leI mult_le_mono1)
  then have "x + s \<le> y \<or> y + s \<le> x" using ij by auto
  then show ?thesis by (auto simp: obj_mem_def)
qed

lemma objs_dvd:
  assumes "s \<in> osizes" "x \<in> objs s p" "aligned (page_order s) p"
  shows "s dvd x"
proof -
  have "4096 dvd p" using assms(3) order_size_dvd [of 0 "page_order s"]
    by (auto simp: aligned_def order_size_eq intro: dvd_trans)
  then have "s dvd p" using osizes_facts(8) [OF assms(1)] dvd_trans by blast
  then show ?thesis using assms(2) osizes_facts(7) [OF assms(1)] by (auto simp: objs_def)
qed

section \<open>The words that the buddy allocator writes\<close>

lemma fl_push_frame: "x \<noteq> a \<Longrightarrow> fst (fl_push k a st) x = fst st x"
  by (cases st) (simp add: fl_push_def il_push_def)

lemma split_chunk_frame:
  "(\<And>idx. idx \<in> set idxs \<Longrightarrow> x \<noteq> chunk + order_size idx) \<Longrightarrow> fst (split_chunk idxs chunk st) x = fst st x"
proof (induction idxs arbitrary: st)
  case (Cons idx idxs)
  then have "fst (split_chunk idxs chunk (fl_push idx (chunk + order_size idx) st)) x =
    fst (fl_push idx (chunk + order_size idx) st) x" by simp
  also have "\<dots> = fst st x" using Cons.prems by (intro fl_push_frame) simp
  finally show ?case by simp
qed simp

lemma alloc_loop_frame:
  assumes "bud_rep st F" "x \<notin> free_mem F" "set is \<subseteq> {..<11}" "alloc_loop is order st = (r, st')"
  shows "fst st' x = fst st x"
  using assms(3,4)
proof (induction "is")
  case (Cons i "is")
  obtain m b where st: "st = (m, b)" by force
  have i: "i < 11" using Cons.prems by simp
  show ?case
  proof (cases "il_is_empty (free_list b ! i)")
    case True
    then show ?thesis using Cons st by simp
  next
    case False
    then have "F i \<noteq> {}" using bud_rep_empty [of m b F i] assms(1) st i by simp
    then obtain a h where a: "il_pop m (free_list b ! i) = Some (a, h)" "a \<in> F i"
      using bud_rep_pop [of m b F i] assms(1) st i by blast
    then have st': "st' = split_chunk (rev [order..<i]) a (m, b\<lparr>free_list := (free_list b)[i := h]\<rparr>)"
      using Cons.prems(2) False st by simp
    have "x \<noteq> a + order_size idx" if "idx \<in> set (rev [order..<i])" for idx
    proof -
      have "order_size idx < order_size i" using that by (simp add: order_size_eq)
      then have "a + order_size idx \<in> blk i a" by (simp add: blk_def)
      then show ?thesis using a(2) assms(2) in_free_mem by blast
    qed
    then show ?thesis unfolding st' st by (subst split_chunk_frame) auto
  qed
qed simp

lemma buddy_alloc_store:
  assumes "bud_rep st F" "x \<notin> free_mem F" "buddy_alloc order st = (r, st')"
  shows "fst st' x = fst st x"
proof -
  have "set [order..<11] \<subseteq> {..<11}" by auto
  moreover have "alloc_loop [order..<11] order st = (r, st')"
    using assms(3) bud_rep_length [OF assms(1)] by (simp add: buddy_alloc_def)
  ultimately show ?thesis by (rule alloc_loop_frame [OF assms(1,2)])
qed

lemma bud_rep_remove_frame:
  assumes "bud_rep (m, b) F" "k < 11" "a \<noteq> 0" "il_remove m (free_list b ! k) a = Some (m', h, found)" "x \<notin> F k"
  shows "m' x = m x"
proof -
  obtain ls where "list_array il_list m (free_list b) ls" "length ls = 11" "F k = set (ls ! k)"
    using assms(1,2) by (auto simp: bud_rep_def)
  then have "il_list m (free_list b ! k) (ls ! k)" "F k = set (ls ! k)" using assms(2) by (auto simp: list_array_def)
  from il_remove_list [OF this(1) assms(3)] this(2) show ?thesis using assms(4,5) by auto
qed

lemma dealloc_loop_store:
  assumes "bud_rep st F" "buddy_inv F" "held F k p" "x \<notin> free_mem F \<union> blk k p"
    "dealloc_loop [k..<11] p k st = Some (p', k', st')"
  shows "fst st' x = fst st x \<and> p' \<in> free_mem F \<union> blk k p"
  using assms
proof (induction "11 - k" arbitrary: k p st F)
  case (Suc n)
  obtain m b where st: "st = (m, b)" by force
  have h: "k < 11" "order_size 10 < p" "aligned k p" using Suc.prems(3) by (auto simp: held_def)
  have upt: "[k..<11] = k # [Suc k..<11]" using h(1) by (simp add: upt_conv_Cons)
  define q where "q = buddy_of k p"
  have ba: "buddy_address p k = q" using buddy_address_buddy_of [OF h(3)] by (simp add: q_def)
  have q0: "q \<noteq> 0" using h(1,2) order_size_mono [of k 10] by (auto simp: q_def buddy_of_def)
  then obtain m' h' where r: "il_remove m (free_list b ! k) q = Some (m', h', q \<in> F k)"
    "bud_rep (m', b\<lparr>free_list := (free_list b)[k := h']\<rparr>) (F(k := F k - {q}))"
    using bud_rep_remove [of m b F k q] Suc.prems(1) st h(1) by blast
  have xk: "x \<notin> F k" using Suc.prems(4) in_free_mem blk_self by blast
  have m': "m' x = m x" by (rule bud_rep_remove_frame [where F = F and k = k, OF Suc.prems(1) [unfolded st] h(1) q0 r(1) xk])
  have qm: "blk k q \<subseteq> free_mem F" if "q \<in> F k" using buddy_invD(4) [OF Suc.prems(2) that] .
  have mn: "min p q \<in> free_mem F \<union> blk k p" if "q \<in> F k" using qm [OF that] blk_self by (auto simp: min_def)
  consider (absent) "q \<notin> F k" | (merge) "q \<in> F k" "k < 10" | (top) "q \<in> F k" "k = 10"
    using h(1) by linarith
  then show ?case
  proof cases
    case absent
    then show ?thesis using Suc.prems(5) upt st r(1) ba m' by auto
  next
    case merge
    let ?st = "(m', b\<lparr>free_list := (free_list b)[k := h']\<rparr>)" and ?F = "F(k := F k - {q})"
    note hm = held_merge [OF Suc.prems(2,3), folded q_def, OF merge]
    have "dealloc_loop [Suc k..<11] (min p q) (Suc k) ?st = Some (p', k', st')"
      using Suc.prems(5) upt st r(1) ba merge by (simp add: min_def split: if_splits)
    then show ?thesis
      using Suc.hyps(1) [OF _ r(2) buddy_inv_remove [OF Suc.prems(2)] hm(1)] Suc.hyps(2) hm(2) Suc.prems(4) m' st by simp
  next
    case top
    then show ?thesis using Suc.prems(5) upt st r(1) ba m' mn by (auto simp: min_def split: if_splits)
  qed
qed (simp add: held_def)

lemma buddy_dealloc_store:
  assumes "bud_rep st F" "buddy_inv F" "held F k p" "x \<notin> free_mem F \<union> blk k p" "buddy_dealloc p k st = Some st'"
  shows "fst st' x = fst st x"
proof -
  obtain p' k' st1 where l: "dealloc_loop [k..<11] p k st = Some (p', k', st1)" "st' = fl_push k' p' st1"
    using assms(5) by (auto simp: buddy_dealloc_def split: option.splits if_splits)
  then show ?thesis using dealloc_loop_store [OF assms(1-4) l(1)] assms(4) fl_push_frame [of x p' k' st1] by auto
qed

section \<open>The objects of a page\<close>

abbreviation mem_of :: "slub_mem \<Rightarrow> store" where
  "mem_of sm \<equiv> fst (sm_buddy sm)"

lemma upd_page_simps [simp]:
  "sm_pages (upd_page p f sm) = (sm_pages sm)(p := f (sm_pages sm p))" "sm_buddy (upd_page p f sm) = sm_buddy sm"
  by (simp_all add: upd_page_def)

lemma page_push_simps [simp]:
  "sm_pages (page_push p x sm) = (sm_pages sm)(p := (sm_pages sm p)\<lparr>sp_free_list := x\<rparr>)"
  "sm_buddy (page_push p x sm) = ((mem_of sm)(x := sp_free_list (sm_pages sm p)), snd (sm_buddy sm))"
  by (simp_all add: page_push_def il_push_def)

text \<open>The loop of a new page pushes every object once and writes only to their first words.\<close>

lemma push_objects_ok:
  assumes "0 < s" "0 < base" "c \<le> n" "il_path (mem_of sm) (sp_free_list (sm_pages sm p)) xs" "distinct xs"
    "set xs = (\<lambda>j. base + j * s) ` {..<c}"
  shows "\<exists>xs' m'. push_objects p s (base + n * s) (base + c * s) c sm =
      (n, sm\<lparr>sm_pages := (sm_pages sm)(p := (sm_pages sm p)\<lparr>sp_free_list := if xs' = [] then 0 else hd xs'\<rparr>),
             sm_buddy := (m', snd (sm_buddy sm))\<rparr>) \<and>
    il_path m' (if xs' = [] then 0 else hd xs') xs' \<and> distinct xs' \<and> set xs' = (\<lambda>j. base + j * s) ` {..<n} \<and>
    (\<forall>a. a \<notin> set xs' \<longrightarrow> m' a = mem_of sm a)"
  using assms(3-6)
proof (induction "n - c" arbitrary: c xs sm)
  case 0
  then have c: "c = n" by simp
  have "sp_free_list (sm_pages sm p) = (if xs = [] then 0 else hd xs)" using 0(3) by (cases xs) auto
  then have pg: "(sm_pages sm p)\<lparr>sp_free_list := if xs = [] then 0 else hd xs\<rparr> = sm_pages sm p" 
    by (cases "sm_pages sm p") simp
  have "push_objects p s (base + n * s) (base + c * s) c sm = (n, sm)"
    unfolding c using assms(1) by (subst push_objects.simps) simp
  moreover have "il_path (mem_of sm) (if xs = [] then 0 else hd xs) xs" using 0(3) by (cases xs) auto
  ultimately show ?case using 0(4,5) c pg by (intro exI [of _ xs] exI [of _ "mem_of sm"]) (simp add: fun_upd_idem)
next
  case (Suc k)
  let ?x = "base + c * s" and ?sm = "page_push p (base + c * s) sm"
  have lt: "c < n" using Suc.hyps(2) by simp
  have "Suc c * s \<le> n * s" using lt by (intro mult_le_mono1) simp
  then have step: "push_objects p s (base + n * s) ?x c sm = push_objects p s (base + n * s) (base + Suc c * s) (Suc c) ?sm"
    using assms(1) by (subst push_objects.simps) (simp add: algebra_simps)
  have fresh: "?x \<notin> set xs" using Suc.prems(4) assms(1) by auto
  have p: "il_path (mem_of ?sm) (sp_free_list (sm_pages ?sm p)) (?x # xs)" using Suc.prems(2) fresh assms(2) by simp
  have st: "set (?x # xs) = (\<lambda>j. base + j * s) ` {..<Suc c}" using Suc.prems(4) by (simp add: lessThan_Suc)
  have di: "distinct (?x # xs)" using fresh Suc.prems(3) by simp
  have "k = n - Suc c" "Suc c \<le> n" using Suc.hyps(2) by simp_all
  note IH = Suc.hyps(1) [OF this p di st]
  from IH obtain xs' m' where r: "push_objects p s (base + n * s) (base + Suc c * s) (Suc c) ?sm =
      (n, ?sm\<lparr>sm_pages := (sm_pages ?sm)(p := (sm_pages ?sm p)\<lparr>sp_free_list := if xs' = [] then 0 else hd xs'\<rparr>),
             sm_buddy := (m', snd (sm_buddy ?sm))\<rparr>)"
    "il_path m' (if xs' = [] then 0 else hd xs') xs'" "distinct xs'" "set xs' = (\<lambda>j. base + j * s) ` {..<n}"
    "\<forall>a. a \<notin> set xs' \<longrightarrow> m' a = mem_of ?sm a"
    by blast
  have "?x \<in> set xs'" using r(4) lt by auto
  then have fr: "\<forall>a. a \<notin> set xs' \<longrightarrow> m' a = mem_of sm a" using r(5) by auto
  have e: "?sm\<lparr>sm_pages := (sm_pages ?sm)(p := (sm_pages ?sm p)\<lparr>sp_free_list := if xs' = [] then 0 else hd xs'\<rparr>),
        sm_buddy := (m', snd (sm_buddy ?sm))\<rparr> =
      sm\<lparr>sm_pages := (sm_pages sm)(p := (sm_pages sm p)\<lparr>sp_free_list := if xs' = [] then 0 else hd xs'\<rparr>),
         sm_buddy := (m', snd (sm_buddy sm))\<rparr>"
    by simp
  show ?case unfolding step r(1) e using r(2-4) fr by (intro exI [of _ xs'] exI [of _ m'] conjI refl)
qed

section \<open>Lists of pages\<close>

definition pnext :: "slub_mem \<Rightarrow> store" where
  "pnext sm q = sp_next (sm_pages sm q)"

definition set_next :: "store \<Rightarrow> slub_mem \<Rightarrow> slub_mem" where
  "set_next f sm = sm\<lparr>sm_pages := \<lambda>q. (sm_pages sm q)\<lparr>sp_next := f q\<rparr>\<rparr>"

lemma set_next_same: "(\<And>q. f q = pnext sm q) \<Longrightarrow> set_next f sm = sm"
  by (simp add: set_next_def pnext_def)

lemma set_next_upd: "upd_page q (\<lambda>pg. pg\<lparr>sp_next := v\<rparr>) sm = set_next ((pnext sm)(q := v)) sm"
  by (simp add: upd_page_def set_next_def pnext_def fun_eq_iff)

lemma spl_remove_loop_il:
  assumes "il_path (pnext sm) x (x # xs)" "distinct (x # xs)" "item \<noteq> x" "item \<in> set xs"
  shows "\<exists>f. spl_remove_loop item x sm = Some (set_next f sm, True) \<and> il_path f x (x # remove1 item xs) \<and>
    (\<forall>q. q \<notin> set (x # xs) \<longrightarrow> f q = pnext sm q)"
  using assms
proof (induction xs arbitrary: x)
  case (Cons y ys)
  show ?case
  proof (cases "item = y")
    case True
    have "spl_remove_loop item x sm = Some (set_next ((pnext sm)(x := pnext sm y)) sm, True)"
      using Cons.prems True by (simp add: spl_remove_loop.simps [of y x] set_next_upd pnext_def [symmetric])
    moreover have "il_path ((pnext sm)(x := pnext sm y)) x (x # remove1 item (y # ys))" using True Cons.prems by simp
    moreover have "\<forall>q. q \<notin> set (x # y # ys) \<longrightarrow> ((pnext sm)(x := pnext sm y)) q = pnext sm q" by simp
    ultimately show ?thesis by (intro exI conjI)
  next
    case False
    have "il_path (pnext sm) y (y # ys)" "distinct (y # ys)" "item \<in> set ys" using Cons.prems False by auto
    then obtain f where f: "spl_remove_loop item y sm = Some (set_next f sm, True)" "il_path f y (y # remove1 item ys)"
      "\<forall>q. q \<notin> set (y # ys) \<longrightarrow> f q = pnext sm q" using Cons.IH [of y] False by blast
    then have "f x = y" using Cons.prems by auto
    moreover have "spl_remove_loop item x sm = spl_remove_loop item y sm"
      using Cons.prems False by (simp add: spl_remove_loop.simps [of item x] Let_def pnext_def)
    ultimately show ?thesis using f False Cons.prems by (intro exI [of _ f]) auto
  qed
qed simp

text \<open>Removing a linked page ends, and only links of the list change.\<close>

lemma spl_remove_ok:
  assumes "il_path (pnext sm) head ps" "distinct ps" "item \<in> set ps"
  obtains h f where "spl_remove head item sm = Some (h, set_next f sm, True)" "il_path f h (remove1 item ps)"
    "\<And>q. q \<notin> set ps \<Longrightarrow> f q = pnext sm q"
proof (cases ps)
  case (Cons x xs)
  have head: "head = x" "x \<noteq> 0" using assms(1) Cons by auto
  show ?thesis
  proof (cases "item = x")
    case True
    have "spl_remove head item sm = Some (pnext sm x, set_next (pnext sm) sm, True)"
      using True head by (simp add: spl_remove_def set_next_same pnext_def)
    moreover have "il_path (pnext sm) (pnext sm x) (remove1 item ps)" using assms(1) True Cons by simp
    ultimately show ?thesis using that by blast
  next
    case False
    have "il_path (pnext sm) x (x # xs)" "distinct (x # xs)" "item \<in> set xs" using assms Cons head False by auto
    then obtain f where "spl_remove_loop item x sm = Some (set_next f sm, True)" "il_path f x (x # remove1 item xs)"
      "\<forall>q. q \<notin> set (x # xs) \<longrightarrow> f q = pnext sm q" using spl_remove_loop_il False by blast
    moreover from this have "spl_remove head item sm = Some (x, set_next f sm, True)"
      using head False by (simp add: spl_remove_def)
    ultimately show ?thesis using that False Cons by auto
  qed
qed (use assms(3) in simp)

lemma spl_find_ok:
  assumes "il_path (pnext sm) head ps"
  shows "spl_find ptr head sm =
    Some (List.find (\<lambda>p. sp_page_start (sm_pages sm p) \<le> ptr \<and>
      ptr < sp_page_start (sm_pages sm p) + sp_page_size (sm_pages sm p)) ps)"
  using assms
proof (induction ps arbitrary: head)
  case Nil
  then show ?case by (simp add: spl_find.simps)
next
  case (Cons p ps)
  then show ?case by (subst spl_find.simps) (simp add: Let_def pnext_def)
qed

end
