(* ===== verification/Slub_Correct.thy ===== *)
theory Slub_Correct
  imports Slub_Pages
begin

text \<open>
  The invariant of the kernel heap.  \<open>I\<close> is the set of caches, \<open>PL\<close> and \<open>FL\<close> give the partial and the full pages of each,
  \<open>fl\<close> the free objects of a page and \<open>F\<close> the free blocks of the buddy allocator.  Every operation on a cache is confined
  to the free memory and to the pages of that cache.
\<close>

section \<open>One page\<close>

definition page_ok :: "nat \<Rightarrow> free_blocks \<Rightarrow> nat list \<Rightarrow> slub_mem \<Rightarrow> nat \<Rightarrow> bool" where
  "page_ok s F xs sm p \<longleftrightarrow>
     (let pg = sm_pages sm p in
      sp_page_size pg = slub_page_size s \<and> sp_page_start pg = p \<and> sp_objects pg = nobj s \<and> held F (page_order s) p \<and>
      il_path (mem_of sm) (sp_free_list pg) xs \<and> distinct xs \<and> set xs \<subseteq> objs s p \<and> sp_inuse pg + length xs = nobj s)"

lemma page_okD:
  assumes "page_ok s F xs sm p"
  shows "sp_page_size (sm_pages sm p) = slub_page_size s" "sp_page_start (sm_pages sm p) = p"
    "sp_objects (sm_pages sm p) = nobj s" "held F (page_order s) p" "il_path (mem_of sm) (sp_free_list (sm_pages sm p)) xs"
    "distinct xs" "set xs \<subseteq> objs s p" "sp_inuse (sm_pages sm p) + length xs = nobj s"
  using assms by (simp_all add: page_ok_def Let_def)

text \<open>Headers that agree up to the link.\<close>

definition same_page :: "slub_page \<Rightarrow> slub_page \<Rightarrow> bool" where
  "same_page a b \<longleftrightarrow> a\<lparr>sp_next := 0\<rparr> = b\<lparr>sp_next := 0\<rparr>"

lemma same_page_simps [simp]: "same_page a a" "same_page (a\<lparr>sp_next := v\<rparr>) b = same_page a b"
  by (simp_all add: same_page_def)

lemma same_pageD:
  assumes "same_page a b"
  shows "sp_page_size a = sp_page_size b" "sp_page_start a = sp_page_start b" "sp_objects a = sp_objects b"
    "sp_free_list a = sp_free_list b" "sp_inuse a = sp_inuse b"
  using assms by (cases a; cases b; simp add: same_page_def)+

lemma held_mono: "held F k a \<Longrightarrow> free_mem F' \<inter> blk k a = {} \<Longrightarrow> held F' k a"
  by (auto simp: held_def)

lemma page_ok_frame:
  assumes "s \<in> osizes" "page_ok s F xs sm p" "same_page (sm_pages sm' p) (sm_pages sm p)"
    "free_mem F' \<inter> blk (page_order s) p = {}" "\<And>a. a \<in> blk (page_order s) p \<Longrightarrow> mem_of sm' a = mem_of sm a"
  shows "page_ok s F' xs sm' p"
proof -
  note d = page_okD [OF assms(2)] and e = same_pageD [OF assms(3)]
  have "mem_of sm' a = mem_of sm a" if "a \<in> set xs" for a
    using objs_mem(2,3) [OF assms(1), of a p] d(7) that assms(5) by blast
  then have "il_path (mem_of sm') (sp_free_list (sm_pages sm' p)) xs" using d(5) e(4) il_path_frame by metis
  then show ?thesis using d e held_mono [OF d(4) assms(4)] by (simp add: page_ok_def)
qed

lemma alloc_obj_ok:
  assumes "page_ok s F (x # xs) sm p"
  defines "sm' \<equiv> upd_page p (\<lambda>pg. pg\<lparr>sp_free_list := mem_of sm x, sp_inuse := sp_inuse pg + 1\<rparr>) sm"
  shows "alloc_obj p sm = (Some x, sm')" "page_ok s F xs sm' p" "x \<in> objs s p - set xs"
proof -
  note d = page_okD [OF assms(1)]
  have "sp_free_list (sm_pages sm p) = x" "x \<noteq> 0" using d(5) by auto
  then show "alloc_obj p sm = (Some x, sm')" by (simp add: alloc_obj_def il_pop_def il_is_empty_def sm'_def)
  show "page_ok s F xs sm' p" using d by (simp add: page_ok_def sm'_def)
  show "x \<in> objs s p - set xs" using d(6,7) by auto
qed

lemma dealloc_obj_ok:
  assumes "s \<in> osizes" "page_ok s F xs sm p" "x \<in> objs s p - set xs"
  defines "pg' \<equiv> (sm_pages sm p)\<lparr>sp_free_list := x, sp_inuse := sp_inuse (sm_pages sm p) - 1\<rparr>"
  defines "sm' \<equiv> sm\<lparr>sm_pages := (sm_pages sm)(p := pg'), sm_buddy := ((mem_of sm)(x := sp_free_list (sm_pages sm p)), snd (sm_buddy sm))\<rparr>"
  shows "dealloc_obj p x sm = Some sm'" "page_ok s F (x # xs) sm' p"
proof -
  note d = page_okD [OF assms(2)]
  have "length xs = card (set xs)" using d(6) by (simp add: distinct_card)
  also have "\<dots> \<le> card (objs s p - {x})" using d(7) assms(3) by (intro card_mono) auto
  also have "\<dots> = nobj s - 1" using assms(3) card_objs [OF assms(1), of p] by simp
  finally have pos: "1 \<le> sp_inuse (sm_pages sm p)" using d(8) osizes_facts(5) [OF assms(1)] by linarith
  then show "dealloc_obj p x sm = Some sm'"
    by (simp add: dealloc_obj_def checked_sub_def sm'_def pg'_def upd_page_def page_push_def il_push_def)
  have x0: "x \<noteq> 0" using objs_mem(1) [OF assms(1), of x p] assms(3) by auto
  have "held F (page_order s) p" using d(4) .
  moreover have "il_path ((mem_of sm)(x := sp_free_list (sm_pages sm p))) x (x # xs)" using d(5) x0 assms(3) by simp
  ultimately show "page_ok s F (x # xs) sm' p" using d assms(3) pos by (simp add: page_ok_def sm'_def pg'_def)
qed

text \<open>A write into a page that is held leaves the free lists of the buddy allocator alone.\<close>

lemma bud_rep_write:
  assumes "bud_rep st F" "x \<notin> free_mem F"
  shows "bud_rep ((fst st)(x := v), snd st) F"
proof (rule bud_rep_frame)
  show "bud_rep (fst st, snd st) F" using assms(1) by simp
  fix k a assume "a \<in> F k"
  then have "a \<noteq> x" using assms(2) in_free_mem blk_self by blast
  then show "((fst st)(x := v)) a = fst st a" by simp
qed

text \<open>A new page: all of its objects are free, and it comes out of the free memory.\<close>

lemma slub_page_new_ok:
  assumes "s \<in> osizes" "bud_rep (sm_buddy sm) F" "buddy_inv F"
  obtains (None) "slub_page_new s sm = Some (None, sm)" "\<And>k. page_order s \<le> k \<Longrightarrow> F k = {}"
  | (Some) p F' xs sm' where "slub_page_new s sm = Some (Some p, sm')" "bud_rep (sm_buddy sm') F'" "buddy_inv F'"
      "page_ok s F' xs sm' p" "set xs = objs s p" "free_mem F' \<union> blk (page_order s) p = free_mem F"
      "\<And>q. q \<noteq> p \<Longrightarrow> sm_pages sm' q = sm_pages sm q" "\<And>a. a \<notin> free_mem F \<Longrightarrow> mem_of sm' a = mem_of sm a"
proof -
  note o = osizes_facts [OF assms(1)]
  from assms(2,3) o(10) show thesis
  proof (cases rule: buddy_alloc_cases)
    case None
    have "sm\<lparr>sm_buddy := sm_buddy sm\<rparr> = sm" by simp
    then have "slub_page_new s sm = Some (None, sm)"
      using None(1) o(9) by (simp add: slub_page_new_def Let_def buddy_alloc_frame_def)
    then show ?thesis using that(1) None(2) by blast
  next
    case (Some p st F')
    define pg where "pg = \<lparr>sp_page_size = slub_page_size s, sp_next = 0, sp_free_list = 0, sp_inuse = 0, sp_objects = 0,
      sp_page_start = p\<rparr>"
    define sm1 where "sm1 = upd_page p (\<lambda>_. pg) (sm\<lparr>sm_buddy := st\<rparr>)"
    let ?base = "p + slub_start_offset s"
    have lim: "p + slub_page_size s = ?base + nobj s * s" using o(4) by simp
    have "0 < s" "0 < ?base" "0 \<le> nobj s" "il_path (mem_of sm1) (sp_free_list (sm_pages sm1 p)) []" "distinct ([] :: nat list)"
      "set [] = (\<lambda>j. ?base + j * s) ` {..<0}"
      using o(1,3) by (simp_all add: sm1_def pg_def)
    from push_objects_ok [OF this] obtain xs m' where
      push: "push_objects p s (?base + nobj s * s) (?base + 0 * s) 0 sm1 =
        (nobj s, sm1\<lparr>sm_pages := (sm_pages sm1)(p := (sm_pages sm1 p)\<lparr>sp_free_list := if xs = [] then 0 else hd xs\<rparr>),
             sm_buddy := (m', snd (sm_buddy sm1))\<rparr>)"
      "il_path m' (if xs = [] then 0 else hd xs) xs" "distinct xs" "set xs = (\<lambda>j. ?base + j * s) ` {..<nobj s}"
      "\<forall>a. a \<notin> set xs \<longrightarrow> m' a = mem_of sm1 a" by blast
    have xs: "set xs = objs s p" using push(4) by (simp add: objs_def)
    define sm' where "sm' = upd_page p (\<lambda>pg. pg\<lparr>sp_objects := nobj s\<rparr>)
      (sm1\<lparr>sm_pages := (sm_pages sm1)(p := (sm_pages sm1 p)\<lparr>sp_free_list := if xs = [] then 0 else hd xs\<rparr>),
             sm_buddy := (m', snd (sm_buddy sm1))\<rparr>)"
    have new: "slub_page_new s sm = Some (Some p, sm')"
      using Some(1) o(9) push(1)
      by (simp add: slub_page_new_def Let_def buddy_alloc_frame_def sm'_def sm1_def pg_def il_new_def lim)
    have objs_blk: "set xs \<subseteq> blk (page_order s) p" unfolding xs using objs_mem(2,3) [OF assms(1)] by blast
    have "m' a = fst st a" if "a \<in> F' k" for a k
    proof -
      have "a \<in> free_mem F'" using that in_free_mem blk_self by blast
      then have "a \<notin> set xs" using objs_blk Some(4) by (auto simp: held_def)
      then show ?thesis using push(5) by (simp add: sm1_def)
    qed
    then have rep: "bud_rep (sm_buddy sm') F'"
      using bud_rep_frame [of "fst st" "snd st" F' m'] Some(2) by (simp add: sm'_def sm1_def)
    have len: "length xs = nobj s" using xs card_objs [OF assms(1)] distinct_card [OF push(3)] by simp
    have ok: "page_ok s F' xs sm' p" using push(2,3) xs len Some(4) by (simp add: page_ok_def sm'_def sm1_def pg_def)
    have "mem_of sm' a = mem_of sm a" if "a \<notin> free_mem F" for a
    proof -
      have "a \<notin> set xs" using that objs_blk Some(5) by blast
      then show ?thesis using buddy_alloc_store [OF assms(2) that Some(1)] push(5) by (simp add: sm'_def sm1_def)
    qed
    moreover have "sm_pages sm' q = sm_pages sm q" if "q \<noteq> p" for q using that by (simp add: sm'_def sm1_def)
    ultimately show ?thesis using that(2) [OF new rep Some(3) ok xs Some(5)] by blast
  qed
qed

section \<open>One cache\<close>

abbreviation pblk :: "nat \<Rightarrow> nat \<Rightarrow> nat set" where
  "pblk s p \<equiv> blk (page_order s) p"

definition cache_ok :: "slub_cache \<Rightarrow> nat list \<Rightarrow> nat list \<Rightarrow> (nat \<Rightarrow> nat list) \<Rightarrow> free_blocks \<Rightarrow> slub_mem \<Rightarrow> bool" where
  "cache_ok c PL FL fl F sm \<longleftrightarrow>
     objects_size c \<in> osizes \<and> il_path (pnext sm) (partial_slubs c) PL \<and> il_path (pnext sm) (full_slubs c) FL \<and>
     distinct (PL @ FL) \<and> (\<forall>p\<in>set PL. fl p \<noteq> []) \<and> (\<forall>p\<in>set FL. fl p = []) \<and>
     (\<forall>p\<in>set PL \<union> set FL. page_ok (objects_size c) F (fl p) sm p) \<and>
     (\<forall>p\<in>set PL \<union> set FL. \<forall>q\<in>set PL \<union> set FL. p \<noteq> q \<longrightarrow> pblk (objects_size c) p \<inter> pblk (objects_size c) q = {})"

lemma cache_okD:
  assumes "cache_ok c PL FL fl F sm"
  shows "objects_size c \<in> osizes" "il_path (pnext sm) (partial_slubs c) PL" "il_path (pnext sm) (full_slubs c) FL"
    "distinct (PL @ FL)" "\<And>p. p \<in> set PL \<Longrightarrow> fl p \<noteq> []" "\<And>p. p \<in> set FL \<Longrightarrow> fl p = []"
    "\<And>p. p \<in> set PL \<union> set FL \<Longrightarrow> page_ok (objects_size c) F (fl p) sm p"
    "\<And>p q. p \<in> set PL \<union> set FL \<Longrightarrow> q \<in> set PL \<union> set FL \<Longrightarrow> p \<noteq> q \<Longrightarrow> pblk (objects_size c) p \<inter> pblk (objects_size c) q = {}"
  using assms by (simp_all add: cache_ok_def)

text \<open>The objects of a cache that are handed out, and the memory of its pages.\<close>

definition cheld :: "nat \<Rightarrow> nat list \<Rightarrow> nat list \<Rightarrow> (nat \<Rightarrow> nat list) \<Rightarrow> nat set" where
  "cheld s PL FL fl = (\<Union>p\<in>set PL \<union> set FL. objs s p - set (fl p))"

definition region :: "nat \<Rightarrow> nat list \<Rightarrow> nat list \<Rightarrow> nat set" where
  "region s PL FL = (\<Union>p\<in>set PL \<union> set FL. pblk s p)"

text \<open>A change of the memory inside a set of addresses.\<close>

definition confined :: "nat set \<Rightarrow> (nat \<Rightarrow> nat list) \<Rightarrow> slub_mem \<Rightarrow> (nat \<Rightarrow> nat list) \<Rightarrow> slub_mem \<Rightarrow> bool" where
  "confined R fl sm fl' sm' \<longleftrightarrow>
     (\<forall>q. q \<notin> R \<longrightarrow> sm_pages sm' q = sm_pages sm q \<and> fl' q = fl q \<and> mem_of sm' q = mem_of sm q)"

lemma cache_ok_frame:
  assumes "cache_ok c PL FL fl F sm" "confined R fl sm fl' sm'" "R \<inter> region (objects_size c) PL FL = {}"
    "free_mem F' \<inter> region (objects_size c) PL FL = {}"
  shows "cache_ok c PL FL fl' F' sm'" "cheld (objects_size c) PL FL fl' = cheld (objects_size c) PL FL fl"
proof -
  let ?s = "objects_size c" and ?P = "set PL \<union> set FL"
  note d = cache_okD [OF assms(1)]
  have out: "a \<notin> R" if "p \<in> ?P" "a \<in> pblk ?s p" for p a using assms(3) that by (auto simp: region_def)
  have eq: "sm_pages sm' p = sm_pages sm p" "fl' p = fl p" if "p \<in> ?P" for p
    using assms(2) out [OF that blk_self] by (simp_all add: confined_def)
  have "page_ok ?s F' (fl' p) sm' p" if p: "p \<in> ?P" for p
  proof (rule page_ok_frame [OF d(1)])
    show "page_ok ?s F (fl' p) sm p" using d(7) [OF p] eq [OF p] by simp
    show "same_page (sm_pages sm' p) (sm_pages sm p)" using eq [OF p] by simp
    show "free_mem F' \<inter> pblk ?s p = {}" using assms(4) p by (auto simp: region_def)
    show "mem_of sm' a = mem_of sm a" if "a \<in> pblk ?s p" for a using assms(2) out [OF p that] by (simp add: confined_def)
  qed
  moreover have "il_path (pnext sm') (partial_slubs c) PL" "il_path (pnext sm') (full_slubs c) FL"
    using il_path_frame [of PL "pnext sm'" "pnext sm"] il_path_frame [of FL "pnext sm'" "pnext sm"] d(2,3) eq(1)
    by (simp_all add: pnext_def)
  ultimately show "cache_ok c PL FL fl' F' sm'" using d eq by (simp add: cache_ok_def)
  show "cheld ?s PL FL fl' = cheld ?s PL FL fl" using eq by (simp add: cheld_def)
qed

text \<open>A step of one cache that changes one page \<open>p\<close> and the links of the others.\<close>

lemma cache_ok_step:
  assumes "cache_ok c PL FL fl F sm" "objects_size c' = objects_size c"
    "il_path (pnext sm') (partial_slubs c') PL'" "il_path (pnext sm') (full_slubs c') FL'" "distinct (PL' @ FL')"
    "set PL' - {p} \<subseteq> set PL" "set FL' - {p} \<subseteq> set FL"
    "p \<in> set PL' \<Longrightarrow> ys \<noteq> []" "p \<in> set FL' \<Longrightarrow> ys = []"
    "p \<in> set PL' \<union> set FL' \<Longrightarrow> page_ok (objects_size c) F' ys sm' p"
    "\<And>q. p \<in> set PL' \<union> set FL' \<Longrightarrow> q \<in> set PL \<union> set FL \<Longrightarrow> q \<noteq> p \<Longrightarrow> pblk (objects_size c) p \<inter> pblk (objects_size c) q = {}"
    "\<And>q. q \<in> set PL \<union> set FL \<Longrightarrow> q \<noteq> p \<Longrightarrow> same_page (sm_pages sm' q) (sm_pages sm q)"
    "\<And>q. q \<in> set PL \<union> set FL \<Longrightarrow> q \<noteq> p \<Longrightarrow> free_mem F' \<inter> pblk (objects_size c) q = {}"
    "\<And>q a. q \<in> set PL \<union> set FL \<Longrightarrow> q \<noteq> p \<Longrightarrow> a \<in> pblk (objects_size c) q \<Longrightarrow> mem_of sm' a = mem_of sm a"
  shows "cache_ok c' PL' FL' (fl(p := ys)) F' sm'"
proof -
  let ?s = "objects_size c" and ?P = "set PL' \<union> set FL'"
  note d = cache_okD [OF assms(1)]
  have old: "q \<in> set PL \<union> set FL" if "q \<in> ?P" "q \<noteq> p" for q using assms(6,7) that by auto
  have "page_ok ?s F' ((fl(p := ys)) q) sm' q" if q: "q \<in> ?P" for q
  proof (cases "q = p")
    case False
    then show ?thesis
      using page_ok_frame [OF d(1) d(7) [OF old [OF q False]] assms(12) [OF old [OF q False] False]
          assms(13) [OF old [OF q False] False] assms(14) [OF old [OF q False] False]] by simp
  qed (use assms(10) q in simp)
  moreover have "pblk ?s q \<inter> pblk ?s r = {}" if "q \<in> ?P" "r \<in> ?P" "q \<noteq> r" for q r
    using that old d(8) [of q r] assms(11) [of q] assms(11) [of r] by (cases "q = p"; cases "r = p") blast+
  moreover have "(fl(p := ys)) q \<noteq> []" if "q \<in> set PL'" for q using that assms(6,8) d(5) [of q] by auto
  moreover have "(fl(p := ys)) q = []" if "q \<in> set FL'" for q using that assms(7,9) d(6) [of q] by auto
  ultimately show ?thesis using d(1) assms(2-5) unfolding cache_ok_def by simp
qed

definition cache_step :: "nat \<Rightarrow> nat list \<Rightarrow> nat list \<Rightarrow> (nat \<Rightarrow> nat list) \<Rightarrow> free_blocks \<Rightarrow> slub_mem \<Rightarrow>
    nat list \<Rightarrow> nat list \<Rightarrow> (nat \<Rightarrow> nat list) \<Rightarrow> free_blocks \<Rightarrow> slub_mem \<Rightarrow> bool" where
  "cache_step s PL FL fl F sm PL' FL' fl' F' sm' \<longleftrightarrow>
     bud_rep (sm_buddy sm') F' \<and> buddy_inv F' \<and> confined (free_mem F \<union> region s PL FL) fl sm fl' sm' \<and>
     free_mem F' \<union> region s PL' FL' \<subseteq> free_mem F \<union> region s PL FL"

lemma page_sets:
  assumes "cache_ok c PL FL fl F sm" "p \<in> set PL \<union> set FL"
  shows "set (fl p) \<subseteq> objs (objects_size c) p" "distinct (fl p)" "pblk (objects_size c) p \<inter> free_mem F = {}"
    "objs (objects_size c) p \<subseteq> pblk (objects_size c) p" "p \<noteq> 0"
proof -
  note d = page_okD [OF cache_okD(7) [OF assms]]
  show "set (fl p) \<subseteq> objs (objects_size c) p" "distinct (fl p)" "pblk (objects_size c) p \<inter> free_mem F = {}" "p \<noteq> 0"
    using d(4,6,7) by (auto simp: held_def)
  show "objs (objects_size c) p \<subseteq> pblk (objects_size c) p" using objs_mem(2,3) [OF cache_okD(1) [OF assms(1)]] by blast
qed

lemma cheld_out:
  assumes "cache_ok c PL FL fl F sm" "p \<in> set PL \<union> set FL" "x \<in> objs (objects_size c) p" "q \<in> set PL \<union> set FL" "q \<noteq> p"
  shows "x \<notin> objs (objects_size c) q"
proof -
  have "pblk (objects_size c) p \<inter> pblk (objects_size c) q = {}" using cache_okD(8) [OF assms(1,2,4)] assms(5) by blast
  then show ?thesis using page_sets(4) [OF assms(1,2)] page_sets(4) [OF assms(1,4)] assms(3) by blast
qed

lemma cheld_pop:
  assumes "cache_ok c PL FL fl F sm" "p \<in> set PL \<union> set FL" "fl p = x # xs" "set PL' \<union> set FL' = set PL \<union> set FL"
  shows "cheld (objects_size c) PL' FL' (fl(p := xs)) = insert x (cheld (objects_size c) PL FL fl)"
    "x \<notin> cheld (objects_size c) PL FL fl"
proof -
  let ?s = "objects_size c"
  define P where "P = set PL \<union> set FL - {p}"
  have x: "x \<in> objs ?s p" "x \<notin> set xs" using page_sets(1,2) [OF assms(1,2)] assms(3) by auto
  have split: "set PL \<union> set FL = insert p P" using assms(2) by (auto simp: P_def)
  have "(\<Union>q\<in>P. objs ?s q - set ((fl(p := xs)) q)) = (\<Union>q\<in>P. objs ?s q - set (fl q))" by (intro SUP_cong) (auto simp: P_def)
  then show "cheld ?s PL' FL' (fl(p := xs)) = insert x (cheld ?s PL FL fl)"
    unfolding cheld_def assms(4) split UN_insert using x assms(3) by auto
  have "x \<notin> (\<Union>q\<in>P. objs ?s q - set (fl q))" using cheld_out [OF assms(1,2) x(1)] by (auto simp: P_def)
  then show "x \<notin> cheld ?s PL FL fl" unfolding cheld_def split UN_insert using assms(3) by simp
qed

lemma cheld_push:
  assumes "cache_ok c PL FL fl F sm" "p \<in> set PL \<union> set FL" "x \<in> objs (objects_size c) p" "x \<notin> set (fl p)"
    "set PL' \<union> set FL' = set PL \<union> set FL"
  shows "cheld (objects_size c) PL' FL' (fl(p := x # fl p)) = cheld (objects_size c) PL FL fl - {x}"
proof -
  let ?s = "objects_size c"
  define P where "P = set PL \<union> set FL - {p}"
  have split: "set PL \<union> set FL = insert p P" using assms(2) by (auto simp: P_def)
  have "(\<Union>q\<in>P. objs ?s q - set ((fl(p := x # fl p)) q)) = (\<Union>q\<in>P. objs ?s q - set (fl q))" by (intro SUP_cong) (auto simp: P_def)
  moreover have "x \<notin> (\<Union>q\<in>P. objs ?s q - set (fl q))" using cheld_out [OF assms(1-3)] by (auto simp: P_def)
  ultimately show ?thesis unfolding cheld_def assms(5) split UN_insert using assms(3) by auto
qed

lemma region_sub: "p \<in> set PL \<union> set FL \<Longrightarrow> pblk s p \<subseteq> region s PL FL"
  by (auto simp: region_def)

lemma region_self: "p \<in> set PL \<union> set FL \<Longrightarrow> p \<in> region s PL FL"
  using region_sub blk_self by blast

lemma cache_alloc_partial:
  assumes "cache_ok c (p # PL) FL fl F sm" "bud_rep (sm_buddy sm) F" "buddy_inv F" "fl p = x # xs"
  obtains c' sm' PL' FL' where "cache_alloc c sm = Some (Some x, c', sm')" "objects_size c' = objects_size c"
    "cache_ok c' PL' FL' (fl(p := xs)) F sm'" "cache_step (objects_size c) (p # PL) FL fl F sm PL' FL' (fl(p := xs)) F sm'"
    "set PL' \<union> set FL' = set (p # PL) \<union> set FL"
proof -
  let ?s = "objects_size c"
  note d = cache_okD [OF assms(1)]
  have p: "page_ok ?s F (x # xs) sm p" using d(7) [of p] assms(4) by simp
  have head: "partial_slubs c = p" "p \<noteq> 0" using d(2) by auto
  define sm1 where "sm1 = upd_page p (\<lambda>pg. pg\<lparr>sp_free_list := mem_of sm x, sp_inuse := sp_inuse pg + 1\<rparr>) sm"
  have a: "alloc_obj p sm = (Some x, sm1)" "page_ok ?s F xs sm1 p" using alloc_obj_ok [OF p] by (simp_all add: sm1_def)
  have pn: "pnext sm1 = pnext sm" by (auto simp: sm1_def pnext_def)
  have full: "slub_is_full (sm_pages sm1 p) \<longleftrightarrow> xs = []" using page_okD(3,8) [OF a(2)] by (auto simp: slub_is_full_def)
  have fr: "free_mem F \<inter> pblk ?s q = {}" if "q \<in> set (p # PL) \<union> set FL" for q using page_sets(3) [OF assms(1) that] by blast
  have reg: "p \<in> region ?s (p # PL) FL" by (rule region_self) simp
  show thesis
  proof (cases "xs = []")
    case False
    have "cache_alloc c sm = Some (Some x, c, sm1)" using a head full False by (simp add: cache_alloc_def Let_def)
    moreover have "cache_ok c (p # PL) FL (fl(p := xs)) F sm1"
      using False a(2) d(2-4) d(8) [of p] pn fr by (intro cache_ok_step [OF assms(1)]) (auto simp: sm1_def)
    moreover have "cache_step ?s (p # PL) FL fl F sm (p # PL) FL (fl(p := xs)) F sm1"
      using assms(2,3) reg by (auto simp: cache_step_def confined_def sm1_def)
    ultimately show ?thesis using that by blast
  next
    case True
    define c' where "c' = c\<lparr>partial_slubs := sp_next (sm_pages sm p), full_slubs := p\<rparr>"
    define sm2 where "sm2 = upd_page p (\<lambda>pg. pg\<lparr>sp_next := full_slubs c\<rparr>) sm1"
    have pn2: "pnext sm2 = (pnext sm)(p := full_slubs c)" by (auto simp: sm1_def sm2_def pnext_def)
    have "cache_alloc c sm = Some (Some x, c', sm2)"
      using a head full True by (simp add: cache_alloc_def Let_def spl_pop_def spl_push_def c'_def sm2_def sm1_def)
    moreover have "cache_ok c' PL (p # FL) (fl(p := xs)) F sm2"
    proof (rule cache_ok_step [OF assms(1)])
      show "il_path (pnext sm2) (partial_slubs c') PL" "il_path (pnext sm2) (full_slubs c') (p # FL)"
        using d(2-4) head unfolding pn2 by (auto simp: c'_def pnext_def il_path_upd)
      show "page_ok ?s F xs sm2 p" by (rule page_ok_frame [OF d(1) a(2)]) (use fr [of p] in \<open>auto simp: sm2_def\<close>)
    qed (use d(4) d(8) [of p] fr True in \<open>auto simp: c'_def sm2_def sm1_def\<close>)
    moreover have "cache_step ?s (p # PL) FL fl F sm PL (p # FL) (fl(p := xs)) F sm2"
      using assms(2,3) reg by (auto simp: cache_step_def confined_def sm2_def sm1_def region_def)
    moreover have "objects_size c' = ?s" by (simp add: c'_def)
    ultimately show ?thesis using that [of c' sm2 PL "p # FL"] by simp
  qed
qed

lemma cache_alloc_new:
  assumes "cache_ok c [] FL fl F sm" "bud_rep (sm_buddy sm) F" "buddy_inv F"
  obtains (None) "cache_alloc c sm = Some (None, c, sm)" "\<And>k. page_order (objects_size c) \<le> k \<Longrightarrow> F k = {}"
  | (Some) x c' sm' p xs F' where "cache_alloc c sm = Some (Some x, c', sm')" "objects_size c' = objects_size c"
    "cache_ok c' [p] FL (fl(p := xs)) F' sm'" "cache_step (objects_size c) [] FL fl F sm [p] FL (fl(p := xs)) F' sm'"
    "cheld (objects_size c) [p] FL (fl(p := xs)) = insert x (cheld (objects_size c) [] FL fl)"
    "x \<notin> cheld (objects_size c) [] FL fl" "pblk (objects_size c) p \<subseteq> free_mem F"
proof -
  let ?s = "objects_size c"
  note d = cache_okD [OF assms(1)]
  have head: "partial_slubs c = 0" using d(2) by auto
  from d(1) assms(2,3) show thesis
  proof (cases rule: slub_page_new_ok)
    case None
    then show ?thesis using that(1) head by (simp add: cache_alloc_def)
  next
    case (Some p F' ys sm1)
    have pf: "pblk ?s p \<subseteq> free_mem F" "free_mem F' \<subseteq> free_mem F" using Some(6) by auto
    have old: "free_mem F \<inter> pblk ?s q = {}" "q \<noteq> p" if "q \<in> set FL" for q
    proof -
      show fq: "free_mem F \<inter> pblk ?s q = {}" using page_sets(3) [OF assms(1), of q] that by auto
      have "p \<in> free_mem F" using pf(1) blk_self by blast
      then show "q \<noteq> p" using fq blk_self by blast
    qed
    have "ys \<noteq> []" using Some(5) card_objs [OF d(1), of p] osizes_facts(5) [OF d(1)] by auto
    then obtain x xs where ys: "ys = x # xs" by (cases ys) auto
    have "length ys = nobj ?s"
      using distinct_card [OF page_okD(6) [OF Some(4)]] Some(5) card_objs [OF d(1), of p] by simp
    then have xs: "xs \<noteq> []" using osizes_facts(5) [OF d(1)] ys by auto
    define sm2 where "sm2 = upd_page p (\<lambda>pg. pg\<lparr>sp_free_list := mem_of sm1 x, sp_inuse := sp_inuse pg + 1\<rparr>) sm1"
    have a: "alloc_obj p sm1 = (Some x, sm2)" "page_ok ?s F' xs sm2 p" "x \<in> objs ?s p - set xs"
      using alloc_obj_ok [of ?s F' x xs sm1 p] Some(4) ys by (simp_all add: sm2_def)
    define c' where "c' = c\<lparr>partial_slubs := p\<rparr>"
    define sm3 where "sm3 = upd_page p (\<lambda>pg. pg\<lparr>sp_next := 0\<rparr>) sm2"
    have al: "cache_alloc c sm = Some (Some x, c', sm3)"
      using head Some(1) a by (simp add: cache_alloc_def spl_push_def c'_def sm3_def)
    have pg: "sm_pages sm3 q = sm_pages sm q" if "q \<noteq> p" for q using Some(7) [OF that] that by (simp add: sm3_def sm2_def)
    have mem: "mem_of sm3 = mem_of sm1" "sm_buddy sm3 = sm_buddy sm1" by (simp_all add: sm3_def sm2_def)
    have p0: "p \<noteq> 0" using page_okD(4) [OF Some(4)] by (auto simp: held_def)
    have ok: "cache_ok c' [p] FL (fl(p := xs)) F' sm3"
    proof (rule cache_ok_step [OF assms(1)])
      show "il_path (pnext sm3) (partial_slubs c') [p]" using p0 by (simp add: c'_def pnext_def sm3_def)
      have "il_path (pnext sm3) (full_slubs c) FL = il_path (pnext sm) (full_slubs c) FL"
        using old(2) pg by (intro il_path_frame) (auto simp: pnext_def)
      then show "il_path (pnext sm3) (full_slubs c') FL" using d(3) by (simp add: c'_def)
      have "free_mem F' \<inter> pblk ?s p = {}" using page_okD(4) [OF a(2)] by (auto simp: held_def)
      then show "page_ok ?s F' xs sm3 p" by (intro page_ok_frame [OF d(1) a(2)]) (auto simp: sm3_def)
      show "pblk ?s p \<inter> pblk ?s q = {}" if "q \<in> set [] \<union> set FL" for q using old(1) [of q] pf(1) that by auto
      show "free_mem F' \<inter> pblk ?s q = {}" if "q \<in> set [] \<union> set FL" for q using old(1) [of q] pf(2) that by auto
      show "mem_of sm3 a = mem_of sm a" if "q \<in> set [] \<union> set FL" "a \<in> pblk ?s q" for q a
        unfolding mem(1) by (rule Some(8)) (use old(1) [of q] that in auto)
    qed (use d(4) old(2) xs pg in \<open>auto simp: c'_def\<close>)
    have pin: "p \<in> free_mem F" using pf(1) blk_self by blast
    have st: "cache_step ?s [] FL fl F sm [p] FL (fl(p := xs)) F' sm3"
      unfolding cache_step_def confined_def mem using Some(2,3,8) pf pg pin by (auto simp: region_def)
    have obj: "objs ?s p - set xs = {x}" using a(3) Some(5) ys page_okD(6) [OF Some(4)] by auto
    have "(\<Union>q\<in>set FL. objs ?s q - set ((fl(p := xs)) q)) = (\<Union>q\<in>set FL. objs ?s q - set (fl q))"
      using old(2) by (intro SUP_cong) auto
    then have ch: "cheld ?s [p] FL (fl(p := xs)) = insert x (cheld ?s [] FL fl)" using obj by (simp add: cheld_def)
    have "x \<in> free_mem F" using a(3) pf(1) objs_mem(2,3) [OF d(1)] by blast
    then have "x \<notin> cheld ?s [] FL fl" using page_sets(4) [OF assms(1)] old(1) by (fastforce simp: cheld_def)
    then show ?thesis using that(2) [OF al _ ok st ch _ pf(1)] by (simp add: c'_def)
  qed
qed

text \<open>The search by address finds the page of an object.\<close>

lemma find_unique:
  assumes "\<And>q. q \<in> set ps \<Longrightarrow> P q \<longleftrightarrow> q = p"
  shows "List.find P ps = (if p \<in> set ps then Some p else None)"
  using assms by (induction ps) auto

lemma cache_find:
  assumes "cache_ok c PL FL fl F sm" "p \<in> set PL \<union> set FL" "x \<in> objs (objects_size c) p"
  shows "spl_find x (full_slubs c) sm = Some (if p \<in> set FL then Some p else None)"
    "spl_find x (partial_slubs c) sm = Some (if p \<in> set PL then Some p else None)"
proof -
  let ?s = "objects_size c"
  note d = cache_okD [OF assms(1)]
  have "sp_page_start (sm_pages sm q) \<le> x \<and> x < sp_page_start (sm_pages sm q) + sp_page_size (sm_pages sm q) \<longleftrightarrow> q = p"
    if q: "q \<in> set PL \<union> set FL" for q
  proof -
    have "(sp_page_start (sm_pages sm q) \<le> x \<and> x < sp_page_start (sm_pages sm q) + sp_page_size (sm_pages sm q)) \<longleftrightarrow> x \<in> pblk ?s q"
      using page_okD(1,2) [OF d(7) [OF q]] osizes_facts(6) [OF d(1)] by (simp add: blk_def)
    moreover have "x \<in> pblk ?s p" using page_sets(4) [OF assms(1,2)] assms(3) by blast
    ultimately show ?thesis using d(8) [OF q assms(2)] by blast
  qed
  then show "spl_find x (full_slubs c) sm = Some (if p \<in> set FL then Some p else None)"
    "spl_find x (partial_slubs c) sm = Some (if p \<in> set PL then Some p else None)"
    using spl_find_ok [OF d(2), of x] spl_find_ok [OF d(3), of x] by (simp_all add: find_unique)
qed

text \<open>The pages stay as they are when an object of page \<open>p\<close> is written and the links change.\<close>

lemma dealloc_obj_frame:
  assumes "cache_ok c PL FL fl F sm" "p \<in> set PL \<union> set FL" "x \<in> objs (objects_size c) p" "x \<notin> set (fl p)"
    "bud_rep (sm_buddy sm) F"
  obtains sm1 where "dealloc_obj p x sm = Some sm1" "page_ok (objects_size c) F (x # fl p) sm1 p" "pnext sm1 = pnext sm"
    "\<And>q. q \<noteq> p \<Longrightarrow> sm_pages sm1 q = sm_pages sm q" "\<And>a. a \<noteq> x \<Longrightarrow> mem_of sm1 a = mem_of sm a" "bud_rep (sm_buddy sm1) F"
proof -
  let ?s = "objects_size c" and ?pg = "sm_pages sm p"
  define sm1 where "sm1 = sm\<lparr>sm_pages := (sm_pages sm)(p := ?pg\<lparr>sp_free_list := x, sp_inuse := sp_inuse ?pg - 1\<rparr>),
    sm_buddy := ((mem_of sm)(x := sp_free_list ?pg), snd (sm_buddy sm))\<rparr>"
  have "x \<in> objs ?s p - set (fl p)" using assms(3,4) by simp
  note ok = dealloc_obj_ok [OF cache_okD(1) [OF assms(1)] cache_okD(7) [OF assms(1,2)] this, folded sm1_def]
  have "x \<notin> free_mem F" using page_sets(3,4) [OF assms(1,2)] assms(3) by blast
  then have "bud_rep (sm_buddy sm1) F" using bud_rep_write [OF assms(5)] by (simp add: sm1_def)
  moreover have "pnext sm1 = pnext sm" by (auto simp: sm1_def pnext_def)
  ultimately show thesis using that [OF ok] by (simp add: sm1_def)
qed

lemma set_next_facts [simp]:
  "sm_buddy (set_next f sm) = sm_buddy sm" "same_page (sm_pages (set_next f sm) q) r = same_page (sm_pages sm q) r"
  "pnext (set_next f sm) = f" "sp_page_size (sm_pages (set_next f sm) q) = sp_page_size (sm_pages sm q)"
  by (auto simp: set_next_def pnext_def)

lemma dealloc_full_ok:
  assumes "cache_ok c PL FL fl F sm" "p \<in> set FL" "x \<in> objs (objects_size c) p" "bud_rep (sm_buddy sm) F" "buddy_inv F"
  obtains c' sm' where "dealloc_full c p x sm = Some (True, c', sm')" "objects_size c' = objects_size c"
    "cache_ok c' (p # PL) (remove1 p FL) (fl(p := [x])) F sm'"
    "cache_step (objects_size c) PL FL fl F sm (p # PL) (remove1 p FL) (fl(p := [x])) F sm'"
proof -
  let ?s = "objects_size c"
  note d = cache_okD [OF assms(1)]
  have p: "p \<in> set PL \<union> set FL" and fp: "fl p = []" using assms(2) d(6) by auto
  obtain sm1 where s1: "dealloc_obj p x sm = Some sm1" "page_ok ?s F [x] sm1 p" "pnext sm1 = pnext sm"
    "\<And>q. q \<noteq> p \<Longrightarrow> sm_pages sm1 q = sm_pages sm q" "\<And>a. a \<noteq> x \<Longrightarrow> mem_of sm1 a = mem_of sm a" "bud_rep (sm_buddy sm1) F"
    using dealloc_obj_frame [OF assms(1) p assms(3) _ assms(4)] fp by auto
  obtain h f where rm: "spl_remove (full_slubs c) p sm1 = Some (h, set_next f sm1, True)" "il_path f h (remove1 p FL)"
    "\<And>q. q \<notin> set FL \<Longrightarrow> f q = pnext sm1 q"
    using spl_remove_ok [of sm1 "full_slubs c" FL p] d(3,4) s1(3) assms(2) by auto
  define c' where "c' = c\<lparr>partial_slubs := p, full_slubs := h\<rparr>"
  define sm' where "sm' = upd_page p (\<lambda>pg. pg\<lparr>sp_next := partial_slubs c\<rparr>) (set_next f sm1)"
  have pn: "pnext sm' = f(p := partial_slubs c)"
    by (rule ext) (simp add: sm'_def pnext_def set_next_def)
  have r: "dealloc_full c p x sm = Some (True, c', sm')" using s1(1) rm(1) by (simp add: dealloc_full_def spl_push_def c'_def sm'_def)
  have same: "same_page (sm_pages sm' q) (sm_pages sm1 q)" for q by (simp add: sm'_def)
  have mem: "sm_buddy sm' = sm_buddy sm1" by (simp add: sm'_def)
  have xb: "x \<in> pblk ?s p" using page_sets(4) [OF assms(1) p] assms(3) by blast
  have dFL: "distinct FL" "p \<notin> set PL" using d(4) assms(2) by auto
  have ok: "cache_ok c' (p # PL) (remove1 p FL) (fl(p := [x])) F sm'"
  proof (rule cache_ok_step [OF assms(1)])
    have "il_path f (partial_slubs c) PL = il_path (pnext sm) (partial_slubs c) PL"
      using rm(3) d(4) s1(3) by (intro il_path_frame) auto
    then show "il_path (pnext sm') (partial_slubs c') (p # PL)"
      using d(2) page_sets(5) [OF assms(1) p] dFL(2) by (simp add: pn c'_def)
    show "il_path (pnext sm') (full_slubs c') (remove1 p FL)" using rm(2) dFL(1) by (simp add: pn c'_def)
    show "page_ok ?s F [x] sm' p"
      using page_sets(3) [OF assms(1) p] by (intro page_ok_frame [OF d(1) s1(2) same]) (auto simp: mem)
    show "same_page (sm_pages sm' q) (sm_pages sm q)" if "q \<noteq> p" for q using same [of q] s1(4) [OF that] by simp
    show "mem_of sm' a = mem_of sm a" if "q \<in> set PL \<union> set FL" "q \<noteq> p" "a \<in> pblk ?s q" for q a
      using d(8) [OF that(1) p that(2)] xb that(3) s1(5) [of a] by (auto simp: mem)
    show "free_mem F \<inter> pblk ?s q = {}" if "q \<in> set PL \<union> set FL" for q using page_sets(3) [OF assms(1) that] by blast
    show "pblk ?s p \<inter> pblk ?s q = {}" if "q \<in> set PL \<union> set FL" "q \<noteq> p" for q using d(8) [OF p that(1)] that(2) by blast
  qed (use dFL d(4) in \<open>auto simp: c'_def\<close>)
  have "region ?s (p # PL) (remove1 p FL) = region ?s PL FL" using dFL assms(2) by (auto simp: region_def)
  moreover have "sm_pages sm' q = sm_pages sm q" if "q \<notin> region ?s PL FL" for q
  proof -
    have q: "q \<notin> set FL" "q \<noteq> p" using that region_self [of q PL FL ?s] region_self [OF p] by auto
    then show ?thesis using rm(3) [of q] s1(4) [of q] by (simp add: sm'_def set_next_def pnext_def)
  qed
  moreover have "mem_of sm' q = mem_of sm q" if "q \<notin> region ?s PL FL" for q
    using that xb region_sub [OF p] s1(5) [of q] by (auto simp: mem)
  ultimately have st: "cache_step ?s PL FL fl F sm (p # PL) (remove1 p FL) (fl(p := [x])) F sm'"
    unfolding cache_step_def confined_def using s1(6) assms(5) mem region_self [OF p] by auto
  show thesis using that [OF r _ ok st] by (simp add: c'_def)
qed

lemma dealloc_partial_keep:
  assumes "cache_ok c PL FL fl F sm" "p \<in> set PL" "x \<in> objs (objects_size c) p" "x \<notin> set (fl p)" "bud_rep (sm_buddy sm) F"
    "buddy_inv F" "dealloc_obj p x sm = Some sm1" "\<not> slub_is_empty (sm_pages sm1 p)"
  shows "dealloc_partial c p x sm = Some (True, c, sm1)" "cache_ok c PL FL (fl(p := x # fl p)) F sm1"
    "cache_step (objects_size c) PL FL fl F sm PL FL (fl(p := x # fl p)) F sm1"
proof -
  let ?s = "objects_size c"
  note d = cache_okD [OF assms(1)]
  have p: "p \<in> set PL \<union> set FL" using assms(2) by simp
  have s1: "page_ok ?s F (x # fl p) sm1 p" "pnext sm1 = pnext sm" "\<And>q. q \<noteq> p \<Longrightarrow> sm_pages sm1 q = sm_pages sm q"
    "\<And>a. a \<noteq> x \<Longrightarrow> mem_of sm1 a = mem_of sm a" "bud_rep (sm_buddy sm1) F"
    using dealloc_obj_frame [OF assms(1) p assms(3,4,5)] assms(7) by (metis option.inject)+
  have xb: "x \<in> pblk ?s p" using page_sets(4) [OF assms(1) p] assms(3) by blast
  show "dealloc_partial c p x sm = Some (True, c, sm1)" using assms(7,8) by (simp add: dealloc_partial_def)
  show "cache_ok c PL FL (fl(p := x # fl p)) F sm1"
  proof (rule cache_ok_step [OF assms(1)])
    show "mem_of sm1 a = mem_of sm a" if "q \<in> set PL \<union> set FL" "q \<noteq> p" "a \<in> pblk ?s q" for q a
      using d(8) [OF that(1) p that(2)] xb that(3) s1(4) [of a] by auto
    show "free_mem F \<inter> pblk ?s q = {}" if "q \<in> set PL \<union> set FL" for q using page_sets(3) [OF assms(1) that] by blast
    show "pblk ?s p \<inter> pblk ?s q = {}" if "q \<in> set PL \<union> set FL" "q \<noteq> p" for q using d(8) [OF p that(1)] that(2) by blast
  qed (use d(2-4) s1(1-3) assms(2) in auto)
  have "mem_of sm1 q = mem_of sm q" "sm_pages sm1 q = sm_pages sm q" if "q \<notin> region ?s PL FL" for q
    using that xb region_sub [OF p] s1(3,4) [of q] region_self [OF p] by auto
  then show "cache_step ?s PL FL fl F sm PL FL (fl(p := x # fl p)) F sm1"
    unfolding cache_step_def confined_def using s1(5) assms(6) region_self [OF p] by auto
qed

lemma dealloc_partial_free:
  assumes "cache_ok c PL FL fl F sm" "p \<in> set PL" "x \<in> objs (objects_size c) p" "x \<notin> set (fl p)" "bud_rep (sm_buddy sm) F"
    "buddy_inv F" "dealloc_obj p x sm = Some sm1" "slub_is_empty (sm_pages sm1 p)"
  obtains c' sm' F' where "dealloc_partial c p x sm = Some (True, c', sm')" "objects_size c' = objects_size c"
    "cache_ok c' (remove1 p PL) FL (fl(p := x # fl p)) F' sm'"
    "cache_step (objects_size c) PL FL fl F sm (remove1 p PL) FL (fl(p := x # fl p)) F' sm'"
    "objs (objects_size c) p = set (x # fl p)"
proof -
  let ?s = "objects_size c"
  note d = cache_okD [OF assms(1)]
  have p: "p \<in> set PL \<union> set FL" using assms(2) by simp
  have s1: "page_ok ?s F (x # fl p) sm1 p" "pnext sm1 = pnext sm" "\<And>q. q \<noteq> p \<Longrightarrow> sm_pages sm1 q = sm_pages sm q"
    "\<And>a. a \<noteq> x \<Longrightarrow> mem_of sm1 a = mem_of sm a" "bud_rep (sm_buddy sm1) F"
    using dealloc_obj_frame [OF assms(1) p assms(3,4,5)] assms(7) by (metis option.inject)+
  note pg = page_okD [OF s1(1)]
  have "length (x # fl p) = card (objs ?s p)" using pg(8) assms(8) card_objs [OF d(1)] by (simp add: slub_is_empty_def)
  then have all: "objs ?s p = set (x # fl p)"
    using card_subset_eq [OF finite_objs pg(7)] distinct_card [OF pg(6)] by metis
  obtain h f where rm: "spl_remove (partial_slubs c) p sm1 = Some (h, set_next f sm1, True)" "il_path f h (remove1 p PL)"
    "\<And>q. q \<notin> set PL \<Longrightarrow> f q = pnext sm1 q"
    using spl_remove_ok [of sm1 "partial_slubs c" PL p] d(2,4) s1(2) assms(2) by auto
  obtain st F' q lost where bd: "buddy_dealloc p (page_order ?s) (sm_buddy sm1) = Some st" "bud_rep st F'" "buddy_inv F'"
    "free_mem F' = (free_mem F \<union> pblk ?s p) - lost"
    using buddy_dealloc_cases [OF s1(5) assms(6) pg(4)] by metis
  have fst: "fst st a = mem_of sm1 a" if "a \<notin> free_mem F \<union> pblk ?s p" for a
    using buddy_dealloc_store [OF s1(5) assms(6) pg(4) that bd(1)] .
  define c' where "c' = c\<lparr>partial_slubs := h\<rparr>"
  define sm' where "sm' = (set_next f sm1)\<lparr>sm_buddy := st\<rparr>"
  have sz: "buddy_dealloc_frame p (sp_page_size (sm_pages sm1 p)) (sm_buddy sm1) = Some st"
    using bd(1) osizes_facts(9) [OF d(1)] by (simp add: buddy_dealloc_frame_def pg(1))
  have r: "dealloc_partial c p x sm = Some (True, c', sm')"
    using assms(7,8) rm(1) sz by (simp add: dealloc_partial_def c'_def sm'_def)
  have pn: "pnext sm' = f" by (rule ext) (simp add: sm'_def pnext_def set_next_def)
  have xb: "x \<in> pblk ?s p" using page_sets(4) [OF assms(1) p] assms(3) by blast
  have mem: "mem_of sm' a = mem_of sm a" if "a \<notin> free_mem F \<union> pblk ?s p" for a
    using fst [OF that] s1(4) [of a] xb that by (auto simp: sm'_def)
  have dPL: "distinct PL" "p \<notin> set FL" using d(4) assms(2) by auto
  have ok: "cache_ok c' (remove1 p PL) FL (fl(p := x # fl p)) F' sm'"
  proof (rule cache_ok_step [OF assms(1)])
    show "il_path (pnext sm') (partial_slubs c') (remove1 p PL)" using rm(2) by (simp add: pn c'_def)
    have "il_path f (full_slubs c) FL = il_path (pnext sm) (full_slubs c) FL"
      using rm(3) d(4) s1(2) by (intro il_path_frame) auto
    then show "il_path (pnext sm') (full_slubs c') FL" using d(3) by (simp add: pn c'_def)
    show "same_page (sm_pages sm' q) (sm_pages sm q)" if "q \<noteq> p" for q using s1(3) [OF that] by (simp add: sm'_def)
    fix q assume q: "q \<in> set PL \<union> set FL" "q \<noteq> p"
    have away: "(free_mem F \<union> pblk ?s p) \<inter> pblk ?s q = {}" using d(8) [OF q(1) p q(2)] page_sets(3) [OF assms(1) q(1)] by blast
    then show "free_mem F' \<inter> pblk ?s q = {}" using bd(4) by blast
    show "mem_of sm' a = mem_of sm a" if "a \<in> pblk ?s q" for a using mem [of a] away that by blast
  qed (use dPL d(4) in \<open>auto simp: c'_def\<close>)
  have "sm_pages sm' q = sm_pages sm q" if "q \<notin> region ?s PL FL" for q
  proof -
    have q: "q \<notin> set PL" "q \<noteq> p" using that region_self [of q PL FL ?s] region_self [OF p] by auto
    then show ?thesis using rm(3) [of q] s1(3) [of q] by (simp add: sm'_def set_next_def pnext_def)
  qed
  moreover have sub: "region ?s (remove1 p PL) FL \<subseteq> region ?s PL FL" "pblk ?s p \<subseteq> region ?s PL FL" "p \<in> region ?s PL FL"
    using dPL(1) region_sub [OF p] region_self [OF p] by (auto simp: region_def)
  moreover have "mem_of sm' q = mem_of sm q" if "q \<notin> free_mem F \<union> region ?s PL FL" for q using mem [of q] sub(2) that by blast
  moreover have "free_mem F' \<subseteq> free_mem F \<union> region ?s PL FL" using bd(4) sub(2) by blast
  ultimately have st: "cache_step ?s PL FL fl F sm (remove1 p PL) FL (fl(p := x # fl p)) F' sm'"
    unfolding cache_step_def confined_def using bd(2,3) by (auto simp: sm'_def)
  show thesis using that [OF r _ ok st all] by (simp add: c'_def)
qed

text \<open>An operation of a cache as a whole.\<close>

theorem cache_alloc_ok:
  assumes "cache_ok c PL FL fl F sm" "bud_rep (sm_buddy sm) F" "buddy_inv F"
  obtains (None) "cache_alloc c sm = Some (None, c, sm)" "\<And>k. page_order (objects_size c) \<le> k \<Longrightarrow> F k = {}" "PL = []"
  | (Some) x c' sm' PL' FL' fl' F' where "cache_alloc c sm = Some (Some x, c', sm')" "objects_size c' = objects_size c"
    "cache_ok c' PL' FL' fl' F' sm'" "cache_step (objects_size c) PL FL fl F sm PL' FL' fl' F' sm'"
    "cheld (objects_size c) PL' FL' fl' = insert x (cheld (objects_size c) PL FL fl)" "x \<notin> cheld (objects_size c) PL FL fl"
proof (cases PL)
  case Nil
  show ?thesis
    by (rule cache_alloc_new [of c FL fl F sm]) (use assms Nil that in blast)+
next
  case (Cons p ps)
  then obtain x xs where fp: "fl p = x # xs" using cache_okD(5) [OF assms(1), of p] by (cases "fl p") auto
  from assms Cons obtain c' sm' PL' FL' where r: "cache_alloc c sm = Some (Some x, c', sm')" "objects_size c' = objects_size c"
    "cache_ok c' PL' FL' (fl(p := xs)) F sm'" "cache_step (objects_size c) PL FL fl F sm PL' FL' (fl(p := xs)) F sm'"
    "set PL' \<union> set FL' = set PL \<union> set FL" using cache_alloc_partial [of c p ps FL fl F sm x xs] fp by metis
  have p: "p \<in> set PL \<union> set FL" using Cons by simp
  show ?thesis using that(2) [OF r(1-4) cheld_pop [OF assms(1) p fp r(5)]] .
qed

theorem cache_dealloc_ok:
  assumes "cache_ok c PL FL fl F sm" "bud_rep (sm_buddy sm) F" "buddy_inv F" "x \<in> cheld (objects_size c) PL FL fl"
  obtains c' sm' PL' FL' fl' F' where "cache_dealloc c x sm = Some (True, c', sm')" "objects_size c' = objects_size c"
    "cache_ok c' PL' FL' fl' F' sm'" "cache_step (objects_size c) PL FL fl F sm PL' FL' fl' F' sm'"
    "cheld (objects_size c) PL' FL' fl' = cheld (objects_size c) PL FL fl - {x}"
proof -
  let ?s = "objects_size c"
  from assms(4) obtain p where p: "p \<in> set PL \<union> set FL" "x \<in> objs ?s p" "x \<notin> set (fl p)" by (auto simp: cheld_def)
  note find = cache_find [OF assms(1) p(1,2)]
  have dist: "distinct (PL @ FL)" using cache_okD(4) [OF assms(1)] .
  show thesis
  proof (cases "p \<in> set FL")
    case True
    then have "fl p = []" "set (p # PL) \<union> set (remove1 p FL) = set PL \<union> set FL" using cache_okD(6) [OF assms(1)] dist by auto
    then have "cheld ?s (p # PL) (remove1 p FL) (fl(p := [x])) = cheld ?s PL FL fl - {x}"
      using cheld_push [OF assms(1) p, of "p # PL" "remove1 p FL"] by simp
    moreover have "cache_dealloc c x sm = dealloc_full c p x sm" using find True by (simp add: cache_dealloc_def)
    ultimately show ?thesis using dealloc_full_ok [OF assms(1) True p(2) assms(2,3)] that by metis
  next
    case False
    then have PL: "p \<in> set PL" using p(1) by simp
    have eq: "cache_dealloc c x sm = dealloc_partial c p x sm" using find False PL by (simp add: cache_dealloc_def)
    note push = cheld_push [OF assms(1) p, of PL FL, OF refl]
    obtain sm1 where sm1: "dealloc_obj p x sm = Some sm1" by (rule dealloc_obj_frame [OF assms(1) p assms(2)])
    note prems = assms(1) PL p(2,3) assms(2,3) sm1
    show ?thesis
    proof (cases "slub_is_empty (sm_pages sm1 p)")
      case True
      obtain c' sm' F' where k: "dealloc_partial c p x sm = Some (True, c', sm')" "objects_size c' = ?s"
        "cache_ok c' (remove1 p PL) FL (fl(p := x # fl p)) F' sm'"
        "cache_step ?s PL FL fl F sm (remove1 p PL) FL (fl(p := x # fl p)) F' sm'" "objs ?s p = set (x # fl p)"
        by (rule dealloc_partial_free [OF prems True])
      have "set PL = insert p (set (remove1 p PL))" using PL dist by auto
      then have "cheld ?s (remove1 p PL) FL (fl(p := x # fl p)) = cheld ?s PL FL (fl(p := x # fl p))"
        using k(5) by (simp add: cheld_def)
      with push show ?thesis using that [OF k(1) [folded eq] k(2-4)] by simp
    next
      case False
      note k = dealloc_partial_keep [OF prems False]
      show ?thesis using that [OF k(1) [folded eq] refl k(2,3) push] .
    qed
  qed
qed

end
