(* ===== verification/Slub_Heap.thy ===== *)
theory Slub_Heap
  imports Slub_Correct Lock_Safety
begin

text \<open>
  The heap as a whole: the caches of every hart and the shared ones over one buddy allocator, with the blocks that clients
  hold.  An allocation is owned by the cache that handed it out or, above half a page, by the buddy allocator.
\<close>

section \<open>A family of caches\<close>

definition slub_inv :: "'i set \<Rightarrow> ('i \<Rightarrow> slub_cache) \<Rightarrow> ('i \<Rightarrow> nat list) \<Rightarrow> ('i \<Rightarrow> nat list) \<Rightarrow> (nat \<Rightarrow> nat list) \<Rightarrow>
    free_blocks \<Rightarrow> slub_mem \<Rightarrow> bool" where
  "slub_inv I C PL FL fl F sm \<longleftrightarrow>
     bud_rep (sm_buddy sm) F \<and> buddy_inv F \<and> (\<forall>i\<in>I. cache_ok (C i) (PL i) (FL i) fl F sm) \<and>
     (\<forall>i\<in>I. \<forall>j\<in>I. i \<noteq> j \<longrightarrow>
        region (objects_size (C i)) (PL i) (FL i) \<inter> region (objects_size (C j)) (PL j) (FL j) = {})"

lemma slub_invD:
  assumes "slub_inv I C PL FL fl F sm"
  shows "bud_rep (sm_buddy sm) F" "buddy_inv F" "\<And>i. i \<in> I \<Longrightarrow> cache_ok (C i) (PL i) (FL i) fl F sm"
    "\<And>i j. i \<in> I \<Longrightarrow> j \<in> I \<Longrightarrow> i \<noteq> j \<Longrightarrow>
       region (objects_size (C i)) (PL i) (FL i) \<inter> region (objects_size (C j)) (PL j) (FL j) = {}"
  using assms by (auto simp: slub_inv_def)

lemma region_free: "cache_ok c PL FL fl F sm \<Longrightarrow> region (objects_size c) PL FL \<inter> free_mem F = {}"
  using page_sets(3) by (fastforce simp: region_def)

lemma cheld_region:
  assumes "cache_ok c PL FL fl F sm" "x \<in> cheld (objects_size c) PL FL fl"
  shows "obj_mem (objects_size c) x \<subseteq> region (objects_size c) PL FL" "x \<in> obj_mem (objects_size c) x" "objects_size c dvd x"
proof -
  let ?s = "objects_size c"
  obtain p where p: "p \<in> set PL \<union> set FL" "x \<in> objs ?s p" using assms(2) by (auto simp: cheld_def)
  note o = objs_mem [OF cache_okD(1) [OF assms(1)] p(2)]
  show "obj_mem ?s x \<subseteq> region ?s PL FL" using o(2) region_sub [OF p(1)] by blast
  show "x \<in> obj_mem ?s x" by (rule o(3))
  have "aligned (page_order ?s) p" using page_okD(4) [OF cache_okD(7) [OF assms(1) p(1)]] by (simp add: held_def)
  then show "?s dvd x" by (rule objs_dvd [OF cache_okD(1) [OF assms(1)] p(2)])
qed

lemma cheld_disjoint:
  assumes "cache_ok c PL FL fl F sm" "x \<in> cheld (objects_size c) PL FL fl" "y \<in> cheld (objects_size c) PL FL fl" "x \<noteq> y"
  shows "obj_mem (objects_size c) x \<inter> obj_mem (objects_size c) y = {}"
proof -
  let ?s = "objects_size c"
  obtain p q where p: "p \<in> set PL \<union> set FL" "x \<in> objs ?s p" and q: "q \<in> set PL \<union> set FL" "y \<in> objs ?s q"
    using assms(2,3) by (auto simp: cheld_def)
  note s = cache_okD(1) [OF assms(1)]
  show ?thesis
  proof (cases "p = q")
    case True
    then show ?thesis using objs_disjoint [of x ?s p y] p(2) q(2) assms(4) by simp
  next
    case False
    then show ?thesis using cache_okD(8) [OF assms(1) p(1) q(1)] objs_mem(2) [OF s p(2)] objs_mem(2) [OF s q(2)] by blast
  qed
qed

text \<open>A step of one cache keeps all of them.\<close>

lemma slub_inv_step:
  assumes "slub_inv I C PL FL fl F sm" "i \<in> I" "objects_size c' = objects_size (C i)" "cache_ok c' PL' FL' fl' F' sm'"
    "cache_step (objects_size (C i)) (PL i) (FL i) fl F sm PL' FL' fl' F' sm'"
  shows "slub_inv I (C(i := c')) (PL(i := PL')) (FL(i := FL')) fl' F' sm'"
    "\<And>j. j \<in> I \<Longrightarrow> j \<noteq> i \<Longrightarrow> cheld (objects_size (C j)) (PL j) (FL j) fl' = cheld (objects_size (C j)) (PL j) (FL j) fl"
proof -
  note d = slub_invD [OF assms(1)]
  let ?s = "objects_size (C i)"
  have st: "bud_rep (sm_buddy sm') F'" "buddy_inv F'" "confined (free_mem F \<union> region ?s (PL i) (FL i)) fl sm fl' sm'"
    "free_mem F' \<union> region ?s PL' FL' \<subseteq> free_mem F \<union> region ?s (PL i) (FL i)"
    using assms(5) by (auto simp: cache_step_def)
  have away: "(free_mem F \<union> region ?s (PL i) (FL i)) \<inter> region (objects_size (C j)) (PL j) (FL j) = {}"
    if "j \<in> I" "j \<noteq> i" for j
    using region_free [OF d(3) [OF that(1)]] d(4) [OF assms(2) that(1)] that(2) by blast
  have other: "cache_ok (C j) (PL j) (FL j) fl' F' sm'"
    "cheld (objects_size (C j)) (PL j) (FL j) fl' = cheld (objects_size (C j)) (PL j) (FL j) fl" if "j \<in> I" "j \<noteq> i" for j
  proof -
    have "free_mem F' \<inter> region (objects_size (C j)) (PL j) (FL j) = {}" using away [OF that] st(4) by blast
    then show "cache_ok (C j) (PL j) (FL j) fl' F' sm'"
      "cheld (objects_size (C j)) (PL j) (FL j) fl' = cheld (objects_size (C j)) (PL j) (FL j) fl"
      using cache_ok_frame [OF d(3) [OF that(1)] st(3) away [OF that]] by blast+
  qed
  have "region ?s PL' FL' \<inter> region (objects_size (C j)) (PL j) (FL j) = {}" if "j \<in> I" "j \<noteq> i" for j
    using away [OF that] st(4) by blast
  then have "\<forall>j\<in>I. \<forall>k\<in>I. j \<noteq> k \<longrightarrow> region (objects_size ((C(i := c')) j)) ((PL(i := PL')) j) ((FL(i := FL')) j) \<inter>
      region (objects_size ((C(i := c')) k)) ((PL(i := PL')) k) ((FL(i := FL')) k) = {}"
    using d(4) assms(3) by (simp add: Int_commute)
  then show "slub_inv I (C(i := c')) (PL(i := PL')) (FL(i := FL')) fl' F' sm'"
    using st(1,2) other(1) assms(4) by (simp add: slub_inv_def)
  show "\<And>j. j \<in> I \<Longrightarrow> j \<noteq> i \<Longrightarrow> cheld (objects_size (C j)) (PL j) (FL j) fl' = cheld (objects_size (C j)) (PL j) (FL j) fl"
    by (rule other(2))
qed

text \<open>So does a step of the buddy allocator outside their pages.\<close>

lemma slub_inv_buddy:
  assumes "slub_inv I C PL FL fl F sm" "bud_rep st F'" "buddy_inv F'" "free_mem F' \<subseteq> free_mem F \<union> B"
    "\<And>a. a \<notin> free_mem F \<union> B \<Longrightarrow> fst st a = mem_of sm a"
    "\<And>i. i \<in> I \<Longrightarrow> B \<inter> region (objects_size (C i)) (PL i) (FL i) = {}"
  shows "slub_inv I C PL FL fl F' (sm\<lparr>sm_buddy := st\<rparr>)"
proof -
  note d = slub_invD [OF assms(1)]
  have conf: "confined (free_mem F \<union> B) fl sm fl (sm\<lparr>sm_buddy := st\<rparr>)" using assms(5) by (simp add: confined_def)
  have "cache_ok (C i) (PL i) (FL i) fl F' (sm\<lparr>sm_buddy := st\<rparr>)" if "i \<in> I" for i
  proof -
    have "(free_mem F \<union> B) \<inter> region (objects_size (C i)) (PL i) (FL i) = {}"
      using assms(6) [OF that] region_free [OF d(3) [OF that]] by blast
    then show ?thesis using cache_ok_frame(1) [OF d(3) [OF that] conf] assms(4) by blast
  qed
  then show ?thesis using d(4) assms(2,3) by (simp add: slub_inv_def)
qed

text \<open>A write to memory that is neither free nor a free object.\<close>

lemma slub_inv_write:
  assumes "slub_inv I C PL FL fl F sm" "a \<notin> free_mem F" "\<And>i p. i \<in> I \<Longrightarrow> p \<in> set (PL i) \<union> set (FL i) \<Longrightarrow> a \<notin> set (fl p)"
  shows "slub_inv I C PL FL fl F (sm\<lparr>sm_buddy := ((mem_of sm)(a := v), snd (sm_buddy sm))\<rparr>)"
proof -
  note d = slub_invD [OF assms(1)]
  let ?sm = "sm\<lparr>sm_buddy := ((mem_of sm)(a := v), snd (sm_buddy sm))\<rparr>"
  have pn: "pnext ?sm = pnext sm" by (auto simp: pnext_def)
  have "page_ok s F (fl p) ?sm p" if "i \<in> I" "p \<in> set (PL i) \<union> set (FL i)" "page_ok s F (fl p) sm p" for i p s
    using that(3) assms(3) [OF that(1,2)] by (simp add: page_ok_def Let_def)
  then have "cache_ok (C i) (PL i) (FL i) fl F ?sm" if "i \<in> I" for i
    using d(3) [OF that] that unfolding cache_ok_def pn by blast
  then show ?thesis using bud_rep_write [OF d(1) assms(2)] d(2,4) by (simp add: slub_inv_def)
qed

section \<open>The caches of the kernel\<close>

text \<open>\<open>(Some h, k)\<close> is the \<open>k\<close>-th cache of hart \<open>h\<close>, \<open>(None, k)\<close> the \<open>k\<close>-th shared one.\<close>

type_synonym cache_id = "nat option \<times> nat"

definition get_slow :: "caches \<Rightarrow> nat option \<Rightarrow> slow_caches" where
  "get_slow ca h = (case h of Some i \<Rightarrow> cpu_caches ca ! i | None \<Rightarrow> shared_caches ca)"

definition set_slow :: "caches \<Rightarrow> nat option \<Rightarrow> slow_caches \<Rightarrow> caches" where
  "set_slow ca h cs =
     (case h of Some i \<Rightarrow> ca\<lparr>cpu_caches := (cpu_caches ca)[i := cs]\<rparr> | None \<Rightarrow> ca\<lparr>shared_caches := cs\<rparr>)"

definition cache_at :: "caches \<Rightarrow> cache_id \<Rightarrow> slub_cache" where
  "cache_at ca i = get_slow ca (fst i) ! snd i"

definition hart_ok :: "nat \<Rightarrow> nat option \<Rightarrow> bool" where
  "hart_ok n h \<longleftrightarrow> (case h of Some i \<Rightarrow> i < n | None \<Rightarrow> True)"

definition cache_ids :: "nat \<Rightarrow> cache_id set" where
  "cache_ids n = {i. hart_ok n (fst i) \<and> snd i < CACHES_MAX}"

definition caches_shape :: "nat \<Rightarrow> caches \<Rightarrow> bool" where
  "caches_shape n ca \<longleftrightarrow> length (cpu_caches ca) = n \<and> (\<forall>h. hart_ok n h \<longrightarrow> length (get_slow ca h) = CACHES_MAX)"

abbreviation hsize :: "cache_id \<Rightarrow> nat" where
  "hsize i \<equiv> 2 ^ (snd i + SLUB_MIN_ORDER)"

definition heap_rep :: "nat \<Rightarrow> (cache_id \<Rightarrow> nat list) \<Rightarrow> (cache_id \<Rightarrow> nat list) \<Rightarrow> (nat \<Rightarrow> nat list) \<Rightarrow> free_blocks \<Rightarrow> caches \<Rightarrow>
    slub_mem \<Rightarrow> bool" where
  "heap_rep n PL FL fl F ca sm \<longleftrightarrow>
     caches_shape n ca \<and> (\<forall>i\<in>cache_ids n. objects_size (cache_at ca i) = hsize i) \<and>
     slub_inv (cache_ids n) (cache_at ca) PL FL fl F sm"

definition hreg :: "(cache_id \<Rightarrow> nat list) \<Rightarrow> (cache_id \<Rightarrow> nat list) \<Rightarrow> cache_id \<Rightarrow> nat set" where
  "hreg PL FL i = region (hsize i) (PL i) (FL i)"

definition hheld :: "(cache_id \<Rightarrow> nat list) \<Rightarrow> (cache_id \<Rightarrow> nat list) \<Rightarrow> (nat \<Rightarrow> nat list) \<Rightarrow> cache_id \<Rightarrow> nat set" where
  "hheld PL FL fl i = cheld (hsize i) (PL i) (FL i) fl"

lemma heap_repD:
  assumes "heap_rep n PL FL fl F ca sm"
  shows "caches_shape n ca" "\<And>i. i \<in> cache_ids n \<Longrightarrow> objects_size (cache_at ca i) = hsize i"
    "slub_inv (cache_ids n) (cache_at ca) PL FL fl F sm"
    "\<And>i. i \<in> cache_ids n \<Longrightarrow> hreg PL FL i \<inter> free_mem F = {}"
    "\<And>i j. i \<in> cache_ids n \<Longrightarrow> j \<in> cache_ids n \<Longrightarrow> i \<noteq> j \<Longrightarrow> hreg PL FL i \<inter> hreg PL FL j = {}"
proof -
  show "caches_shape n ca" "\<And>i. i \<in> cache_ids n \<Longrightarrow> objects_size (cache_at ca i) = hsize i"
    and inv: "slub_inv (cache_ids n) (cache_at ca) PL FL fl F sm" using assms by (auto simp: heap_rep_def)
  then show "hreg PL FL i \<inter> free_mem F = {}" if "i \<in> cache_ids n" for i
    using region_free [OF slub_invD(3) [OF inv that]] that by (simp add: hreg_def)
  show "hreg PL FL i \<inter> hreg PL FL j = {}" if "i \<in> cache_ids n" "j \<in> cache_ids n" "i \<noteq> j" for i j
    using slub_invD(4) [OF inv that] that assms by (simp add: heap_rep_def hreg_def)
qed

lemma hheld_facts:
  assumes "heap_rep n PL FL fl F ca sm" "i \<in> cache_ids n" "x \<in> hheld PL FL fl i"
  shows "obj_mem (hsize i) x \<subseteq> hreg PL FL i" "x \<in> obj_mem (hsize i) x" "hsize i dvd x"
    "y \<in> hheld PL FL fl i \<Longrightarrow> x \<noteq> y \<Longrightarrow> obj_mem (hsize i) x \<inter> obj_mem (hsize i) y = {}" "x \<noteq> 0"
proof -
  note c = slub_invD(3) [OF heap_repD(3) [OF assms(1)] assms(2)] and s = heap_repD(2) [OF assms(1,2)]
  show "obj_mem (hsize i) x \<subseteq> hreg PL FL i" "x \<in> obj_mem (hsize i) x" "hsize i dvd x"
    using cheld_region [OF c, of x] assms(3) s by (simp_all add: hreg_def hheld_def)
  show "y \<in> hheld PL FL fl i \<Longrightarrow> x \<noteq> y \<Longrightarrow> obj_mem (hsize i) x \<inter> obj_mem (hsize i) y = {}"
    using cheld_disjoint [OF c, of x y] assms(3) s by (simp add: hheld_def)
  obtain p where "x \<in> objs (hsize i) p" using assms(3) by (auto simp: hheld_def cheld_def)
  then show "x \<noteq> 0" using objs_mem(1) [OF cache_okD(1) [OF c, unfolded s]] by fastforce
qed

lemma cache_at_set_slow:
  assumes "caches_shape n ca" "(h, k) \<in> cache_ids n"
  shows "cache_at (set_slow ca h ((get_slow ca h)[k := c])) = (cache_at ca)((h, k) := c)"
    "caches_shape n (set_slow ca h ((get_slow ca h)[k := c]))"
proof -
  have len: "length (get_slow ca h) = CACHES_MAX" "k < CACHES_MAX" and hn: "\<And>i. h = Some i \<Longrightarrow> i < length (cpu_caches ca)"
    using assms by (auto simp: caches_shape_def cache_ids_def hart_ok_def)
  have get: "get_slow (set_slow ca h cs) g = (if g = h then cs else get_slow ca g)" for g cs
    using hn by (auto simp: get_slow_def set_slow_def nth_list_update split: option.splits)
  show "cache_at (set_slow ca h ((get_slow ca h)[k := c])) = (cache_at ca)((h, k) := c)"
    using len by (auto simp: cache_at_def get nth_list_update fun_eq_iff)
  have "length (cpu_caches (set_slow ca h cs)) = length (cpu_caches ca)" for cs by (simp add: set_slow_def split: option.splits)
  then show "caches_shape n (set_slow ca h ((get_slow ca h)[k := c]))"
    using assms(1) len by (simp add: caches_shape_def get)
qed

lemma set_slow_same: "caches_shape n ca \<Longrightarrow> hart_ok n h \<Longrightarrow> set_slow ca h (get_slow ca h) = ca"
  by (auto simp: set_slow_def get_slow_def split: option.splits)

text \<open>A change of the heap by the cache \<open>i\<close>.\<close>

definition heap_move :: "nat \<Rightarrow> cache_id \<Rightarrow> (cache_id \<Rightarrow> nat list) \<Rightarrow> (cache_id \<Rightarrow> nat list) \<Rightarrow> (nat \<Rightarrow> nat list) \<Rightarrow> free_blocks \<Rightarrow>
    (cache_id \<Rightarrow> nat list) \<Rightarrow> (cache_id \<Rightarrow> nat list) \<Rightarrow> (nat \<Rightarrow> nat list) \<Rightarrow> free_blocks \<Rightarrow> bool" where
  "heap_move n i PL FL fl F PL' FL' fl' F' \<longleftrightarrow>
     free_mem F' \<union> hreg PL' FL' i \<subseteq> free_mem F \<union> hreg PL FL i \<and>
     (\<forall>j\<in>cache_ids n. j \<noteq> i \<longrightarrow> hreg PL' FL' j = hreg PL FL j \<and> hheld PL' FL' fl' j = hheld PL FL fl j)"

lemma heap_cache_step:
  assumes "heap_rep n PL FL fl F ca sm" "i \<in> cache_ids n" "objects_size c' = objects_size (cache_at ca i)"
    "cache_ok c' PL' FL' fl' F' sm'" "cache_step (objects_size (cache_at ca i)) (PL i) (FL i) fl F sm PL' FL' fl' F' sm'"
  shows "heap_rep n (PL(i := PL')) (FL(i := FL')) fl' F' (set_slow ca (fst i) ((get_slow ca (fst i))[snd i := c'])) sm'"
    "heap_move n i PL FL fl F (PL(i := PL')) (FL(i := FL')) fl' F'"
proof -
  note d = heap_repD [OF assms(1)]
  note st = slub_inv_step [OF d(3) assms(2-5)]
  have i: "(fst i, snd i) \<in> cache_ids n" using assms(2) by simp
  show "heap_rep n (PL(i := PL')) (FL(i := FL')) fl' F' (set_slow ca (fst i) ((get_slow ca (fst i))[snd i := c'])) sm'"
    using st(1) d(2) assms(2,3) cache_at_set_slow [OF d(1) i, of c'] by (simp add: heap_rep_def)
  have "free_mem F' \<union> region (hsize i) PL' FL' \<subseteq> free_mem F \<union> region (hsize i) (PL i) (FL i)"
    using assms(5) d(2) [OF assms(2)] by (simp add: cache_step_def)
  then show "heap_move n i PL FL fl F (PL(i := PL')) (FL(i := FL')) fl' F'"
    using st(2) d(2) by (auto simp: heap_move_def hreg_def hheld_def)
qed

end
