(* ===== verification/Slub_Client.thy ===== *)
theory Slub_Client
  imports Slub_Heap
begin

text \<open>
  Clients of the heap.  A client allocates on any hart, writes to what it holds and gives it back on any hart; the theorems
  say that what the clients hold stays theirs.
\<close>

section \<open>Layouts\<close>

lemma trailing_zeros_exp: "k < 64 \<Longrightarrow> trailing_zeros (2 ^ k :: u64) = k"
proof -
  assume k: "k < 64"
  have "bit (2 ^ k :: u64) k" using k by (simp add: bit_exp_iff)
  then have "(2 ^ k :: u64) \<noteq> 0" by (metis bit_0_eq bot_apply bot_bool_def)
  from trailing_zeros_find [OF this] obtain i where "i < 64" "bit (2 ^ k :: u64) ([0..<64] ! i)"
    "trailing_zeros (2 ^ k :: u64) = [0..<64] ! i" by (auto simp: find_Some_iff)
  then show ?thesis by (simp add: bit_exp_iff)
qed

lemma layout_order_least:
  assumes "max (lay_size lay) (lay_align lay) \<le> 2 ^ 63"
  obtains k where "layout_order lay = Some k" "4 \<le> k" "lay_size lay \<le> 2 ^ k" "lay_align lay \<le> 2 ^ k"
    "\<And>j. 4 \<le> j \<Longrightarrow> lay_size lay \<le> 2 ^ j \<Longrightarrow> lay_align lay \<le> 2 ^ j \<Longrightarrow> k \<le> j"
proof -
  let ?n = "max (max (lay_size lay) (lay_align lay)) (2 ^ 4)"
  obtain k where k: "ilog2_ceil ?n = Some k" by (cases "ilog2_ceil ?n") (auto simp: ilog2_ceil_def split: if_splits)
  note least = ilog2_ceil_least [OF k]
  have n: "?n \<le> 2 ^ 63" using assms by simp
  then have "k \<le> 63" using least by blast
  then have "layout_order lay = Some k"
    using k n trailing_zeros_exp [of k] by (simp add: layout_order_def next_power_of_two_def SLUB_MIN_ORDER_def)
  moreover have up: "?n \<le> 2 ^ k" using least by blast
  moreover have "4 \<le> k" using up power_le_imp_le_exp [of "2::nat" 4 k] by simp
  moreover have "k \<le> j" if "4 \<le> j" "lay_size lay \<le> 2 ^ j" "lay_align lay \<le> 2 ^ j" for j
  proof -
    have "(2::nat) ^ 4 \<le> 2 ^ j" using that(1) by (intro power_increasing) auto
    then show ?thesis using that(2,3) least [of j] by simp
  qed
  ultimately show thesis using that by simp
qed

text \<open>The layouts the kernel allocator serves: at most 4 MiB, the alignment a power of two.\<close>

definition layout_ok :: "alloc_layout \<Rightarrow> bool" where
  "layout_ok lay \<longleftrightarrow> lay_size lay \<le> 2 ^ 22 \<and> (\<exists>a\<in>{..22}. lay_align lay = 2 ^ a)"

definition lay_ord :: "alloc_layout \<Rightarrow> nat" where
  "lay_ord lay = the (layout_order lay)"

lemma layout_ok_order:
  assumes "layout_ok lay"
  shows "layout_order lay = Some (lay_ord lay)" "4 \<le> lay_ord lay" "lay_ord lay \<le> 22" "lay_size lay \<le> 2 ^ lay_ord lay"
    "lay_align lay dvd 2 ^ lay_ord lay"
proof -
  obtain a where a: "lay_align lay = 2 ^ a" "a \<le> 22" "lay_size lay \<le> 2 ^ 22" using assms by (auto simp: layout_ok_def)
  have le: "(2::nat) ^ a \<le> 2 ^ 22" using a(2) by (intro power_increasing) auto
  moreover have "(2::nat) ^ 22 \<le> 2 ^ 63" by simp
  ultimately have "max (lay_size lay) (lay_align lay) \<le> 2 ^ 63" using a by linarith
  from layout_order_least [OF this] obtain k where k: "layout_order lay = Some k" "4 \<le> k" "lay_size lay \<le> 2 ^ k"
    "lay_align lay \<le> 2 ^ k" "\<And>j. 4 \<le> j \<Longrightarrow> lay_size lay \<le> 2 ^ j \<Longrightarrow> lay_align lay \<le> 2 ^ j \<Longrightarrow> k \<le> j" by blast
  have "k \<le> 22" using k(5) [of 22] a le by simp
  moreover have "a \<le> k" using k(4) a(1) power_le_imp_le_exp [of "2::nat" a k] by simp
  ultimately show "layout_order lay = Some (lay_ord lay)" "4 \<le> lay_ord lay" "lay_ord lay \<le> 22"
    "lay_size lay \<le> 2 ^ lay_ord lay" "lay_align lay dvd 2 ^ lay_ord lay"
    using k(1-3) a(1) by (auto simp: lay_ord_def le_imp_power_dvd)
qed

section \<open>Ownership\<close>

text \<open>Who owns an allocation of order \<open>k\<close> at address \<open>x\<close>.\<close>

definition owned :: "nat \<Rightarrow> (cache_id \<Rightarrow> nat list) \<Rightarrow> (cache_id \<Rightarrow> nat list) \<Rightarrow> (nat \<Rightarrow> nat list) \<Rightarrow> free_blocks \<Rightarrow> nat \<Rightarrow> nat \<Rightarrow> bool" where
  "owned n PL FL fl F x k \<longleftrightarrow>
     (if k < SLUB_MAX_ORDER then \<exists>i\<in>cache_ids n. snd i + SLUB_MIN_ORDER = k \<and> x \<in> hheld PL FL fl i
      else held F (k - 12) x \<and> (\<forall>i\<in>cache_ids n. blk (k - 12) x \<inter> hreg PL FL i = {}))"

definition amem :: "nat \<Rightarrow> nat \<Rightarrow> nat set" where
  "amem x k = {x..<x + 2 ^ k}"

lemma amem_blk: "12 \<le> k \<Longrightarrow> amem x k = blk (k - 12) x"
  by (simp add: amem_def blk_def order_size_eq)

lemma amem_self: "x \<in> amem x k"
  by (simp add: amem_def)

lemma amem_obj: "snd i + SLUB_MIN_ORDER = k \<Longrightarrow> amem x k = obj_mem (hsize i) x"
  by (auto simp: amem_def obj_mem_def)

lemma owned_facts:
  assumes "heap_rep n PL FL fl F ca sm" "owned n PL FL fl F x k"
  shows "x \<noteq> 0" "2 ^ k dvd x" "amem x k \<inter> free_mem F = {}"
proof -
  have "x \<noteq> 0 \<and> 2 ^ k dvd x \<and> amem x k \<inter> free_mem F = {}"
  proof (cases "k < SLUB_MAX_ORDER")
    case True
    then obtain i where i: "i \<in> cache_ids n" "snd i + SLUB_MIN_ORDER = k" "x \<in> hheld PL FL fl i"
      using assms(2) by (auto simp: owned_def)
    then show ?thesis using hheld_facts [OF assms(1) i(1,3)] heap_repD(4) [OF assms(1) i(1)] amem_obj [OF i(2)] by auto
  next
    case False
    then have k: "12 \<le> k" "held F (k - 12) x" using assms(2) by (auto simp: owned_def SLUB_MAX_ORDER_def)
    then show ?thesis using amem_blk [OF k(1)] by (auto simp: held_def aligned_def order_size_eq)
  qed
  then show "x \<noteq> 0" "2 ^ k dvd x" "amem x k \<inter> free_mem F = {}" by auto
qed

text \<open>A step of cache \<open>i\<close> that gives up at most the object \<open>x\<close> keeps every other allocation.\<close>

lemma owned_move:
  assumes "heap_rep n PL FL fl F ca sm" "i \<in> cache_ids n" "heap_move n i PL FL fl F PL' FL' fl' F'"
    "hheld PL FL fl i - {x} \<subseteq> hheld PL' FL' fl' i" "owned n PL FL fl F y k" "y \<noteq> x"
  shows "owned n PL' FL' fl' F' y k"
proof (cases "k < SLUB_MAX_ORDER")
  case True
  then obtain j where j: "j \<in> cache_ids n" "snd j + SLUB_MIN_ORDER = k" "y \<in> hheld PL FL fl j"
    using assms(5) by (auto simp: owned_def)
  have "y \<in> hheld PL' FL' fl' j" using j assms(3,4,6) by (cases "j = i") (auto simp: heap_move_def)
  then show ?thesis using True j by (auto simp: owned_def)
next
  case False
  then have k: "held F (k - 12) y" "\<And>j. j \<in> cache_ids n \<Longrightarrow> blk (k - 12) y \<inter> hreg PL FL j = {}"
    using assms(5) by (auto simp: owned_def)
  have f: "blk (k - 12) y \<inter> free_mem F = {}" using k(1) by (simp add: held_def)
  have "blk (k - 12) y \<inter> hreg PL' FL' j = {}" if "j \<in> cache_ids n" for j
    using k(2) [OF that] k(2) [OF assms(2)] f assms(3) that by (cases "j = i") (auto simp: heap_move_def)
  moreover have "blk (k - 12) y \<inter> free_mem F' = {}" using k(2) [OF assms(2)] f assms(3) by (auto simp: heap_move_def)
  ultimately show ?thesis using False k(1) held_mono [of F "k - 12" y F'] by (auto simp: owned_def)
qed

text \<open>An object that a cache hands out is away from every allocation that exists.\<close>

lemma owned_fresh:
  assumes "heap_rep n PL FL fl F ca sm" "heap_rep n PL' FL' fl' F' ca' sm'" "i \<in> cache_ids n"
    "heap_move n i PL FL fl F PL' FL' fl' F'" "hheld PL' FL' fl' i = insert x (hheld PL FL fl i)" "x \<notin> hheld PL FL fl i"
    "owned n PL FL fl F y k"
  shows "obj_mem (hsize i) x \<inter> amem y k = {}"
proof -
  have x: "x \<in> hheld PL' FL' fl' i" using assms(5) by simp
  have new: "obj_mem (hsize i) x \<subseteq> free_mem F \<union> hreg PL FL i"
    using hheld_facts(1) [OF assms(2,3) x] assms(4) by (auto simp: heap_move_def)
  show ?thesis
  proof (cases "k < SLUB_MAX_ORDER")
    case True
    then obtain j where j: "j \<in> cache_ids n" "snd j + SLUB_MIN_ORDER = k" "y \<in> hheld PL FL fl j"
      using assms(7) by (auto simp: owned_def)
    note y = hheld_facts [OF assms(1) j(1,3)]
    show ?thesis
    proof (cases "j = i")
      case True
      then have "y \<in> hheld PL' FL' fl' i" "x \<noteq> y" using j(3) assms(5,6) by auto
      then show ?thesis using hheld_facts(4) [OF assms(2,3) x] amem_obj [OF j(2)] True by simp
    next
      case False
      have "hreg PL FL j \<inter> (free_mem F \<union> hreg PL FL i) = {}"
        using heap_repD(4) [OF assms(1) j(1)] heap_repD(5) [OF assms(1) j(1) assms(3) False] by blast
      then show ?thesis using y(1) new amem_obj [OF j(2)] by auto
    qed
  next
    case False
    then have "held F (k - 12) y" "blk (k - 12) y \<inter> hreg PL FL i = {}" "amem y k = blk (k - 12) y"
      using assms(3,7) amem_blk [of k y] by (auto simp: owned_def SLUB_MAX_ORDER_def)
    then show ?thesis using new by (auto simp: held_def)
  qed
qed

section \<open>Allocation\<close>

definition hmem :: "nat \<Rightarrow> (cache_id \<Rightarrow> nat list) \<Rightarrow> (cache_id \<Rightarrow> nat list) \<Rightarrow> free_blocks \<Rightarrow> nat set" where
  "hmem n PL FL F = free_mem F \<union> (\<Union>i\<in>cache_ids n. hreg PL FL i)"

lemma heap_move_hmem:
  assumes "heap_move n i PL FL fl F PL' FL' fl' F'" "i \<in> cache_ids n"
  shows "hmem n PL' FL' F' \<subseteq> hmem n PL FL F"
proof -
  have "hreg PL' FL' j \<subseteq> hmem n PL FL F" if "j \<in> cache_ids n" for j
    using assms that by (cases "j = i") (auto simp: heap_move_def hmem_def)
  moreover have "free_mem F' \<subseteq> hmem n PL FL F" using assms by (auto simp: heap_move_def hmem_def)
  ultimately show ?thesis by (auto simp: hmem_def [of n PL' FL' F'])
qed

text \<open>What a successful allocation of order \<open>k\<close> at \<open>x\<close> does to the owned memory.\<close>

definition alloc_ok :: "nat \<Rightarrow> nat \<Rightarrow> nat \<Rightarrow> (cache_id \<Rightarrow> nat list) \<Rightarrow> (cache_id \<Rightarrow> nat list) \<Rightarrow> (nat \<Rightarrow> nat list) \<Rightarrow> free_blocks \<Rightarrow>
    (cache_id \<Rightarrow> nat list) \<Rightarrow> (cache_id \<Rightarrow> nat list) \<Rightarrow> (nat \<Rightarrow> nat list) \<Rightarrow> free_blocks \<Rightarrow> bool" where
  "alloc_ok n x k PL FL fl F PL' FL' fl' F' \<longleftrightarrow>
     owned n PL' FL' fl' F' x k \<and> amem x k \<subseteq> hmem n PL FL F \<and> hmem n PL' FL' F' \<subseteq> hmem n PL FL F \<and>
     (\<forall>y l. owned n PL FL fl F y l \<longrightarrow> owned n PL' FL' fl' F' y l \<and> amem x k \<inter> amem y l = {})"

lemma slow_alloc_small:
  assumes "heap_rep n PL FL fl F ca sm" "hart_ok n h" "layout_order lay = Some k" "4 \<le> k" "k < 12"
  obtains (None) "slow_alloc lay (get_slow ca h) sm = Some (0, get_slow ca h, sm)"
  | (Some) x cs sm' PL' FL' fl' F' where "slow_alloc lay (get_slow ca h) sm = Some (x, cs, sm')" "x \<noteq> 0"
    "heap_rep n PL' FL' fl' F' (set_slow ca h cs) sm'" "alloc_ok n x k PL FL fl F PL' FL' fl' F'"
proof -
  let ?i = "(h, k - 4)" and ?c = "cache_at ca (h, k - 4)"
  have i: "?i \<in> cache_ids n" using assms(2,4,5) by (simp add: cache_ids_def CACHES_MAX_def SLUB_MAX_ORDER_def SLUB_MIN_ORDER_def)
  note d = heap_repD [OF assms(1)]
  note inv = slub_invD [OF d(3)]
  have k: "k < SLUB_MAX_ORDER" "k - SLUB_MIN_ORDER = k - 4" "snd ?i + SLUB_MIN_ORDER = k"
    using assms(4,5) by (auto simp: SLUB_MAX_ORDER_def SLUB_MIN_ORDER_def)
  have sl: "slow_alloc lay (get_slow ca h) sm =
    map_option (\<lambda>(r, c, sm'). (case r of Some p \<Rightarrow> p | None \<Rightarrow> 0, (get_slow ca h)[k - 4 := c], sm')) (cache_alloc ?c sm)"
    using assms(3) k by (simp add: slow_alloc_def Let_def cache_at_def)
  from inv(3) [OF i] inv(1,2) show thesis
  proof (cases rule: cache_alloc_ok)
    case None
    then show ?thesis using that(1) sl by (simp add: cache_at_def)
  next
    case (Some x c' sm' PL' FL' fl' F')
    note st = heap_cache_step [OF assms(1) i Some(2-4)]
    have ch: "hheld (PL(?i := PL')) (FL(?i := FL')) fl' ?i = insert x (hheld PL FL fl ?i)" "x \<notin> hheld PL FL fl ?i"
      using Some(5,6) d(2) [OF i] by (simp_all add: hheld_def)
    then have x: "x \<in> hheld (PL(?i := PL')) (FL(?i := FL')) fl' ?i" by simp
    have am: "amem x k = obj_mem (hsize ?i) x" by (rule amem_obj [OF k(3)])
    have "owned n (PL(?i := PL')) (FL(?i := FL')) fl' F' x k" using x i k(1,3) unfolding owned_def by (simp only: if_True) (rule bexI [of _ ?i], simp_all)
    moreover have hm: "hmem n (PL(?i := PL')) (FL(?i := FL')) F' \<subseteq> hmem n PL FL F" by (rule heap_move_hmem [OF st(2) i])
    moreover have "amem x k \<subseteq> hmem n PL FL F"
      using hheld_facts(1) [OF st(1) i x] am hm i unfolding hmem_def [of n "PL(?i := PL')"] by blast
    moreover have "owned n (PL(?i := PL')) (FL(?i := FL')) fl' F' y l" "amem x k \<inter> amem y l = {}"
      if y: "owned n PL FL fl F y l" for y l
    proof -
      show dis: "amem x k \<inter> amem y l = {}" using owned_fresh [OF assms(1) st(1) i st(2) ch y] am by simp
      then have "y \<noteq> x" using amem_self by blast
      then show "owned n (PL(?i := PL')) (FL(?i := FL')) fl' F' y l" using owned_move [OF assms(1) i st(2) _ y] ch(1) by blast
    qed
    ultimately have "alloc_ok n x k PL FL fl F (PL(?i := PL')) (FL(?i := FL')) fl' F'" by (simp add: alloc_ok_def)
    moreover have "slow_alloc lay (get_slow ca h) sm = Some (x, (get_slow ca h)[k - 4 := c'], sm')" using sl Some(1) by simp
    ultimately show ?thesis using that(2) hheld_facts(5) [OF st(1) i x] st(1) by fastforce
  qed
qed

lemma slow_alloc_large:
  assumes "heap_rep n PL FL fl F ca sm" "layout_order lay = Some k" "12 \<le> k" "k \<le> 22"
  obtains (None) "slow_alloc lay cs sm = Some (0, cs, sm)"
  | (Some) x sm' F' where "slow_alloc lay cs sm = Some (x, cs, sm')" "x \<noteq> 0"
    "heap_rep n PL FL fl F' ca sm'" "alloc_ok n x k PL FL fl F PL FL fl F'"
proof -
  note d = heap_repD [OF assms(1)]
  note inv = slub_invD [OF d(3)]
  have o: "(2::nat) ^ k = order_size (k - 12)" "k - 12 < 11" using assms(3,4) by (simp_all add: order_size_eq)
  have sl: "slow_alloc lay cs sm = (case buddy_alloc (k - 12) (sm_buddy sm) of
      (r, st) \<Rightarrow> Some (case r of Some addr \<Rightarrow> addr | None \<Rightarrow> 0, cs, sm\<lparr>sm_buddy := st\<rparr>))"
    using assms(2,3) o(2) size_to_order_order_size [of "k - 12"]
    by (simp add: slow_alloc_def buddy_alloc_frame_def SLUB_MAX_ORDER_def o(1) split: prod.split)
  from inv(1,2) o(2) show thesis
  proof (cases rule: buddy_alloc_cases)
    case None
    then show ?thesis using that(1) sl by simp
  next
    case (Some x st F')
    let ?sm = "sm\<lparr>sm_buddy := st\<rparr>"
    have store: "fst st a = mem_of sm a" if "a \<notin> free_mem F \<union> {}" for a
      using buddy_alloc_store [OF inv(1) _ Some(1)] that by simp
    have "free_mem F' \<subseteq> free_mem F \<union> {}" using Some(5) by blast
    from slub_inv_buddy [OF d(3) Some(2,3) this store] have rep: "heap_rep n PL FL fl F' ca ?sm"
      using d(1,2) by (simp add: heap_rep_def)
    have xf: "blk (k - 12) x \<subseteq> free_mem F" "free_mem F' \<subseteq> free_mem F" using Some(5) by auto
    have am: "amem x k = blk (k - 12) x" by (rule amem_blk [OF assms(3)])
    have "owned n PL FL fl F' x k"
      using Some(4) xf(1) d(4) assms(3) by (fastforce simp: owned_def SLUB_MAX_ORDER_def)
    moreover have "owned n PL FL fl F' y l \<and> amem x k \<inter> amem y l = {}" if y: "owned n PL FL fl F y l" for y l
    proof -
      have dis: "amem x k \<inter> amem y l = {}" using owned_facts(3) [OF assms(1) y] xf(1) am by blast
      have "held F (l - 12) y \<Longrightarrow> held F' (l - 12) y" using xf(2) by (auto simp: held_def)
      then show ?thesis using y dis by (auto simp: owned_def split: if_splits)
    qed
    ultimately have "alloc_ok n x k PL FL fl F PL FL fl F'" using xf am by (auto simp: alloc_ok_def hmem_def)
    moreover have "x \<noteq> 0" using Some(4) by (auto simp: held_def)
    ultimately show ?thesis using that(2) [of x ?sm F'] rep sl Some(1) by simp
  qed
qed

lemma slow_alloc_ok:
  assumes "heap_rep n PL FL fl F ca sm" "hart_ok n h" "layout_ok lay"
  obtains (None) "slow_alloc lay (get_slow ca h) sm = Some (0, get_slow ca h, sm)"
  | (Some) x cs sm' PL' FL' fl' F' where "slow_alloc lay (get_slow ca h) sm = Some (x, cs, sm')" "x \<noteq> 0"
    "heap_rep n PL' FL' fl' F' (set_slow ca h cs) sm'" "alloc_ok n x (lay_ord lay) PL FL fl F PL' FL' fl' F'"
proof (cases "lay_ord lay < 12")
  case True
  then show ?thesis using slow_alloc_small [OF assms(1,2) layout_ok_order(1,2) [OF assms(3)]] that by metis
next
  case False
  then have k: "12 \<le> lay_ord lay" by simp
  have ca: "set_slow ca h (get_slow ca h) = ca" by (rule set_slow_same [OF heap_repD(1) [OF assms(1)] assms(2)])
  from assms(1) layout_ok_order(1) [OF assms(3)] k layout_ok_order(3) [OF assms(3)] show ?thesis
  proof (cases rule: slow_alloc_large [where cs = "get_slow ca h"])
    case None
    then show ?thesis by (rule that(1))
  next
    case (Some x sm' F')
    then show ?thesis using that(2) [of x "get_slow ca h" sm' PL FL fl F'] ca by simp
  qed
qed

lemma caches_alloc_ok:
  assumes "heap_rep n PL FL fl F ca sm" "hart < n" "layout_ok lay"
  obtains (None) "caches_alloc hart lay ca sm = Some (0, ca, sm)"
  | (Some) x ca' sm' PL' FL' fl' F' where "caches_alloc hart lay ca sm = Some (x, ca', sm')" "x \<noteq> 0"
    "heap_rep n PL' FL' fl' F' ca' sm'" "alloc_ok n x (lay_ord lay) PL FL fl F PL' FL' fl' F'"
proof -
  have h: "hart_ok n (Some hart)" "hart_ok n None" using assms(2) by (simp_all add: hart_ok_def)
  note same = set_slow_same [OF heap_repD(1) [OF assms(1)]]
  have eq: "caches_alloc hart lay ca sm =
    Option.bind (slow_alloc lay (get_slow ca (Some hart)) sm) (\<lambda>(ptr, cs, sm1).
       if ptr \<noteq> 0 then Some (ptr, set_slow ca (Some hart) cs, sm1)
       else map_option (\<lambda>(ptr, cs', sm2). (ptr, set_slow (set_slow ca (Some hart) cs) None cs', sm2))
         (slow_alloc lay (get_slow (set_slow ca (Some hart) cs) None) sm1))"
    unfolding caches_alloc_def get_slow_def set_slow_def Let_def option.case by (rule refl)
  from assms(1) h(1) assms(3) show thesis
  proof (cases rule: slow_alloc_ok)
    case None
    then have eq2: "caches_alloc hart lay ca sm =
      map_option (\<lambda>(ptr, cs', sm2). (ptr, set_slow ca None cs', sm2)) (slow_alloc lay (get_slow ca None) sm)"
      using eq same [OF h(1)] by simp
    from assms(1) h(2) assms(3) show ?thesis
    proof (cases rule: slow_alloc_ok)
      case None
      then show ?thesis using that(1) eq2 same [OF h(2)] by simp
    next
      case (Some x cs sm' PL' FL' fl' F')
      then show ?thesis using that(2) [of x "set_slow ca None cs" sm' PL' FL' fl' F'] eq2 by simp
    qed
  next
    case (Some x cs sm' PL' FL' fl' F')
    then show ?thesis using that(2) [of x "set_slow ca (Some hart) cs" sm' PL' FL' fl' F'] eq by simp
  qed
qed

section \<open>Deallocation\<close>

lemma cache_dealloc_other:
  assumes "cache_ok c PL FL fl F sm" "x \<notin> region (objects_size c) PL FL"
  shows "cache_dealloc c x sm = Some (False, c, sm)"
proof -
  note d = cache_okD [OF assms(1)]
  have "\<not> (sp_page_start (sm_pages sm q) \<le> x \<and> x < sp_page_start (sm_pages sm q) + sp_page_size (sm_pages sm q))"
    if q: "q \<in> set PL \<union> set FL" for q
    using page_okD(1,2) [OF d(7) [OF q]] osizes_facts(6) [OF d(1)] region_sub [OF q, of "objects_size c"] assms(2)
    by (auto simp: blk_def)
  then have "spl_find x (full_slubs c) sm = Some None" "spl_find x (partial_slubs c) sm = Some None"
    using spl_find_ok [OF d(2), of x] spl_find_ok [OF d(3), of x] by (auto simp: find_None_iff)
  then show ?thesis by (simp add: cache_dealloc_def)
qed

definition free_ok :: "nat \<Rightarrow> nat \<Rightarrow> nat \<Rightarrow> (cache_id \<Rightarrow> nat list) \<Rightarrow> (cache_id \<Rightarrow> nat list) \<Rightarrow> (nat \<Rightarrow> nat list) \<Rightarrow> free_blocks \<Rightarrow>
    (cache_id \<Rightarrow> nat list) \<Rightarrow> (cache_id \<Rightarrow> nat list) \<Rightarrow> (nat \<Rightarrow> nat list) \<Rightarrow> free_blocks \<Rightarrow> bool" where
  "free_ok n x k PL FL fl F PL' FL' fl' F' \<longleftrightarrow>
     hmem n PL' FL' F' \<subseteq> hmem n PL FL F \<union> amem x k \<and>
     (\<forall>y l. owned n PL FL fl F y l \<longrightarrow> amem y l \<inter> amem x k = {} \<longrightarrow> owned n PL' FL' fl' F' y l)"

lemma slow_dealloc_small:
  assumes "heap_rep n PL FL fl F ca sm" "hart_ok n h" "layout_order lay = Some k" "4 \<le> k" "k < 12" "owned n PL FL fl F x k"
  obtains (Other) "slow_dealloc x lay (get_slow ca h) sm = Some (False, get_slow ca h, sm)"
  | (Found) cs sm' PL' FL' fl' F' where "slow_dealloc x lay (get_slow ca h) sm = Some (True, cs, sm')"
    "heap_rep n PL' FL' fl' F' (set_slow ca h cs) sm'" "free_ok n x k PL FL fl F PL' FL' fl' F'"
proof -
  let ?i = "(h, k - 4)" and ?c = "cache_at ca (h, k - 4)"
  have i: "?i \<in> cache_ids n" using assms(2,4,5) by (simp add: cache_ids_def CACHES_MAX_def SLUB_MAX_ORDER_def SLUB_MIN_ORDER_def)
  note d = heap_repD [OF assms(1)]
  note inv = slub_invD [OF d(3)]
  have k: "k < SLUB_MAX_ORDER" "k - SLUB_MIN_ORDER = k - 4" "snd ?i + SLUB_MIN_ORDER = k"
    using assms(4,5) by (auto simp: SLUB_MAX_ORDER_def SLUB_MIN_ORDER_def)
  have sl: "slow_dealloc x lay (get_slow ca h) sm =
    map_option (\<lambda>(found, c, sm'). (found, (get_slow ca h)[k - 4 := c], sm')) (cache_dealloc ?c x sm)"
    using assms(3) k by (simp add: slow_dealloc_def Let_def cache_at_def)
  show thesis
  proof (cases "x \<in> hheld PL FL fl ?i")
    case True
    then have "x \<in> cheld (objects_size ?c) (PL ?i) (FL ?i) fl" using d(2) [OF i] by (simp add: hheld_def)
    from cache_dealloc_ok [OF inv(3) [OF i] inv(1,2) this] obtain c' sm' PL' FL' fl' F' where
      r: "cache_dealloc ?c x sm = Some (True, c', sm')" "objects_size c' = objects_size ?c" "cache_ok c' PL' FL' fl' F' sm'"
      "cache_step (objects_size ?c) (PL ?i) (FL ?i) fl F sm PL' FL' fl' F' sm'"
      "cheld (objects_size ?c) PL' FL' fl' = cheld (objects_size ?c) (PL ?i) (FL ?i) fl - {x}" by blast
    note st = heap_cache_step [OF assms(1) i r(2-4)]
    have ch: "hheld PL FL fl ?i - {x} \<subseteq> hheld (PL(?i := PL')) (FL(?i := FL')) fl' ?i"
      using r(5) d(2) [OF i] by (simp add: hheld_def)
    have "owned n (PL(?i := PL')) (FL(?i := FL')) fl' F' y l" if "owned n PL FL fl F y l" "amem y l \<inter> amem x k = {}" for y l
    proof -
      have "y \<noteq> x" using that(2) amem_self by blast
      then show ?thesis by (rule owned_move [OF assms(1) i st(2) ch that(1)])
    qed
    then have "free_ok n x k PL FL fl F (PL(?i := PL')) (FL(?i := FL')) fl' F'"
      using heap_move_hmem [OF st(2) i] by (auto simp: free_ok_def)
    then show ?thesis using that(2) [of "(get_slow ca h)[k - 4 := c']" sm'] st(1) sl r(1) by simp
  next
    case False
    obtain j where j: "j \<in> cache_ids n" "snd j + SLUB_MIN_ORDER = k" "x \<in> hheld PL FL fl j"
      using assms(6) k(1) by (auto simp: owned_def)
    then have "j \<noteq> ?i" using False by blast
    then have "x \<notin> hreg PL FL ?i" using hheld_facts(1,2) [OF assms(1) j(1,3)] d(5) [OF j(1) i] by blast
    then have "cache_dealloc ?c x sm = Some (False, ?c, sm)"
      using cache_dealloc_other [OF inv(3) [OF i]] d(2) [OF i] by (simp add: hreg_def)
    then show ?thesis using that(1) sl by (simp add: cache_at_def)
  qed
qed

lemma slow_dealloc_large:
  assumes "heap_rep n PL FL fl F ca sm" "layout_order lay = Some k" "12 \<le> k" "k \<le> 22" "owned n PL FL fl F x k"
  obtains sm' F' where "slow_dealloc x lay cs sm = Some (True, cs, sm')"
    "heap_rep n PL FL fl F' ca sm'" "free_ok n x k PL FL fl F PL FL fl F'"
proof -
  note d = heap_repD [OF assms(1)]
  note inv = slub_invD [OF d(3)]
  have o: "(2::nat) ^ k = order_size (k - 12)" "k - 12 < 11" using assms(3,4) by (simp_all add: order_size_eq)
  have x: "held F (k - 12) x" "\<And>i. i \<in> cache_ids n \<Longrightarrow> blk (k - 12) x \<inter> hreg PL FL i = {}"
    using assms(3,5) by (auto simp: owned_def SLUB_MAX_ORDER_def)
  have am: "amem x k = blk (k - 12) x" by (rule amem_blk [OF assms(3)])
  obtain st F' q lost where bd: "buddy_dealloc x (k - 12) (sm_buddy sm) = Some st" "bud_rep st F'" "buddy_inv F'"
    "free_mem F' = (free_mem F \<union> blk (k - 12) x) - lost"
    using buddy_dealloc_cases [OF inv(1,2) x(1)] by metis
  let ?sm = "sm\<lparr>sm_buddy := st\<rparr>"
  have sl: "slow_dealloc x lay cs sm = Some (True, cs, ?sm)"
    using assms(2,3) o(2) size_to_order_order_size [of "k - 12"] bd(1)
    by (simp add: slow_dealloc_def buddy_dealloc_frame_def SLUB_MAX_ORDER_def o(1))
  have sub: "free_mem F' \<subseteq> free_mem F \<union> blk (k - 12) x" using bd(4) by blast
  have store: "fst st a = mem_of sm a" if "a \<notin> free_mem F \<union> blk (k - 12) x" for a
    by (rule buddy_dealloc_store [OF inv(1,2) x(1) that bd(1)])
  have "blk (k - 12) x \<inter> region (objects_size (cache_at ca i)) (PL i) (FL i) = {}" if "i \<in> cache_ids n" for i
    using x(2) [OF that] d(2) [OF that] by (simp add: hreg_def)
  from slub_inv_buddy [OF d(3) bd(2,3) sub store this] have rep: "heap_rep n PL FL fl F' ca ?sm"
    using d(1,2) by (simp add: heap_rep_def)
  have "owned n PL FL fl F' y l" if y: "owned n PL FL fl F y l" "amem y l \<inter> amem x k = {}" for y l
  proof (cases "l < SLUB_MAX_ORDER")
    case False
    then have l: "12 \<le> l" "held F (l - 12) y" using y(1) by (auto simp: owned_def SLUB_MAX_ORDER_def)
    have "free_mem F' \<inter> blk (l - 12) y = {}" using sub l(2) y(2) am amem_blk [OF l(1)] by (auto simp: held_def)
    then show ?thesis using y(1) False held_mono [OF l(2)] by (auto simp: owned_def)
  qed (use y in \<open>simp add: owned_def\<close>)
  then have "free_ok n x k PL FL fl F PL FL fl F'" using sub am by (auto simp: free_ok_def hmem_def)
  then show thesis by (rule that [OF sl rep])
qed

lemma slow_dealloc_ok:
  assumes "heap_rep n PL FL fl F ca sm" "hart_ok n h" "layout_ok lay" "owned n PL FL fl F x (lay_ord lay)"
  obtains (Other) "slow_dealloc x lay (get_slow ca h) sm = Some (False, get_slow ca h, sm)"
  | (Found) cs sm' PL' FL' fl' F' where "slow_dealloc x lay (get_slow ca h) sm = Some (True, cs, sm')"
    "heap_rep n PL' FL' fl' F' (set_slow ca h cs) sm'" "free_ok n x (lay_ord lay) PL FL fl F PL' FL' fl' F'"
proof (cases "lay_ord lay < 12")
  case True
  then show ?thesis using slow_dealloc_small [OF assms(1,2) layout_ok_order(1,2) [OF assms(3)] _ assms(4)] that by metis
next
  case False
  then have k: "12 \<le> lay_ord lay" by simp
  have ca: "set_slow ca h (get_slow ca h) = ca" by (rule set_slow_same [OF heap_repD(1) [OF assms(1)] assms(2)])
  obtain sm' F' where "slow_dealloc x lay (get_slow ca h) sm = Some (True, get_slow ca h, sm')"
    "heap_rep n PL FL fl F' ca sm'" "free_ok n x (lay_ord lay) PL FL fl F PL FL fl F'"
    by (rule slow_dealloc_large [OF assms(1) layout_ok_order(1) [OF assms(3)] k layout_ok_order(3) [OF assms(3)] assms(4)])
  then show ?thesis using that(2) [of "get_slow ca h" sm' PL FL fl F'] ca by simp
qed

lemma caches_dealloc_ok:
  assumes "heap_rep n PL FL fl F ca sm" "hart < n" "layout_ok lay" "owned n PL FL fl F x (lay_ord lay)"
  obtains ca' sm' PL' FL' fl' F' where "caches_dealloc hart x lay ca sm = Some (ca', sm')"
    "heap_rep n PL' FL' fl' F' ca' sm'" "free_ok n x (lay_ord lay) PL FL fl F PL' FL' fl' F'"
proof -
  have h: "hart_ok n (Some hart)" "hart_ok n None" using assms(2) by (simp_all add: hart_ok_def)
  note same = set_slow_same [OF heap_repD(1) [OF assms(1)]]
  have eq: "caches_dealloc hart x lay ca sm =
    Option.bind (slow_dealloc x lay (get_slow ca (Some hart)) sm) (\<lambda>(found, cs, sm1).
       if found then Some (set_slow ca (Some hart) cs, sm1)
       else map_option (\<lambda>(_, cs', sm2). (set_slow (set_slow ca (Some hart) cs) None cs', sm2))
         (slow_dealloc x lay (get_slow (set_slow ca (Some hart) cs) None) sm1))"
    unfolding caches_dealloc_def get_slow_def set_slow_def Let_def option.case by (rule refl)
  from assms(1) h(1) assms(3,4) show thesis
  proof (cases rule: slow_dealloc_ok)
    case Other
    then have eq2: "caches_dealloc hart x lay ca sm =
      map_option (\<lambda>(_, cs', sm2). (set_slow ca None cs', sm2)) (slow_dealloc x lay (get_slow ca None) sm)"
      using eq same [OF h(1)] by simp
    from assms(1) h(2) assms(3,4) show ?thesis
    proof (cases rule: slow_dealloc_ok)
      case Other
      moreover have "free_ok n x (lay_ord lay) PL FL fl F PL FL fl F" by (auto simp: free_ok_def)
      ultimately show ?thesis using that assms(1) eq2 same [OF h(2)] by simp
    next
      case (Found cs sm' PL' FL' fl' F')
      then show ?thesis using that [of "set_slow ca None cs" sm' PL' FL' fl' F'] eq2 by simp
    qed
  next
    case (Found cs sm' PL' FL' fl' F')
    then show ?thesis using that [of "set_slow ca (Some hart) cs" sm' PL' FL' fl' F'] eq by simp
  qed
qed

end
