(* ===== verification/Slub_Props.thy ===== *)
theory Slub_Props
  imports Slub_Client
begin

text \<open>
  The properties of the kernel heap over a whole history of its clients.
\<close>

section \<open>Clients\<close>















section \<open>Systems whose acts never panic\<close>







definition zero_pages :: "nat \<Rightarrow> slub_page" where
  "zero_pages _ = \<lparr>sp_page_size = 0, sp_next = 0, sp_free_list = 0, sp_inuse = 0, sp_objects = 0, sp_page_start = 0\<rparr>"

section \<open>Properties\<close>



text \<open>C40: A layout of more than 4 MiB. The order of the block is cut down to the top order of the buddy allocator, so the
  heap returns the address of a block of 4 MiB as if the allocation had succeeded: the rest of what the layout asks for
  is still free memory, or belongs to somebody else.\<close>

theorem slub_large_undersized:
  assumes "2 ^ 22 < lay_size lay" "max (lay_size lay) (lay_align lay) \<le> 2 ^ 63"
    "bud_rep (sm_buddy sm) F" "buddy_inv F" "F 10 \<noteq> {}"
  shows "\<exists>x st F'. slow_alloc lay cs sm = Some (x, cs, sm\<lparr>sm_buddy := st\<rparr>) \<and> x \<noteq> 0 \<and> bud_rep st F' \<and> buddy_inv F' \<and>
    free_mem F' = free_mem F - {x..<x + 2 ^ 22}"
proof -
  obtain k where k: "layout_order lay = Some k" "lay_size lay \<le> 2 ^ k" using layout_order_least [OF assms(2)] by metis
  then have "(2::nat) ^ 22 < 2 ^ k" using assms(1) by linarith
  then have k22: "22 < k" by (rule power_less_imp_less_exp [rotated]) simp
  obtain j where j: "ilog2_ceil (2 ^ k) = Some j" by (cases "ilog2_ceil (2 ^ k)") (auto simp: ilog2_ceil_def split: if_splits)
  have "k \<le> j" using ilog2_ceil_least [OF j, of j] by (simp add: power_increasing_iff)
  then have order: "size_to_order (2 ^ k) = Some 10" using j k22 by (simp add: size_to_order_def)
  then have sl: "slow_alloc lay cs sm = (case buddy_alloc 10 (sm_buddy sm) of
      (r, st) \<Rightarrow> Some (case r of Some addr \<Rightarrow> addr | None \<Rightarrow> 0, cs, sm\<lparr>sm_buddy := st\<rparr>))"
    using k(1) k22 by (simp add: slow_alloc_def buddy_alloc_frame_def SLUB_MAX_ORDER_def split: prod.split)
  have "(10::nat) < 11" by simp
  with assms(3,4) show ?thesis
  proof (cases rule: buddy_alloc_cases)
    case None
    then show ?thesis using assms(5) by blast
  next
    case (Some x st F')
    have "free_mem F' = free_mem F - blk 10 x" using Some(4,5) by (auto simp: held_def)
    then have "free_mem F' = free_mem F - {x..<x + 2 ^ 22}" by (simp add: blk_def order_size_eq)
    moreover have "x \<noteq> 0" using Some(4) by (auto simp: held_def)
    moreover have "slow_alloc lay cs sm = Some (x, cs, sm\<lparr>sm_buddy := st\<rparr>)" using sl Some(1) by simp
    ultimately show ?thesis using Some(2,3) by blast
  qed
qed

theorem slub_large_undersized_witness:
  "\<exists>sm F x st F'. bud_rep (sm_buddy sm) F \<and> slow_alloc \<lparr>lay_size = 2 ^ 23, lay_align = 8\<rparr> slow_new sm = Some (x, slow_new, sm\<lparr>sm_buddy := st\<rparr>) \<and>
     x \<noteq> 0 \<and> free_mem F' = free_mem F - {x..<x + 2 ^ 22}"
proof -
  let ?F = "(\<lambda>_. {})(10 := {0x80C00000})"
  have rep: "bud_rep (fl_push 10 0x80C00000 (\<lambda>_. 0, buddy_new)) ?F"
    using bud_rep_push [OF bud_rep_new, of 10 "0x80C00000"] by simp
  have "held (\<lambda>_. {}) 10 0x80C00000" by (simp add: held_def aligned_def order_size_eq buddy_inv_empty)
  then have inv: "buddy_inv ?F" using buddy_inv_insert [OF buddy_inv_empty(1), of 10 "0x80C00000"] by simp
  let ?sm = "\<lparr>sm_pages = zero_pages, sm_buddy = fl_push 10 0x80C00000 (\<lambda>_. 0, buddy_new)\<rparr>"
  have sm: "bud_rep (sm_buddy ?sm) ?F" using rep by simp
  have lay: "2 ^ 22 < lay_size \<lparr>lay_size = 2 ^ 23, lay_align = 8\<rparr>"
    "max (lay_size \<lparr>lay_size = 2 ^ 23, lay_align = 8\<rparr>) (lay_align \<lparr>lay_size = 2 ^ 23, lay_align = 8\<rparr>) \<le> 2 ^ 63" by simp_all
  have "?F 10 \<noteq> {}" by simp
  from slub_large_undersized [OF lay sm inv this, of slow_new] obtain x st F' where
    "slow_alloc \<lparr>lay_size = 2 ^ 23, lay_align = 8\<rparr> slow_new ?sm = Some (x, slow_new, ?sm\<lparr>sm_buddy := st\<rparr>)" "x \<noteq> 0"
    "free_mem F' = free_mem ?F - {x..<x + 2 ^ 22}" by blast
  then show ?thesis using sm by blast
qed

end
