(* ===== verification/Dev_Manager.thy ===== *)
theory Dev_Manager
  imports Id_Alloc_Correct Block_Device "HOL-Library.Char_ord" "HOL-Library.List_Lexorder"
begin

text \<open>
  The device manager (src/driver/tree.rs): device numbers, the table of devices by number and by name, and the routing of
  reads and writes to the drivers.  A driver is the record of its operations on the state \<open>'w\<close> of the devices; the UART
  driver (src/driver/ns16550a.rs) is one of them, over its registers.  \<open>None\<close> is a panic or a wait that does not end.
\<close>

section \<open>Device numbers\<close>

definition MAJOR_BITS :: nat where
  "MAJOR_BITS = 12"

definition MINOR_BITS :: nat where
  "MINOR_BITS = 20"

definition mkdev :: "u32 \<Rightarrow> u32 \<Rightarrow> u32" where
  "mkdev major minor = push_bit MINOR_BITS (major AND (push_bit MAJOR_BITS 1 - 1)) OR (minor AND (push_bit MINOR_BITS 1 - 1))"

text \<open>\<open>Did::builder().set_major(m).build()\<close>: a device number is the \<open>nat\<close> below \<open>2 ^ 32\<close> of its word.\<close>

definition did_of_major :: "u32 \<Rightarrow> nat" where
  "did_of_major m = unat (push_bit MINOR_BITS (m AND (push_bit MAJOR_BITS 1 - 1)))"

definition PRESET_MAJORS :: "u32 list" where
  "PRESET_MAJORS = [1, 4, 8, 10, 252]"

section \<open>Drivers and nodes\<close>

datatype major_alloc = StaticAlloc nat | DynamicAlloc

record 'w char_dev =
  ch_read :: "u8 list \<Rightarrow> 'w \<Rightarrow> ((io_error, nat) result \<times> u8 list \<times> 'w) option"
  ch_write :: "u8 list \<Rightarrow> 'w \<Rightarrow> ((io_error, nat) result \<times> 'w) option"
  ch_major :: major_alloc

record 'w blk_driver =
  bd_dev :: "'w block_dev"
  bd_major :: major_alloc

record 'w entropy_dev =
  en_fill_bytes :: "u8 list \<Rightarrow> 'w \<Rightarrow> ((unit, unit) result \<times> u8 list \<times> 'w) option"

datatype 'w device_ops = OpsBlock "'w blk_driver" | OpsChar "'w char_dev" | OpsEntropy "'w entropy_dev"

record descriptor =
  ds_name :: string
  ds_compatible :: "string list"
  ds_resource :: "(nat \<times> nat) list"
  ds_irq :: "nat list"
  ds_props :: "(string, u8 list) btree"

record 'w device_node =
  dn_did :: nat
  dn_mode :: u16
  dn_dev_name :: string
  dn_ops :: "'w device_ops"
  dn_descriptor :: descriptor

record 'w device_manager =
  dm_id_alloc :: id_alloc
  dm_alloc_majors :: "nat list"
  dm_by_id :: "(nat, 'w device_node) btree"
  dm_by_name :: "(string, 'w device_node) btree"

fun preset_majors :: "u32 list \<Rightarrow> id_alloc \<Rightarrow> nat list \<Rightarrow> id_alloc \<times> nat list" where
  "preset_majors [] a majors = (a, majors)"
| "preset_majors (i # is) a majors =
     (case ia_alloc_major_at 32 MINOR_BITS a (did_of_major i) of
        Inl _ \<Rightarrow> preset_majors is a majors
      | Inr (major, a') \<Rightarrow> preset_majors is a' (majors @ [major]))"

definition dm_new :: "'w device_manager option" where
  "dm_new =
     (case ia_from_range 32 MINOR_BITS 0 (2 ^ 32 - 1) of
        Inl _ \<Rightarrow> None
      | Inr a \<Rightarrow>
          (case preset_majors PRESET_MAJORS a [] of
             (a', majors) \<Rightarrow> Some \<lparr>dm_id_alloc = a', dm_alloc_majors = majors, dm_by_id = [], dm_by_name = []\<rparr>))"

fun ops_major :: "'w device_ops \<Rightarrow> major_alloc" where
  "ops_major (OpsBlock b) = bd_major b"
| "ops_major (OpsChar c) = ch_major c"
| "ops_major (OpsEntropy _) = DynamicAlloc"

text \<open>The major number of a new device, and the minor number below it; both \<open>unwrap\<close>s panic.\<close>

definition take_major :: "major_alloc \<Rightarrow> 'w device_manager \<Rightarrow> (nat \<times> 'w device_manager) option" where
  "take_major ma dm =
     (case ma of
        StaticAlloc did \<Rightarrow> Some (did, dm)
      | DynamicAlloc \<Rightarrow>
          (case ia_alloc_major 32 MINOR_BITS (dm_id_alloc dm) of
             Some (Some (major, a)) \<Rightarrow>
               Some (major, dm\<lparr>dm_id_alloc := a, dm_alloc_majors := dm_alloc_majors dm @ [major]\<rparr>)
           | _ \<Rightarrow> None))"

definition dm_register :: "descriptor \<Rightarrow> 'w device_ops \<Rightarrow> u16 \<Rightarrow> 'w device_manager \<Rightarrow> 'w device_manager option" where
  "dm_register desc ops mode dm =
     do { (major, dm1) \<leftarrow> take_major (ops_major ops) dm;
          (did, a) \<leftarrow> ia_alloc_minor 32 (dm_id_alloc dm1) major;
          let node = \<lparr>dn_did = did, dn_mode = mode, dn_dev_name = ds_name desc, dn_ops = ops, dn_descriptor = desc\<rparr>;
          Some (dm1\<lparr>dm_id_alloc := a, dm_by_id := bt_insert did node (dm_by_id dm1),
                    dm_by_name := bt_insert (ds_name desc) node (dm_by_name dm1)\<rparr>) }"

definition device_mode :: "u16 \<Rightarrow> u16 \<Rightarrow> u16" where
  "device_mode file_type perms = push_bit 12 file_type OR perms"

definition register_char :: "descriptor \<Rightarrow> 'w char_dev \<Rightarrow> 'w device_manager \<Rightarrow> 'w device_manager option" where
  "register_char desc driver = dm_register desc (OpsChar driver) (device_mode 2 438)"

definition register_block :: "descriptor \<Rightarrow> 'w blk_driver \<Rightarrow> 'w device_manager \<Rightarrow> 'w device_manager option" where
  "register_block desc driver = dm_register desc (OpsBlock driver) (device_mode 6 432)"

definition register_rng :: "descriptor \<Rightarrow> 'w entropy_dev \<Rightarrow> 'w device_manager \<Rightarrow> 'w device_manager option" where
  "register_rng desc driver = dm_register desc (OpsEntropy driver) (device_mode 2 292)"

text \<open>\<open>remove\<close> returns what was under the name of the node.\<close>

definition dm_remove :: "nat \<Rightarrow> 'w device_manager \<Rightarrow> 'w device_node option \<times> 'w device_manager" where
  "dm_remove did dm =
     (case bt_get (dm_by_id dm) did of
        None \<Rightarrow> (None, dm)
      | Some node \<Rightarrow>
          (bt_get (dm_by_name dm) (dn_dev_name node),
           dm\<lparr>dm_by_id := bt_remove did (dm_by_id dm), dm_by_name := bt_remove (dn_dev_name node) (dm_by_name dm)\<rparr>))"

definition find_by_name :: "'w device_manager \<Rightarrow> string \<Rightarrow> 'w device_node option" where
  "find_by_name dm name = bt_get (dm_by_name dm) name"

definition find_by_id :: "'w device_manager \<Rightarrow> nat \<Rightarrow> 'w device_node option" where
  "find_by_id dm did = bt_get (dm_by_id dm) did"

fun is_char :: "'w device_ops \<Rightarrow> bool" where
  "is_char (OpsChar _) = True"
| "is_char _ = False"

fun is_block :: "'w device_ops \<Rightarrow> bool" where
  "is_block (OpsBlock _) = True"
| "is_block _ = False"

fun is_entropy :: "'w device_ops \<Rightarrow> bool" where
  "is_entropy (OpsEntropy _) = True"
| "is_entropy _ = False"

definition first_device :: "('w device_ops \<Rightarrow> bool) \<Rightarrow> 'w device_manager \<Rightarrow> nat option" where
  "first_device p dm = map_option fst (List.find (\<lambda>(did, node). p (dn_ops node)) (dm_by_id dm))"

definition first_char :: "'w device_manager \<Rightarrow> nat option" where
  "first_char = first_device is_char"

definition first_block :: "'w device_manager \<Rightarrow> nat option" where
  "first_block = first_device is_block"

section \<open>Input and output\<close>

definition dm_read :: "'w device_manager \<Rightarrow> nat \<Rightarrow> u8 list \<Rightarrow> 'w \<Rightarrow> ((io_error, nat) result \<times> u8 list \<times> 'w) option" where
  "dm_read dm did buf w =
     (case find_by_id dm did of
        None \<Rightarrow> Some (Err NotReady, buf, w)
      | Some node \<Rightarrow> (case dn_ops node of OpsChar device \<Rightarrow> ch_read device buf w | _ \<Rightarrow> Some (Err Request, buf, w)))"

definition dm_write :: "'w device_manager \<Rightarrow> nat \<Rightarrow> u8 list \<Rightarrow> 'w \<Rightarrow> ((io_error, nat) result \<times> 'w) option" where
  "dm_write dm did buf w =
     (case find_by_id dm did of
        None \<Rightarrow> Some (Err NotReady, w)
      | Some node \<Rightarrow> (case dn_ops node of OpsChar device \<Rightarrow> ch_write device buf w | _ \<Rightarrow> Some (Err Request, w)))"

definition dm_read_at :: "'w device_manager \<Rightarrow> nat \<Rightarrow> u8 list \<Rightarrow> nat \<Rightarrow> 'w \<Rightarrow> ((io_error, nat) result \<times> u8 list \<times> 'w) option" where
  "dm_read_at dm did buf offset w =
     (case find_by_id dm did of
        None \<Rightarrow> Some (Err NotReady, buf, w)
      | Some node \<Rightarrow>
          (case dn_ops node of OpsBlock device \<Rightarrow> dev_read_at (bd_dev device) buf offset w | _ \<Rightarrow> Some (Err Request, buf, w)))"

definition dm_write_at :: "'w device_manager \<Rightarrow> nat \<Rightarrow> u8 list \<Rightarrow> nat \<Rightarrow> 'w \<Rightarrow> ((io_error, nat) result \<times> 'w) option" where
  "dm_write_at dm did buf offset w =
     (case find_by_id dm did of
        None \<Rightarrow> Some (Err NotReady, w)
      | Some node \<Rightarrow>
          (case dn_ops node of OpsBlock device \<Rightarrow> dev_write_at (bd_dev device) buf offset w | _ \<Rightarrow> Some (Err Request, w)))"

definition fill_entropy :: "'w device_manager \<Rightarrow> u8 list \<Rightarrow> 'w \<Rightarrow> ((unit, unit) result \<times> u8 list \<times> 'w) option" where
  "fill_entropy dm dest w =
     (case first_device is_entropy dm of
        None \<Rightarrow> Some (Err (), dest, w)
      | Some did \<Rightarrow>
          (case find_by_id dm did of
             None \<Rightarrow> Some (Err (), dest, w)
           | Some node \<Rightarrow>
               (case dn_ops node of OpsEntropy source \<Rightarrow> en_fill_bytes source dest w | _ \<Rightarrow> Some (Err (), dest, w))))"

text \<open>\<open>ManagedBlockDevice\<close>: a block device that goes through the manager on every access.\<close>

definition managed_block :: "'w device_manager \<Rightarrow> nat \<Rightarrow> 'w block_dev" where
  "managed_block dm did = \<lparr>dev_read_at = dm_read_at dm did, dev_write_at = dm_write_at dm did\<rparr>"

definition block_handle :: "'w device_manager \<Rightarrow> 'w block_dev option" where
  "block_handle dm = map_option (managed_block dm) (first_block dm)"

section \<open>Probing\<close>

text \<open>
  The initialiser of \<open>DEVICE_MANAGER\<close>: what \<open>from_desc\<close> of each driver makes of a descriptor depends on registers of the
  device and is an argument.
\<close>

definition probe_one :: "(descriptor \<Rightarrow> 'w char_dev option) \<Rightarrow> (descriptor \<Rightarrow> 'w blk_driver option) \<Rightarrow>
    (descriptor \<Rightarrow> 'w entropy_dev option) \<Rightarrow> descriptor \<Rightarrow> 'w device_manager \<Rightarrow> 'w device_manager option" where
  "probe_one uart blk rng desc dm =
     do { dm1 \<leftarrow> (if ''ns16550a'' \<in> set (ds_compatible desc)
                  then (case uart desc of Some driver \<Rightarrow> register_char desc driver dm | None \<Rightarrow> Some dm) else Some dm);
          (if ''virtio,mmio'' \<in> set (ds_compatible desc)
           then (case blk desc of
                   Some driver \<Rightarrow> register_block desc driver dm1
                 | None \<Rightarrow> (case rng desc of Some driver \<Rightarrow> register_rng desc driver dm1 | None \<Rightarrow> Some dm1))
           else Some dm1) }"

fun probe_all :: "(descriptor \<Rightarrow> 'w char_dev option) \<Rightarrow> (descriptor \<Rightarrow> 'w blk_driver option) \<Rightarrow>
    (descriptor \<Rightarrow> 'w entropy_dev option) \<Rightarrow> descriptor list \<Rightarrow> 'w device_manager \<Rightarrow> 'w device_manager option" where
  "probe_all uart blk rng [] dm = Some dm"
| "probe_all uart blk rng (d # ds) dm = Option.bind (probe_one uart blk rng d dm) (probe_all uart blk rng ds)"

definition device_manager_init :: "(descriptor \<Rightarrow> 'w char_dev option) \<Rightarrow> (descriptor \<Rightarrow> 'w blk_driver option) \<Rightarrow>
    (descriptor \<Rightarrow> 'w entropy_dev option) \<Rightarrow> descriptor list \<Rightarrow> 'w device_manager option" where
  "device_manager_init uart blk rng ds = Option.bind dm_new (probe_all uart blk rng ds)"

section \<open>The UART\<close>

text \<open>
  The registers that the driver writes and the line status it polls.  Receiving is not here: \<open>rbr_thr_if_ready\<close> reads a whole
  \<open>Option<u8>\<close> out of the device registers, a value whose layout the language leaves open, so the read operation of the
  driver is an argument.
\<close>

record 'w uart_regs =
  rd_lsr :: "'w \<Rightarrow> u8 \<times> 'w"
  wr_thr :: "u8 \<Rightarrow> 'w \<Rightarrow> 'w"
  wr_fcr :: "u8 \<Rightarrow> 'w \<Rightarrow> 'w"
  wr_lcr :: "u8 \<Rightarrow> 'w \<Rightarrow> 'w"

definition uart_init :: "'w uart_regs \<Rightarrow> 'w \<Rightarrow> 'w" where
  "uart_init r w = wr_lcr r (set_bit 1 (set_bit 0 0)) (wr_fcr r (set_bit 2 (set_bit 1 (set_bit 0 0))) w)"

partial_function (option) uart_wait :: "'w uart_regs \<Rightarrow> 'w \<Rightarrow> 'w option" where
  "uart_wait r w = (case rd_lsr r w of (lsr, w1) \<Rightarrow> if bit lsr 5 then Some w1 else uart_wait r w1)"

fun uart_write_loop :: "'w uart_regs \<Rightarrow> u8 list \<Rightarrow> 'w \<Rightarrow> 'w option" where
  "uart_write_loop r [] w = Some w"
| "uart_write_loop r (b # bs) w = Option.bind (uart_wait r w) (\<lambda>w1. uart_write_loop r bs (wr_thr r b w1))"

definition uart_write :: "'w uart_regs \<Rightarrow> u8 list \<Rightarrow> 'w \<Rightarrow> ((io_error, nat) result \<times> 'w) option" where
  "uart_write r buf w = map_option (\<lambda>w'. (Ok (length buf), w')) (uart_write_loop r buf w)"

definition uart_driver :: "(u8 list \<Rightarrow> 'w \<Rightarrow> ((io_error, nat) result \<times> u8 list \<times> 'w) option) \<Rightarrow> 'w uart_regs \<Rightarrow> 'w char_dev" where
  "uart_driver rd r = \<lparr>ch_read = rd, ch_write = uart_write r, ch_major = DynamicAlloc\<rparr>"

section \<open>The invariant of the manager\<close>

text \<open>
  Every device is registered under its own number, which the allocator counts as taken, and the names lead to nodes.
\<close>

definition dm_inv :: "'w device_manager \<Rightarrow> bool" where
  "dm_inv dm \<longleftrightarrow>
     ia_inv 32 MINOR_BITS (dm_id_alloc dm) \<and> bt_inv (dm_by_id dm) \<and> bt_inv (dm_by_name dm) \<and>
     (\<forall>did node. bt_get (dm_by_id dm) did = Some node \<longrightarrow> dn_did node = did \<and> did \<in> ia_held 32 MINOR_BITS (dm_id_alloc dm)) \<and>
     (\<forall>name node. bt_get (dm_by_name dm) name = Some node \<longrightarrow> dn_dev_name node = name)"

lemma preset_majors_inv:
  "ia_inv 32 MINOR_BITS a \<Longrightarrow> ia_inv 32 MINOR_BITS (fst (preset_majors is a majors))"
proof (induction "is" arbitrary: a majors)
  case (Cons i "is")
  show ?case
  proof (cases "ia_alloc_major_at 32 MINOR_BITS a (did_of_major i)")
    case (Inr p)
    obtain major a' where p: "p = (major, a')" by force
    have "did_of_major i < 2 ^ 32" using unsigned_less [where ?'b = 32] by (simp add: did_of_major_def)
    then have "ia_inv 32 MINOR_BITS a'" using ia_alloc_major_at_Ok(3) [OF Cons.prems] Inr p by blast
    then show ?thesis using Cons.IH Inr p by simp
  qed (use Cons in simp)
qed simp

lemma dm_new_inv:
  assumes "dm_new = Some dm"
  shows "dm_inv dm" "dm_by_id dm = []" "dm_by_name dm = []"
proof -
  obtain a where a: "ia_from_range 32 MINOR_BITS 0 (2 ^ 32 - 1) = Ok a"
    and dm: "dm_id_alloc dm = fst (preset_majors PRESET_MAJORS a [])" "dm_by_id dm = []" "dm_by_name dm = []"
    using assms by (auto simp: dm_new_def split: sum.splits prod.splits)
  have "ia_inv 32 MINOR_BITS a" by (rule ia_from_range_inv(1) [OF a]) simp_all
  then have "ia_inv 32 MINOR_BITS (dm_id_alloc dm)" unfolding dm(1) by (rule preset_majors_inv)
  then show "dm_inv dm" "dm_by_id dm = []" "dm_by_name dm = []" using dm(2,3) by (auto simp: dm_inv_def bt_get_def)
qed

lemma take_major_inv:
  assumes "dm_inv dm" "take_major ma dm = Some (major, dm1)"
  shows "dm_inv dm1" "dm_by_id dm1 = dm_by_id dm" "dm_by_name dm1 = dm_by_name dm"
    "ia_held 32 MINOR_BITS (dm_id_alloc dm1) = ia_held 32 MINOR_BITS (dm_id_alloc dm)"
proof -
  have "dm_inv dm1 \<and> dm_by_id dm1 = dm_by_id dm \<and> dm_by_name dm1 = dm_by_name dm \<and>
    ia_held 32 MINOR_BITS (dm_id_alloc dm1) = ia_held 32 MINOR_BITS (dm_id_alloc dm)"
  proof (cases ma)
    case DynamicAlloc
    then obtain a where a: "ia_alloc_major 32 MINOR_BITS (dm_id_alloc dm) = Some (Some (major, a))"
      "dm1 = dm\<lparr>dm_id_alloc := a, dm_alloc_majors := dm_alloc_majors dm @ [major]\<rparr>"
      using assms(2) by (auto simp: take_major_def split: option.splits)
    have "ia_inv 32 MINOR_BITS (dm_id_alloc dm)" using assms(1) by (simp add: dm_inv_def)
    from ia_alloc_major_cases [OF this] a(1) have "ia_inv 32 MINOR_BITS a"
      "ia_held 32 MINOR_BITS a = ia_held 32 MINOR_BITS (dm_id_alloc dm)" by auto
    then show ?thesis using assms(1) a(2) by (simp add: dm_inv_def)
  qed (use assms in \<open>auto simp: take_major_def\<close>)
  then show "dm_inv dm1" "dm_by_id dm1 = dm_by_id dm" "dm_by_name dm1 = dm_by_name dm"
    "ia_held 32 MINOR_BITS (dm_id_alloc dm1) = ia_held 32 MINOR_BITS (dm_id_alloc dm)" by auto
qed

lemma dm_register_ok:
  assumes "dm_inv dm" "dm_register desc ops mode dm = Some dm'"
  obtains did where "dm_inv dm'" "find_by_id dm did = None"
    "\<And>i. find_by_id dm' i = (if i = did then Some \<lparr>dn_did = did, dn_mode = mode, dn_dev_name = ds_name desc, dn_ops = ops,
       dn_descriptor = desc\<rparr> else find_by_id dm i)"
    "\<And>n. find_by_name dm' n = (if n = ds_name desc then Some \<lparr>dn_did = did, dn_mode = mode, dn_dev_name = ds_name desc,
       dn_ops = ops, dn_descriptor = desc\<rparr> else find_by_name dm n)"
proof -
  obtain major dm1 did a where t: "take_major (ops_major ops) dm = Some (major, dm1)"
    "ia_alloc_minor 32 (dm_id_alloc dm1) major = Some (did, a)"
    and dm': "dm' = dm1\<lparr>dm_id_alloc := a,
      dm_by_id := bt_insert did \<lparr>dn_did = did, dn_mode = mode, dn_dev_name = ds_name desc, dn_ops = ops, dn_descriptor = desc\<rparr> (dm_by_id dm1),
      dm_by_name := bt_insert (ds_name desc) \<lparr>dn_did = did, dn_mode = mode, dn_dev_name = ds_name desc, dn_ops = ops,
        dn_descriptor = desc\<rparr> (dm_by_name dm1)\<rparr>"
    using assms(2) by (auto simp: dm_register_def Let_def split: bind_splits)
  note i1 = take_major_inv [OF assms(1) t(1)]
  have ia: "ia_inv 32 MINOR_BITS (dm_id_alloc dm1)" using i1(1) by (simp add: dm_inv_def)
  note m = ia_alloc_minor_Some [OF ia t(2)]
  have fresh: "find_by_id dm did = None"
    using m(4) i1 by (cases "find_by_id dm did") (auto simp: find_by_id_def dm_inv_def)
  have "dm_inv dm'" using i1(1) m(1,5) by (auto simp: dm' dm_inv_def bt_insert_inv bt_get_insert split: if_splits)
  then show thesis using that [OF _ fresh] i1(2,3) by (auto simp: dm' find_by_id_def find_by_name_def bt_get_insert)
qed

end
