(* ===== verification/Vfs.thy ===== *)
theory Vfs
  imports Trie_Correct Path_Correct Minix_Write Dev_Manager
begin

text \<open>
  The virtual file system (src/fs/vfs.rs, src/fs/vfs/file_ops.rs): open files, the interface of a file system and the mount
  table, with the two file systems of the kernel behind it: the device nodes (src/fs/devfs.rs) and the adapter of the MINIX
  file system (the end of src/fs/minix.rs).  A trait object is the record of its operations.  They run in a world that holds
  the state \<open>'d\<close> of the devices and the shared atomic cells: the offset of an open file is a cell, so the clones of a file
  share it.  \<open>None\<close> is a panic.
\<close>

section \<open>The world\<close>

record 'd fs_world =
  fw_dev :: 'd
  fw_cells :: "nat \<Rightarrow> u64"
  fw_next :: nat

type_synonym ('d, 'a) fsio = "'d fs_world \<Rightarrow> ((fs_error, 'a) result \<times> 'd fs_world) option"

definition fs_ok :: "'a \<Rightarrow> ('d, 'a) fsio" where
  "fs_ok x w = Some (Ok x, w)"

definition fs_fail :: "fs_error \<Rightarrow> ('d, 'a) fsio" where
  "fs_fail e w = Some (Err e, w)"

definition fs_bind :: "('d, 'a) fsio \<Rightarrow> ('a \<Rightarrow> ('d, 'b) fsio) \<Rightarrow> ('d, 'b) fsio" where
  "fs_bind m f w =
     (case m w of
        None \<Rightarrow> None
      | Some (Inl e, w') \<Rightarrow> Some (Err e, w')
      | Some (Inr x, w') \<Rightarrow> f x w')"

definition fs_of :: "(fs_error, 'a) result \<Rightarrow> ('d, 'a) fsio" where
  "fs_of r w = Some (r, w)"

text \<open>A device operation, its error turned into one of the file system.\<close>

definition fs_io :: "('d, 'a) io \<Rightarrow> ('d, 'a) fsio" where
  "fs_io m w =
     (case m (fw_dev w) of
        None \<Rightarrow> None
      | Some (Inl e, d) \<Rightarrow> Some (Err (fs_error_of_io e), w\<lparr>fw_dev := d\<rparr>)
      | Some (Inr x, d) \<Rightarrow> Some (Ok x, w\<lparr>fw_dev := d\<rparr>))"

definition ok_or :: "fs_error \<Rightarrow> 'a option \<Rightarrow> ('d, 'a) fsio" where
  "ok_or e x = (case x of Some y \<Rightarrow> fs_ok y | None \<Rightarrow> fs_fail e)"

text \<open>\<open>Arc::new(AtomicU64::new(v))\<close>\<close>

definition new_cell :: "u64 \<Rightarrow> ('d, nat) fsio" where
  "new_cell v w = Some (Ok (fw_next w), w\<lparr>fw_cells := (fw_cells w)(fw_next w := v), fw_next := fw_next w + 1\<rparr>)"

definition fetch_add :: "nat \<Rightarrow> u64 \<Rightarrow> 'd fs_world \<Rightarrow> u64 \<times> 'd fs_world" where
  "fetch_add c v w = (fw_cells w c, w\<lparr>fw_cells := (fw_cells w)(c := fw_cells w c + v)\<rparr>)"

section \<open>Metadata and flags\<close>

record vfs_stat =
  st_ino :: u64
  st_mode :: u16
  st_size :: u64
  st_nlinks :: u32
  st_mtime :: int
  st_uid :: u32
  st_gid :: u32

type_synonym open_flags = u32

definition accmode :: "open_flags \<Rightarrow> u32" where
  "accmode fl = bits_get 0 1 fl"

definition can_read :: "open_flags \<Rightarrow> bool" where
  "can_read fl \<longleftrightarrow> accmode fl \<noteq> 1"

definition can_write :: "open_flags \<Rightarrow> bool" where
  "can_write fl \<longleftrightarrow> accmode fl \<noteq> 0"

record vfs_dir_entry =
  ve_ino :: u64
  ve_name :: string
  ve_file_type :: u16

text \<open>Inodes and directory entries in memory; the links to the superblock, to the parent and to the children are never set.\<close>

record vfs_inode =
  vi_ino :: u64
  vi_mode :: u16
  vi_uid :: u32
  vi_gid :: u32
  vi_size :: u64
  vi_mtime :: int
  vi_nlinks :: u32

record dentry =
  dt_name :: string
  dt_inode :: vfs_inode

section \<open>Open files\<close>

text \<open>A read gives the result, the buffer after it and the world.\<close>

type_synonym 'd fs_reader = "'d fs_world \<Rightarrow> ((fs_error, nat) result \<times> u8 list \<times> 'd fs_world) option"

record 'd file_ops =
  fo_read :: "u8 list \<Rightarrow> 'd fs_reader"
  fo_write :: "u8 list \<Rightarrow> ('d, nat) fsio"
  fo_read_at :: "u8 list \<Rightarrow> u64 \<Rightarrow> 'd fs_reader"
  fo_write_at :: "u8 list \<Rightarrow> u64 \<Rightarrow> ('d, nat) fsio"
  fo_seek :: "u64 \<Rightarrow> int \<Rightarrow> int \<Rightarrow> ('d, int) fsio"
  fo_ioctl :: "u32 \<Rightarrow> u64 \<Rightarrow> ('d, u64) fsio"
  fo_read_dir :: "('d, vfs_dir_entry option) fsio"

text \<open>The default methods of the trait, over the \<open>read\<close> and \<open>write\<close> of the implementation.\<close>

definition default_ops :: "(u8 list \<Rightarrow> 'd fs_reader) \<Rightarrow> (u8 list \<Rightarrow> ('d, nat) fsio) \<Rightarrow> 'd file_ops" where
  "default_ops rd wr =
     \<lparr>fo_read = rd, fo_write = wr, fo_read_at = (\<lambda>buf _. rd buf), fo_write_at = (\<lambda>buf _. wr buf),
      fo_seek = (\<lambda>_ _ _. fs_fail Unsupported), fo_ioctl = (\<lambda>_ _. fs_fail Unsupported), fo_read_dir = fs_fail Unsupported\<rparr>"

definition no_read :: "u8 list \<Rightarrow> 'd fs_reader" where
  "no_read buf w = Some (Err Unsupported, buf, w)"

definition no_write :: "u8 list \<Rightarrow> ('d, nat) fsio" where
  "no_write buf = fs_fail Unsupported"

record 'd vfs_file =
  vf_ops :: "'d file_ops"
  vf_dentry :: dentry
  vf_offset :: nat
  vf_flags :: open_flags

definition file_from_ops :: "string \<Rightarrow> u64 \<Rightarrow> u16 \<Rightarrow> 'd file_ops \<Rightarrow> open_flags \<Rightarrow> ('d, 'd vfs_file) fsio" where
  "file_from_ops name ino mode ops fl =
     fs_bind (new_cell 0) (\<lambda>c.
       fs_ok \<lparr>vf_ops = ops,
         vf_dentry = \<lparr>dt_name = name, dt_inode = \<lparr>vi_ino = ino, vi_mode = mode, vi_uid = 0, vi_gid = 0, vi_size = 0,
           vi_mtime = 0, vi_nlinks = 1\<rparr>\<rparr>,
         vf_offset = c, vf_flags = fl\<rparr>)"

definition vfile_read :: "'d vfs_file \<Rightarrow> u8 list \<Rightarrow> 'd fs_reader" where
  "vfile_read f buf w =
     (case fo_read_at (vf_ops f) buf (fw_cells w (vf_offset f)) w of
        None \<Rightarrow> None
      | Some (Inl e, buf', w') \<Rightarrow> Some (Err e, buf', w')
      | Some (Inr n, buf', w') \<Rightarrow> Some (Ok n, buf', snd (fetch_add (vf_offset f) (of_nat n) w')))"

definition vfile_write :: "'d vfs_file \<Rightarrow> u8 list \<Rightarrow> ('d, nat) fsio" where
  "vfile_write f buf w =
     (case fo_write_at (vf_ops f) buf (fw_cells w (vf_offset f)) w of
        None \<Rightarrow> None
      | Some (Inl e, w') \<Rightarrow> Some (Err e, w')
      | Some (Inr n, w') \<Rightarrow> Some (Ok n, snd (fetch_add (vf_offset f) (of_nat n) w')))"

definition vfile_read_at :: "'d vfs_file \<Rightarrow> u8 list \<Rightarrow> u64 \<Rightarrow> 'd fs_reader" where
  "vfile_read_at f buf off = fo_read_at (vf_ops f) buf off"

definition vfile_write_at :: "'d vfs_file \<Rightarrow> u8 list \<Rightarrow> u64 \<Rightarrow> ('d, nat) fsio" where
  "vfile_write_at f buf off = fo_write_at (vf_ops f) buf off"

definition vfile_seek :: "'d vfs_file \<Rightarrow> int \<Rightarrow> int \<Rightarrow> ('d, int) fsio" where
  "vfile_seek f off whence w =
     fs_bind (fo_seek (vf_ops f) (fw_cells w (vf_offset f)) off whence) (\<lambda>new_offset w'.
       Some (Ok new_offset,
         if 0 \<le> new_offset then w'\<lparr>fw_cells := (fw_cells w')(vf_offset f := of_int new_offset)\<rparr> else w')) w"

definition vfile_stat :: "'d vfs_file \<Rightarrow> (fs_error, vfs_stat) result" where
  "vfile_stat f =
     (let i = dt_inode (vf_dentry f) in
      Ok \<lparr>st_ino = vi_ino i, st_mode = vi_mode i, st_size = vi_size i, st_nlinks = vi_nlinks i, st_mtime = vi_mtime i,
          st_uid = vi_uid i, st_gid = vi_gid i\<rparr>)"

definition vfile_read_dir :: "'d vfs_file \<Rightarrow> ('d, vfs_dir_entry option) fsio" where
  "vfile_read_dir f = fo_read_dir (vf_ops f)"

section \<open>File systems\<close>

record 'd file_system =
  fs_open :: "string \<Rightarrow> open_flags \<Rightarrow> u16 \<Rightarrow> ('d, 'd vfs_file) fsio"
  fs_stat :: "string \<Rightarrow> ('d, vfs_stat) fsio"
  fs_mkdir :: "string \<Rightarrow> u16 \<Rightarrow> ('d, unit) fsio"
  fs_unlink :: "string \<Rightarrow> ('d, unit) fsio"
  fs_rmdir :: "string \<Rightarrow> ('d, unit) fsio"
  fs_rename :: "string \<Rightarrow> string \<Rightarrow> ('d, unit) fsio"
  fs_link :: "string \<Rightarrow> string \<Rightarrow> ('d, unit) fsio"
  fs_symlink :: "string \<Rightarrow> string \<Rightarrow> ('d, unit) fsio"
  fs_readlink :: "string \<Rightarrow> ('d, string) fsio"
  fs_sync :: "('d, unit) fsio"

text \<open>An \<open>Arc<dyn FileSystem>\<close>: the address tells file systems apart.\<close>

record 'd fs_arc =
  arc_addr :: nat
  arc_fs :: "'d file_system"

record 'd super_block =
  sb_fs :: "'d fs_arc"
  sb_root :: dentry

record 'd mount_entry =
  me_dentry :: dentry
  me_superblock :: "'d super_block"

record 'd vfs =
  mount_table :: "(string, 'd mount_entry) trie"
  super_blocks :: "'d super_block list"

definition vfs_new :: "'d vfs" where
  "vfs_new = \<lparr>mount_table = trie_new, super_blocks = []\<rparr>"

definition mount_path :: "string \<Rightarrow> (fs_error, string) result" where
  "mount_path path =
     (if \<not> path_is_absolute path then Err Invalid
      else let p = trim_end_matches PATH_SEPARATOR path in Ok (if p = [] then ''/'' else p))"

definition root_dir_entry :: "string \<Rightarrow> vfs_stat \<Rightarrow> dentry" where
  "root_dir_entry path st =
     \<lparr>dt_name = (if path = ''/'' then ''/'' else last (split_on PATH_SEPARATOR path)),
      dt_inode = \<lparr>vi_ino = st_ino st, vi_mode = st_mode st, vi_uid = st_uid st, vi_gid = st_gid st, vi_size = st_size st,
        vi_mtime = st_mtime st, vi_nlinks = st_nlinks st\<rparr>\<rparr>"

definition vfs_components :: "string \<Rightarrow> string list" where
  "vfs_components path = filter (\<lambda>s. s \<noteq> []) (split_on PATH_SEPARATOR path)"

fun push_components :: "string list \<Rightarrow> string \<Rightarrow> string" where
  "push_components [] path = path"
| "push_components (c # cs) path = push_components cs (path @ [PATH_SEPARATOR] @ c)"

definition relative_path :: "string list \<Rightarrow> string" where
  "relative_path rest = (let path = push_components rest [] in if path = [] then ''/'' else path)"

definition vfs_mount :: "string \<Rightarrow> 'd fs_arc \<Rightarrow> 'd vfs \<Rightarrow> 'd fs_world \<Rightarrow> ((fs_error, unit) result \<times> 'd vfs \<times> 'd fs_world) option" where
  "vfs_mount path fs v w =
     (case mount_path path of
        Inl e \<Rightarrow> Some (Err e, v, w)
      | Inr mpath \<Rightarrow>
          (case fs_stat (arc_fs fs) ''/'' w of
             None \<Rightarrow> None
           | Some (Inl e, w') \<Rightarrow> Some (Err e, v, w')
           | Some (Inr st, w') \<Rightarrow>
               (let key = vfs_components mpath in
                if trie_contains_key (mount_table v) key then Some (Err AlreadyExists, v, w')
                else
                  (let root = root_dir_entry mpath st; sb = \<lparr>sb_fs = fs, sb_root = root\<rparr> in
                   Some (Ok (),
                     v\<lparr>mount_table := snd (trie_insert (mount_table v) key \<lparr>me_dentry = root, me_superblock = sb\<rparr>),
                       super_blocks := super_blocks v @ [sb]\<rparr>, w')))))"

definition resolve :: "'d vfs \<Rightarrow> string \<Rightarrow> (fs_error, 'd fs_arc \<times> string) result" where
  "resolve v path =
     (if \<not> path_is_absolute path then Err Invalid
      else
        (let components = vfs_components path in
         case trie_longest_prefix (mount_table v) components of
           None \<Rightarrow> Err NotFound
         | Some (key, mount) \<Rightarrow> Ok (sb_fs (me_superblock mount), relative_path (drop (length key) components))))"

definition same_filesystem :: "'d vfs \<Rightarrow> string \<Rightarrow> string \<Rightarrow> ('d file_system \<Rightarrow> string \<Rightarrow> string \<Rightarrow> ('d, 'a) fsio) \<Rightarrow> ('d, 'a) fsio" where
  "same_filesystem v old new operation =
     fs_bind (fs_of (resolve v old)) (\<lambda>(old_fs, old_path).
     fs_bind (fs_of (resolve v new)) (\<lambda>(new_fs, new_path).
       if arc_addr old_fs \<noteq> arc_addr new_fs then fs_fail CrossDevice
       else operation (arc_fs old_fs) old_path new_path))"

text \<open>An operation on one path.\<close>

definition on_path :: "'d vfs \<Rightarrow> string \<Rightarrow> ('d file_system \<Rightarrow> string \<Rightarrow> ('d, 'a) fsio) \<Rightarrow> ('d, 'a) fsio" where
  "on_path v path operation = fs_bind (fs_of (resolve v path)) (\<lambda>(fs, relative). operation (arc_fs fs) relative)"

fun sync_all :: "'d super_block list \<Rightarrow> ('d, unit) fsio" where
  "sync_all [] = fs_ok ()"
| "sync_all (sb # sbs) = fs_bind (fs_sync (arc_fs (sb_fs sb))) (\<lambda>_. sync_all sbs)"

text \<open>\<open>impl FileSystem for Vfs\<close>\<close>

definition vfs_fs :: "'d vfs \<Rightarrow> 'd file_system" where
  "vfs_fs v =
     \<lparr>fs_open = (\<lambda>path fl mode. on_path v path (\<lambda>fs p. fs_open fs p fl mode)),
      fs_stat = (\<lambda>path. on_path v path fs_stat),
      fs_mkdir = (\<lambda>path mode. on_path v path (\<lambda>fs p. fs_mkdir fs p mode)),
      fs_unlink = (\<lambda>path. on_path v path fs_unlink),
      fs_rmdir = (\<lambda>path. on_path v path fs_rmdir),
      fs_rename = (\<lambda>old new. same_filesystem v old new fs_rename),
      fs_link = (\<lambda>old new. same_filesystem v old new fs_link),
      fs_symlink = (\<lambda>target linkpath. on_path v linkpath (\<lambda>fs p. fs_symlink fs target p)),
      fs_readlink = (\<lambda>path. on_path v path fs_readlink),
      fs_sync = sync_all (super_blocks v)\<rparr>"

end
