(* ===== verification/File_Systems.thy ===== *)
theory File_Systems
  imports Vfs
begin

text \<open>
  The file systems behind the mount table: the device nodes of src/fs/devfs.rs with their files, the adapter of the MINIX
  file system at the end of src/fs/minix.rs, and the initialisation of src/fs.rs that mounts both.
\<close>

section \<open>Reads and writes of a device\<close>

definition fs_read_io :: "('d \<Rightarrow> ((io_error, nat) result \<times> u8 list \<times> 'd) option) \<Rightarrow> 'd fs_reader" where
  "fs_read_io r w =
     map_option (\<lambda>(res, buf, d). (case res of Inl e \<Rightarrow> Err (fs_error_of_io e) | Inr n \<Rightarrow> Ok n, buf, w\<lparr>fw_dev := d\<rparr>))
       (r (fw_dev w))"

section \<open>Files of devices\<close>

definition null_ops :: "'d file_ops" where
  "null_ops = default_ops (\<lambda>buf w. Some (Ok 0, buf, w)) (\<lambda>buf. fs_ok (length buf))"

definition zero_ops :: "'d file_ops" where
  "zero_ops = default_ops (\<lambda>buf w. Some (Ok (length buf), replicate (length buf) 0, w)) (\<lambda>buf. fs_ok (length buf))"

definition uart_ops :: "'d device_manager \<Rightarrow> 'd file_ops" where
  "uart_ops dm =
     default_ops
       (\<lambda>buf w. case first_char dm of
          None \<Rightarrow> Some (Err NotFound, buf, w)
        | Some did \<Rightarrow> fs_read_io (dm_read dm did buf) w)
       (\<lambda>buf. fs_bind (ok_or NotFound (first_char dm)) (\<lambda>did. fs_io (dm_write dm did buf)))"

definition virtio_blk_ops :: "'d device_manager \<Rightarrow> 'd file_ops" where
  "virtio_blk_ops dm =
     (default_ops no_read no_write)
       \<lparr>fo_read_at := (\<lambda>buf off w. case first_block dm of
           None \<Rightarrow> Some (Err NotFound, buf, w)
         | Some did \<Rightarrow> fs_read_io (dm_read_at dm did buf (unat off)) w),
        fo_write_at := (\<lambda>buf off.
           fs_bind (ok_or NotFound (first_block dm)) (\<lambda>did. fs_io (dm_write_at dm did buf (unat off))))\<rparr>"

text \<open>\<open>File::uart\<close>\<close>

definition file_uart :: "'d device_manager \<Rightarrow> open_flags \<Rightarrow> ('d, 'd vfs_file) fsio" where
  "file_uart dm fl = file_from_ops ''console'' 0 (device_mode FT_CHR 438) (uart_ops dm) fl"

section \<open>The device file system\<close>

record 'd dev_file_node =
  dv_name :: string
  dv_ino :: u64
  dv_mode :: u16
  dv_ops :: "'d file_ops"

definition DEVICES :: "'d device_manager \<Rightarrow> 'd dev_file_node list" where
  "DEVICES dm =
     [\<lparr>dv_name = ''null'', dv_ino = 2, dv_mode = device_mode FT_CHR 438, dv_ops = null_ops\<rparr>,
      \<lparr>dv_name = ''zero'', dv_ino = 3, dv_mode = device_mode FT_CHR 438, dv_ops = zero_ops\<rparr>,
      \<lparr>dv_name = ''console'', dv_ino = 4, dv_mode = device_mode FT_CHR 438, dv_ops = uart_ops dm\<rparr>,
      \<lparr>dv_name = ''vda'', dv_ino = 5, dv_mode = device_mode FT_BLK 432, dv_ops = virtio_blk_ops dm\<rparr>]"

definition trim_matches :: "char \<Rightarrow> string \<Rightarrow> string" where
  "trim_matches c s = trim_end_matches c (dropWhile (\<lambda>x. x = c) s)"

definition devfs_node :: "'d device_manager \<Rightarrow> string \<Rightarrow> (fs_error, 'd dev_file_node option) result" where
  "devfs_node dm path =
     (if \<not> path_is_absolute path then Err Invalid
      else let name = trim_matches PATH_SEPARATOR path in
        if name = [] then Ok None
        else if PATH_SEPARATOR \<in> set name then Err NotFound
        else Ok (List.find (\<lambda>node. dv_name node = name) (DEVICES dm)))"

text \<open>The directory: the position is a cell of its own.\<close>

definition directory_ops :: "'d device_manager \<Rightarrow> nat \<Rightarrow> 'd file_ops" where
  "directory_ops dm c =
     (default_ops no_read no_write)
       \<lparr>fo_read_dir := (\<lambda>w.
          case fetch_add c 1 w of
            (index, w') \<Rightarrow>
              Some (Ok (if unat index < length (DEVICES dm)
                then let node = DEVICES dm ! unat index in
                  Some \<lparr>ve_ino = dv_ino node, ve_name = dv_name node, ve_file_type = mode_file_type (dv_mode node)\<rparr>
                else None), w'))\<rparr>"

definition devfs_root :: "'d device_manager \<Rightarrow> open_flags \<Rightarrow> ('d, 'd vfs_file) fsio" where
  "devfs_root dm fl =
     fs_bind (new_cell 0) (\<lambda>c. file_from_ops ''/'' 1 (device_mode FT_DIR 493) (directory_ops dm c) fl)"

definition devfs_open :: "'d device_manager \<Rightarrow> string \<Rightarrow> open_flags \<Rightarrow> u16 \<Rightarrow> ('d, 'd vfs_file) fsio" where
  "devfs_open dm path fl mode =
     (if \<not> path_is_absolute path then fs_fail Invalid
      else if trim_matches PATH_SEPARATOR path = [] then devfs_root dm fl
      else
        fs_bind (fs_of (devfs_node dm path)) (\<lambda>found.
        fs_bind (ok_or NotFound found) (\<lambda>node.
          if bit fl 16 then fs_fail NotDir
          else file_from_ops (dv_name node) (dv_ino node) (dv_mode node) (dv_ops node) fl)))"

definition devfs_stat :: "'d device_manager \<Rightarrow> string \<Rightarrow> ('d, vfs_stat) fsio" where
  "devfs_stat dm path =
     (if \<not> path_is_absolute path then fs_fail Invalid
      else if trim_matches PATH_SEPARATOR path = [] then
        fs_ok \<lparr>st_ino = 1, st_mode = device_mode FT_DIR 493, st_size = 0, st_nlinks = 1, st_mtime = 0, st_uid = 0, st_gid = 0\<rparr>
      else
        fs_bind (fs_of (devfs_node dm path)) (\<lambda>found.
        fs_bind (ok_or NotFound found) (\<lambda>node.
          fs_ok \<lparr>st_ino = dv_ino node, st_mode = dv_mode node, st_size = 0, st_nlinks = 1, st_mtime = 0, st_uid = 0,
            st_gid = 0\<rparr>)))"

definition dev_fs :: "'d device_manager \<Rightarrow> 'd file_system" where
  "dev_fs dm =
     \<lparr>fs_open = devfs_open dm, fs_stat = devfs_stat dm, fs_mkdir = (\<lambda>_ _. fs_fail Unsupported),
      fs_unlink = (\<lambda>_. fs_fail Unsupported), fs_rmdir = (\<lambda>_. fs_fail Unsupported),
      fs_rename = (\<lambda>_ _. fs_fail Unsupported), fs_link = (\<lambda>_ _. fs_fail Unsupported),
      fs_symlink = (\<lambda>_ _. fs_fail Unsupported), fs_readlink = (\<lambda>_. fs_fail Unsupported), fs_sync = fs_ok ()\<rparr>"

section \<open>The MINIX adapter\<close>

text \<open>\<open>self.fs.open(path).map_err(FsError::from)?.ok_or(FsError::NotFound)\<close>, in the adapter and in its files.\<close>

definition mvfs_open_file :: "disk_super_block \<Rightarrow> 'd block_dev \<Rightarrow> string \<Rightarrow> ('d, minix_file) fsio" where
  "mvfs_open_file sb dev path = fs_bind (fs_io (minix_open sb dev path)) (ok_or NotFound)"

definition i64_saturating_add :: "int \<Rightarrow> int \<Rightarrow> int" where
  "i64_saturating_add a b = max (- (2 ^ 63)) (min (2 ^ 63 - 1) (a + b))"

definition mvfs_read_at :: "disk_super_block \<Rightarrow> 'd block_dev \<Rightarrow> string \<Rightarrow> u8 list \<Rightarrow> u64 \<Rightarrow> 'd fs_reader" where
  "mvfs_read_at sb dev path buf off w =
     (case mvfs_open_file sb dev path w of
        None \<Rightarrow> None
      | Some (Inl e, w') \<Rightarrow> Some (Err e, buf, w')
      | Some (Inr f, w') \<Rightarrow> fs_read_io (file_read_at dev f buf (unat off)) w')"

definition mvfs_write_at :: "disk_super_block \<Rightarrow> 'd block_dev \<Rightarrow> string \<Rightarrow> u8 list \<Rightarrow> u64 \<Rightarrow> ('d, nat) fsio" where
  "mvfs_write_at sb dev path buf off =
     fs_bind (mvfs_open_file sb dev path) (\<lambda>f.
     fs_bind (fs_io (file_write_at sb dev buf (unat off) f)) (\<lambda>(n, _). fs_ok n))"

definition mvfs_seek :: "disk_super_block \<Rightarrow> 'd block_dev \<Rightarrow> string \<Rightarrow> u64 \<Rightarrow> int \<Rightarrow> int \<Rightarrow> ('d, int) fsio" where
  "mvfs_seek sb dev path current off whence =
     fs_bind (mvfs_open_file sb dev path) (\<lambda>f.
       let cur = sint current; sz = int (unat (di_size (mf_inode f))) in
       fs_bind
         (if whence = SEEK_SET then fs_ok off
          else if whence = SEEK_CUR then fs_ok (i64_saturating_add cur off)
          else if whence = SEEK_END then fs_ok (i64_saturating_add sz off)
          else fs_fail Invalid)
         (\<lambda>new. if new < 0 then fs_fail Invalid else fs_ok new))"

definition minix_file_ops :: "disk_super_block \<Rightarrow> 'd block_dev \<Rightarrow> string \<Rightarrow> 'd file_ops" where
  "minix_file_ops sb dev path =
     (default_ops no_read no_write)
       \<lparr>fo_read_at := mvfs_read_at sb dev path, fo_write_at := mvfs_write_at sb dev path, fo_seek := mvfs_seek sb dev path\<rparr>"

definition mvfs_open :: "disk_super_block \<Rightarrow> 'd block_dev \<Rightarrow> string \<Rightarrow> open_flags \<Rightarrow> u16 \<Rightarrow> ('d, 'd vfs_file) fsio" where
  "mvfs_open sb dev path fl mode =
     fs_bind (mvfs_open_file sb dev path) (\<lambda>f.
       file_from_ops (case path_file_name path of Some n \<Rightarrow> n | None \<Rightarrow> ''/'') (ucast (mf_ino f)) (di_mode (mf_inode f))
         (minix_file_ops sb dev path) fl)"

definition mvfs_stat :: "disk_super_block \<Rightarrow> 'd block_dev \<Rightarrow> string \<Rightarrow> ('d, vfs_stat) fsio" where
  "mvfs_stat sb dev path =
     fs_bind (mvfs_open_file sb dev path) (\<lambda>f.
       fs_ok \<lparr>st_ino = ucast (mf_ino f), st_mode = di_mode (mf_inode f), st_size = ucast (di_size (mf_inode f)), st_nlinks = 1,
         st_mtime = 0, st_uid = 0, st_gid = 0\<rparr>)"

definition minix_vfs :: "disk_super_block \<Rightarrow> 'd block_dev \<Rightarrow> 'd file_system" where
  "minix_vfs sb dev =
     \<lparr>fs_open = mvfs_open sb dev, fs_stat = mvfs_stat sb dev, fs_mkdir = (\<lambda>_ _. fs_fail Unsupported),
      fs_unlink = (\<lambda>_. fs_fail Unsupported), fs_rmdir = (\<lambda>_. fs_fail Unsupported),
      fs_rename = (\<lambda>_ _. fs_fail Unsupported), fs_link = (\<lambda>_ _. fs_fail Unsupported),
      fs_symlink = (\<lambda>_ _. fs_fail Unsupported), fs_readlink = (\<lambda>_. fs_fail Unsupported), fs_sync = fs_ok ()\<rparr>"

section \<open>Initialisation\<close>

text \<open>\<open>fs::init\<close>; the two file systems live at different addresses.\<close>

definition vfs_init :: "'d device_manager \<Rightarrow> 'd vfs \<Rightarrow> 'd fs_world \<Rightarrow> ((fs_error, unit) result \<times> 'd vfs \<times> 'd fs_world) option" where
  "vfs_init dm v w =
     (case block_handle dm of
        None \<Rightarrow> Some (Err NotFound, v, w)
      | Some dev \<Rightarrow>
          (case fs_io (from_device dev) w of
             None \<Rightarrow> None
           | Some (Inl e, w1) \<Rightarrow> Some (Err e, v, w1)
           | Some (Inr None, w1) \<Rightarrow> Some (Err NotFound, v, w1)
           | Some (Inr (Some sb), w1) \<Rightarrow>
               (case vfs_mount ''/'' \<lparr>arc_addr = fw_next w1, arc_fs = minix_vfs sb dev\<rparr> v (w1\<lparr>fw_next := fw_next w1 + 1\<rparr>) of
                  None \<Rightarrow> None
                | Some (Inl e, v1, w2) \<Rightarrow> Some (Err e, v1, w2)
                | Some (Inr _, v1, w2) \<Rightarrow>
                    vfs_mount ''/dev'' \<lparr>arc_addr = fw_next w2, arc_fs = dev_fs dm\<rparr> v1 (w2\<lparr>fw_next := fw_next w2 + 1\<rparr>))))"

end
