(* ===== verification/Vfs_Props.thy ===== *)
theory Vfs_Props
  imports File_Systems
begin

text \<open>
  The properties of the mount table: the file system of a path is that of the deepest mount above it, after initialisation
  the paths below \<open>/dev\<close> lead to the device nodes and all others to the disk, and the clones of an open file share one offset.
\<close>

section \<open>Components\<close>

lemma vfs_components_parts: "vfs_components p = nonempty_parts p"
  by (simp add: vfs_components_def nonempty_parts_def)

definition comps_ok :: "string list \<Rightarrow> bool" where
  "comps_ok cs \<longleftrightarrow> (\<forall>c\<in>set cs. c \<noteq> [] \<and> PATH_SEPARATOR \<notin> set c)"

lemma split_on_no_sep: "s \<in> set (split_on c p) \<Longrightarrow> c \<notin> set s"
  by (induction p arbitrary: s) (auto split: list.splits if_splits)

lemma vfs_components_ok: "comps_ok (vfs_components p)"
  using split_on_no_sep by (auto simp: comps_ok_def vfs_components_def)

lemma push_components_append: "push_components cs p = p @ concat (map (\<lambda>c. PATH_SEPARATOR # c) cs)"
  by (induction cs arbitrary: p) auto

lemma nonempty_parts_concat:
  "comps_ok cs \<Longrightarrow> nonempty_parts (concat (map (\<lambda>c. PATH_SEPARATOR # c) cs)) = cs"
proof (induction cs)
  case (Cons c cs)
  then have c: "c \<noteq> []" "PATH_SEPARATOR \<notin> set c" "comps_ok cs" by (auto simp: comps_ok_def)
  show ?case
  proof (cases cs)
    case Nil
    then show ?thesis using nonempty_parts_fresh [OF c(2,1)] by simp
  next
    case (Cons b bs)
    have "concat (map (\<lambda>c. PATH_SEPARATOR # c) (c # cs)) = PATH_SEPARATOR # c @ PATH_SEPARATOR # (b @ concat (map (\<lambda>c. PATH_SEPARATOR # c) bs))"
      using Cons by simp
    moreover have "nonempty_parts (b @ concat (map (\<lambda>c. PATH_SEPARATOR # c) bs)) = cs"
      using Cons.IH [OF c(3)] Cons by simp
    ultimately show ?thesis using nonempty_parts_fresh [OF c(2,1)] by (simp add: nonempty_parts_sep)
  qed
qed simp

lemma relative_path_ok:
  assumes "comps_ok cs"
  shows "path_is_absolute (relative_path cs)" "vfs_components (relative_path cs) = cs"
proof -
  have r: "relative_path cs = (if cs = [] then ''/'' else concat (map (\<lambda>c. PATH_SEPARATOR # c) cs))"
    by (cases cs) (simp_all add: relative_path_def push_components_append Let_def)
  show "path_is_absolute (relative_path cs)" unfolding r by (cases cs) (auto simp: path_is_absolute_def PATH_SEPARATOR_def)
  show "vfs_components (relative_path cs) = cs"
    using nonempty_parts_concat [OF assms] unfolding r vfs_components_parts by (cases cs) (auto simp: nonempty_parts_def PATH_SEPARATOR_def)
qed

section \<open>The mount table\<close>

definition mounted :: "'d vfs \<Rightarrow> string list \<Rightarrow> 'd fs_arc option" where
  "mounted v key = map_option (\<lambda>m. sb_fs (me_superblock m)) (trie_get (mount_table v) key)"

lemma resolve_spec:
  assumes "path_is_absolute path"
  defines "cs \<equiv> vfs_components path"
  shows "case resolve v path of
      Inl e \<Rightarrow> e = NotFound \<and> (\<forall>d\<le>length cs. mounted v (take d cs) = None)
    | Inr (fs, rel) \<Rightarrow> \<exists>d\<le>length cs. mounted v (take d cs) = Some fs \<and> rel = relative_path (drop d cs) \<and>
        (\<forall>e. d < e \<longrightarrow> e \<le> length cs \<longrightarrow> mounted v (take e cs) = None)"
proof (cases "trie_longest_prefix (mount_table v) cs")
  case None
  then show ?thesis
    using trie_longest_prefix_longest [where t = "mount_table v" and key = cs] assms(1) by (simp add: resolve_def mounted_def cs_def Let_def)
next
  case (Some p)
  obtain key m where p: "p = (key, m)" by force
  then obtain d where d: "d \<le> length cs" "key = take d cs" "trie_get (mount_table v) key = Some m"
    "\<And>e. d < e \<Longrightarrow> e \<le> length cs \<Longrightarrow> trie_get (mount_table v) (take e cs) = None"
    using trie_longest_prefix_longest [where t = "mount_table v" and key = cs] Some by auto
  have "resolve v path = Ok (sb_fs (me_superblock m), relative_path (drop d cs))"
    using assms(1) Some p d(1,2) by (simp add: resolve_def Let_def flip: cs_def)
  moreover have "mounted v (take d cs) = Some (sb_fs (me_superblock m))" using d(2,3) by (simp add: mounted_def)
  ultimately show ?thesis using d(1,4) by (auto simp: mounted_def)
qed

text \<open>What a successful mount does.\<close>

lemma vfs_mount_Ok:
  assumes "vfs_mount path fs v w = Some (Ok (), v', w')"
  shows "path_is_absolute path" "mounted v (vfs_components path) = None" "mounted v' = (mounted v)(vfs_components path \<mapsto> fs)"
    "\<exists>st. fs_stat (arc_fs fs) ''/'' w = Some (Ok st, w')"
proof -
  obtain mp st where m: "mount_path path = Ok mp" "fs_stat (arc_fs fs) ''/'' w = Some (Ok st, w')"
    "\<not> trie_contains_key (mount_table v) (vfs_components mp)"
    and v': "v' = v\<lparr>mount_table := snd (trie_insert (mount_table v) (vfs_components mp) \<lparr>me_dentry = root_dir_entry mp st,
          me_superblock = \<lparr>sb_fs = fs, sb_root = root_dir_entry mp st\<rparr>\<rparr>),
        super_blocks := super_blocks v @ [\<lparr>sb_fs = fs, sb_root = root_dir_entry mp st\<rparr>]\<rparr>"
    using assms by (auto simp: vfs_mount_def Let_def split: sum.splits option.splits if_splits prod.splits)
  show "path_is_absolute path" using m(1) by (auto simp: mount_path_def split: if_splits)
  have mp: "vfs_components mp = vfs_components path"
  proof -
    obtain k where "path = trim_end_matches PATH_SEPARATOR path @ replicate k PATH_SEPARATOR" using trim_end_split by blast
    then have eq: "nonempty_parts path = nonempty_parts (trim_end_matches PATH_SEPARATOR path)"
      by (metis nonempty_parts_replicate)
    have "nonempty_parts ''/'' = []" by (simp add: nonempty_parts_def PATH_SEPARATOR_def)
    then show ?thesis
      using m(1) eq by (auto simp: mount_path_def vfs_components_parts Let_def split: if_splits)
  qed
  show "mounted v (vfs_components path) = None" using m(3) mp by (simp add: trie_contains_key_def mounted_def)
  show "mounted v' = (mounted v)(vfs_components path \<mapsto> fs)"
    using v' mp by (auto simp: mounted_def trie_insert_get fun_eq_iff)
  show "\<exists>st. fs_stat (arc_fs fs) ''/'' w = Some (Ok st, w')" using m(2) by blast
qed

lemma vfs_mountI:
  assumes "mount_path path = Ok mp" "fs_stat (arc_fs fs) ''/'' w = Some (Ok st, w')" "mounted v (vfs_components mp) = None"
  shows "\<exists>v'. vfs_mount path fs v w = Some (Ok (), v', w')"
  using assms by (simp add: vfs_mount_def mounted_def trie_contains_key_def Let_def)

section \<open>Properties\<close>

text \<open>C10: Path resolution. The file system of an absolute path is the one mounted at the longest list of its leading
  components that has a mount, whole components only, and it is handed the remaining components as an absolute path of its
  own; without such a mount the path does not exist, and a relative path is refused.\<close>

theorem vfs_resolve_longest:
  "case resolve v path of
      Inl e \<Rightarrow> e = (if path_is_absolute path then NotFound else Invalid) \<and>
        (path_is_absolute path \<longrightarrow> (\<forall>d. mounted v (take d (vfs_components path)) = None))
    | Inr (fs, rel) \<Rightarrow> path_is_absolute path \<and> path_is_absolute rel \<and>
        (\<exists>key. vfs_components path = key @ vfs_components rel \<and> mounted v key = Some fs \<and>
           (\<forall>e > length key. e \<le> length (vfs_components path) \<longrightarrow> mounted v (take e (vfs_components path)) = None))"
proof (cases "path_is_absolute path")
  case True
  let ?cs = "vfs_components path"
  have ok: "comps_ok (drop d ?cs)" for d
    using vfs_components_ok [of path] set_drop_subset [of d ?cs] by (auto simp: comps_ok_def)
  show ?thesis
  proof (cases "resolve v path")
    case (Inl e)
    then have "e = NotFound" "\<And>d. d \<le> length ?cs \<Longrightarrow> mounted v (take d ?cs) = None" using resolve_spec [OF True, of v] by auto
    moreover from this(2) [of "length ?cs"] this(2) have "mounted v (take d ?cs) = None" for d
      by (cases "d \<le> length ?cs") auto
    ultimately show ?thesis using Inl True by simp
  next
    case (Inr p)
    obtain fs rel where p: "p = (fs, rel)" by force
    then obtain d where d: "d \<le> length ?cs" "mounted v (take d ?cs) = Some fs" "rel = relative_path (drop d ?cs)"
      "\<And>e. d < e \<Longrightarrow> e \<le> length ?cs \<Longrightarrow> mounted v (take e ?cs) = None"
      using resolve_spec [OF True, of v] Inr by auto
    have "?cs = take d ?cs @ vfs_components rel" "path_is_absolute rel" using relative_path_ok [OF ok [of d]] d(3) by simp_all
    moreover have "length (take d ?cs) = d" using d(1) by simp
    ultimately show ?thesis using Inr p True d(2,4) by auto
  qed
qed (simp add: resolve_def)

lemma resolve_two_mounts:
  assumes "path_is_absolute path" "mounted v = [[] \<mapsto> a, [c] \<mapsto> b]"
  shows "resolve v path = (if take 1 (vfs_components path) = [c] then Ok (b, relative_path (drop 1 (vfs_components path)))
    else Ok (a, relative_path (vfs_components path)))"
proof -
  let ?cs = "vfs_components path"
  have m: "mounted v [] = Some a" "mounted v [c] = Some b" "\<And>k. k \<noteq> [] \<Longrightarrow> k \<noteq> [c] \<Longrightarrow> mounted v k = None"
    using assms(2) by auto
  obtain fs rel d where r: "resolve v path = Ok (fs, rel)" "d \<le> length ?cs" "mounted v (take d ?cs) = Some fs"
    "rel = relative_path (drop d ?cs)" "\<And>e. d < e \<Longrightarrow> e \<le> length ?cs \<Longrightarrow> mounted v (take e ?cs) = None"
  proof (cases "resolve v path")
    case (Inl e)
    then have "mounted v (take 0 ?cs) = None" using resolve_spec [OF assms(1), of v] by auto
    then show ?thesis using m(1) by simp
  next
    case (Inr p)
    then show ?thesis using that resolve_spec [OF assms(1), of v] by (auto split: prod.splits)
  qed
  have d1: "take d ?cs = [] \<or> take d ?cs = [c]" using r(3) m(3) [of "take d ?cs"] by auto
  show ?thesis
  proof (cases "take 1 ?cs = [c]")
    case True
    then have "1 \<le> length ?cs" by (cases ?cs) auto
    then have "d \<noteq> 0" using r(5) [of 1] True m(2) by (cases d) auto
    then have "take d ?cs = [c]" using d1 True by (cases ?cs) auto
    moreover from this have "d = 1" using r(2) by (metis length_Cons length_take list.size(3) min.absorb2 One_nat_def)
    ultimately show ?thesis using r True m(2) by simp
  next
    case False
    have "d = 0"
    proof (rule ccontr)
      assume "d \<noteq> 0"
      then have "take d ?cs = [c]" using d1 r(2) by (cases ?cs) auto
      then have "take 1 ?cs = [c]" using \<open>d \<noteq> 0\<close> by (cases ?cs; cases d) auto
      then show False using False by simp
    qed
    then show ?thesis using r False m(1) by auto
  qed
qed

lemma fs_io_next: "fs_io m w = Some (r, w') \<Longrightarrow> fw_next w' = fw_next w"
  by (auto simp: fs_io_def split: option.splits sum.splits prod.splits)

lemma mvfs_stat_next: "mvfs_stat sb dev path w = Some (r, w') \<Longrightarrow> fw_next w' = fw_next w"
  by (auto simp: mvfs_stat_def mvfs_open_file_def fs_bind_def ok_or_def fs_ok_def fs_fail_def dest: fs_io_next
      split: option.splits sum.splits prod.splits)

lemma vfs_init_mounts:
  assumes "vfs_init dm vfs_new w = Some (Ok (), v, w')"
  obtains dev sb disk devs where "block_handle dm = Some dev" "arc_fs disk = minix_vfs sb dev" "arc_fs devs = dev_fs dm"
    "arc_addr disk \<noteq> arc_addr devs" "mounted v = [[] \<mapsto> disk, [''dev''] \<mapsto> devs]"
proof -
  obtain dev sb w1 where d: "block_handle dm = Some dev" "fs_io (from_device dev) w = Some (Ok (Some sb), w1)"
    using assms by (auto simp: vfs_init_def split: option.splits sum.splits prod.splits)
  let ?disk = "\<lparr>arc_addr = fw_next w1, arc_fs = minix_vfs sb dev\<rparr>"
  obtain v1 w2 where m: "vfs_mount ''/'' ?disk vfs_new (w1\<lparr>fw_next := fw_next w1 + 1\<rparr>) = Some (Ok (), v1, w2)"
    "vfs_mount ''/dev'' \<lparr>arc_addr = fw_next w2, arc_fs = dev_fs dm\<rparr> v1 (w2\<lparr>fw_next := fw_next w2 + 1\<rparr>) = Some (Ok (), v, w')"
    using assms d by (auto simp: vfs_init_def split: option.splits sum.splits prod.splits)
  note a = vfs_mount_Ok [OF m(1)] and b = vfs_mount_Ok [OF m(2)]
  have "fw_next w2 = fw_next w1 + 1" using a(4) mvfs_stat_next by (fastforce simp: minix_vfs_def)
  moreover have "vfs_components ''/'' = []" "vfs_components ''/dev'' = [''dev'']"
    by (simp_all add: vfs_components_def PATH_SEPARATOR_def)
  moreover have "mounted (vfs_new :: 'a vfs) = (\<lambda>_. None)"
    by (auto simp: mounted_def vfs_new_def trie_new_get(2))
  ultimately show thesis using that [of dev ?disk sb "\<lparr>arc_addr = fw_next w2, arc_fs = dev_fs dm\<rparr>"] d(1) a(3) b(3) by simp
qed

text \<open>C2: The file systems of the kernel. After \<open>init\<close>, a path below \<open>/dev\<close> leads to the device nodes with the rest of
  its components, and every other absolute path, \<open>/devx\<close> among them, leads to the MINIX file system of the first block
  device unchanged up to separators; renaming from one side to the other is refused.\<close>

theorem vfs_init_routes:
  assumes "vfs_init dm vfs_new w = Some (Ok (), v, w')"
  shows "\<exists>dev sb disk devs. block_handle dm = Some dev \<and> arc_fs disk = minix_vfs sb dev \<and> arc_fs devs = dev_fs dm \<and>
    (\<forall>path. path_is_absolute path \<longrightarrow>
       resolve v path = (if take 1 (vfs_components path) = [''dev''] then Ok (devs, relative_path (drop 1 (vfs_components path)))
         else Ok (disk, relative_path (vfs_components path)))) \<and>
    (\<forall>old new u. path_is_absolute old \<longrightarrow> path_is_absolute new \<longrightarrow>
       (take 1 (vfs_components old) = [''dev'']) \<noteq> (take 1 (vfs_components new) = [''dev'']) \<longrightarrow>
       fs_rename (vfs_fs v) old new u = Some (Err CrossDevice, u))"
proof -
  obtain dev sb disk devs where m: "block_handle dm = Some dev" "arc_fs disk = minix_vfs sb dev" "arc_fs devs = dev_fs dm"
    "arc_addr disk \<noteq> arc_addr devs" "mounted v = [[] \<mapsto> disk, [''dev''] \<mapsto> devs]" by (rule vfs_init_mounts [OF assms])
  note res = resolve_two_mounts [OF _ m(5)]
  have "fs_rename (vfs_fs v) old new u = Some (Err CrossDevice, u)"
    if "path_is_absolute old" "path_is_absolute new"
      "(take 1 (vfs_components old) = [''dev'']) \<noteq> (take 1 (vfs_components new) = [''dev''])" for old new u
    using that(3) m(4) by (auto simp: vfs_fs_def same_filesystem_def res [OF that(1)] res [OF that(2)] fs_bind_def fs_of_def fs_fail_def)
  then show ?thesis using m(1-3) res by blast
qed

text \<open>A disk with a superblock and nothing else, behind a device manager with one block device.\<close>

definition ram_dev :: "(nat \<Rightarrow> u8) block_dev" where
  "ram_dev =
     \<lparr>dev_read_at = (\<lambda>buf off d. Some (Ok (length buf), bytes_at d off (length buf), d)),
      dev_write_at = (\<lambda>bs off d. Some (Ok (length bs), store_bytes off bs d))\<rparr>"

definition example_dm :: "(nat \<Rightarrow> u8) device_manager" where
  "example_dm =
     \<lparr>dm_id_alloc = ia_new, dm_alloc_majors = [],
      dm_by_id = [(2, \<lparr>dn_did = 2, dn_mode = device_mode 6 432, dn_dev_name = ''virtio'',
        dn_ops = OpsBlock \<lparr>bd_dev = ram_dev, bd_major = DynamicAlloc\<rparr>,
        dn_descriptor = \<lparr>ds_name = ''virtio'', ds_compatible = [], ds_resource = [], ds_irq = [], ds_props = []\<rparr>\<rparr>)],
      dm_by_name = []\<rparr>"

definition example_world :: "(nat \<Rightarrow> u8) fs_world" where
  "example_world =
     \<lparr>fw_dev = (\<lambda>a. if a = 1040 then 0x7F else if a = 1041 then 0x13 else 0), fw_cells = (\<lambda>_. 0), fw_next = 0\<rparr>"

lemma of_le_bytes_zero: "(\<And>b. b \<in> set bs \<Longrightarrow> b = 0) \<Longrightarrow> (of_le_bytes bs :: 'a::len word) = 0"
proof (induction bs)
  case (Cons b bs)
  then have "b = 0" "(of_le_bytes bs :: 'a word) = 0" by simp_all
  then show ?case by simp
qed simp

lemma bytes_at_parts: "take k (bytes_at d off n) = bytes_at d off (min k n)" "drop k (bytes_at d off n) = bytes_at d (off + k) (n - k)"
  by (cases "k \<le> n"; simp add: bytes_at_def take_map drop_map take_upt min_def)+

lemma example_zero:
  assumes "a + n \<le> 1040 \<or> 1042 \<le> a"
  shows "of_le_bytes (bytes_at (fw_dev example_world) a n) = 0"
  by (rule of_le_bytes_zero) (use assms in \<open>auto simp: bytes_at_def example_world_def\<close>)

lemma example_device:
  "block_handle example_dm = Some (managed_block example_dm 2)"
  "io_read (managed_block example_dm 2) n off d = Some (Ok (bytes_at d off n), d)"
  by (simp_all add: block_handle_def first_block_def first_device_def example_dm_def io_read_def managed_block_def dm_read_at_def
      find_by_id_def bt_get_def ram_dev_def)

lemma example_super:
  obtains sb where "fs_io (from_device (managed_block example_dm 2)) example_world = Some (Ok (Some sb), example_world)"
    "log_zone_size sb = 0" "imap_blocks sb = 0" "zmap_blocks sb = 0"
proof -
  let ?sb = "super_of_bytes (bytes_at (fw_dev example_world) 1024 20)"
  have z: "log_zone_size ?sb = 0" "imap_blocks ?sb = 0" "zmap_blocks ?sb = 0"
    by (simp_all add: super_of_bytes_def bytes_at_parts example_zero)
  have two: "bytes_at d 1040 2 = [d 1040, d 1041]" for d :: "nat \<Rightarrow> u8" by (simp add: bytes_at_def upt_conv_Cons)
  have "magic ?sb = MAGIC_V1_14"
    by (simp add: super_of_bytes_def bytes_at_parts two example_world_def MAGIC_V1_14_def push_bit_eq_mult)
  then have "from_device (managed_block example_dm 2) (fw_dev example_world) = Some (Ok (Some ?sb), fw_dev example_world)"
    by (simp add: from_device_def io_bind_def example_device io_ok_def Let_def SUPERBLOCK_SIZE_def SUPERBLOCK_OFFSET_def)
  then show thesis using that [of ?sb] z by (simp add: fs_io_def)
qed

lemma example_init: "\<exists>v w'. vfs_init example_dm vfs_new example_world = Some (Ok (), v, w')"
proof -
  let ?dev = "managed_block example_dm 2"
  obtain sb where sb: "fs_io (from_device ?dev) example_world = Some (Ok (Some sb), example_world)"
    "log_zone_size sb = 0" "imap_blocks sb = 0" "zmap_blocks sb = 0" by (rule example_super)
  let ?i = "inode_of_bytes (bytes_at (fw_dev example_world) 2048 INODE_SIZE)"
  have ri: "read_inode sb ?dev 1 (fw_dev example_world) = Some (Ok ?i, fw_dev example_world)"
    using sb(2-4) by (simp add: read_inode_def io_bind_def io_lift_def inode_offset_def inode_table_offset_def zone_size_def
        checked_sub_def checked_mul_def checked_add_def usize_max_def example_device io_ok_def Let_def)
  have "di_zone ?i ! 0 = 0"
    by (simp add: inode_of_bytes_def u16s_of_def bytes_at_parts example_zero INODE_SIZE_def)
  moreover have "di_zone ?i = di_zone ?i ! 0 # tl (di_zone ?i)"
    by (simp add: inode_of_bytes_def u16s_of_def upt_conv_Cons)
  ultimately obtain zs where "di_zone ?i = 0 # zs" by metis
  then have "takeWhile (\<lambda>z. z \<noteq> 0) (take 7 (di_zone ?i)) = []" by simp
  then have dz: "data_zones sb ?dev ?i d = Some (Ok [], d)" for d by (simp add: data_zones_def io_ok_def)
  have "minix_open sb ?dev ''/'' (fw_dev example_world) = Some (Ok (Some (file_new ''/'' 1 ?i 1024 [])), fw_dev example_world)"
    using sb(2) by (simp add: minix_open_def io_bind_def ri split_path_def PATH_SEPARATOR_def resolve_loop.simps(1) io_ok_def dz
        io_lift_def zone_size_def)
  then have st: "\<exists>st. mvfs_stat sb ?dev ''/'' (example_world\<lparr>fw_next := n\<rparr>) = Some (Ok st, example_world\<lparr>fw_next := n\<rparr>)" for n
    by (simp add: mvfs_stat_def mvfs_open_file_def fs_io_def fs_bind_def ok_or_def fs_ok_def)
  let ?disk = "\<lparr>arc_addr = 0, arc_fs = minix_vfs sb ?dev\<rparr>" and ?w = "example_world\<lparr>fw_next := 1\<rparr>"
  have nxt: "fw_next example_world = 0" by (simp add: example_world_def)
  have m0: "mounted (vfs_new :: (nat \<Rightarrow> u8) vfs) k = None" for k by (simp add: mounted_def vfs_new_def trie_new_get(2))
  have mp: "mount_path ''/'' = Ok ''/''" by (simp add: mount_path_def path_is_absolute_def PATH_SEPARATOR_def trim_end_matches_def)
  obtain st1 where "fs_stat (arc_fs ?disk) ''/'' ?w = Some (Ok st1, ?w)" using st [of 1] by (auto simp: minix_vfs_def)
  then obtain v1 where v1: "vfs_mount ''/'' ?disk vfs_new ?w = Some (Ok (), v1, ?w)" using vfs_mountI [OF mp _ m0] by blast
  let ?devs = "\<lparr>arc_addr = 1, arc_fs = dev_fs example_dm\<rparr>" and ?w2 = "example_world\<lparr>fw_next := Suc (Suc 0)\<rparr>"
  have "\<exists>st. fs_stat (arc_fs ?devs) ''/'' ?w2 = Some (Ok st, ?w2)"
    by (simp add: dev_fs_def devfs_stat_def path_is_absolute_def PATH_SEPARATOR_def trim_matches_def trim_end_matches_def fs_ok_def)
  moreover have "mounted v1 (vfs_components ''/dev'') = None"
    using vfs_mount_Ok(3) [OF v1] m0 by (simp add: vfs_components_def PATH_SEPARATOR_def)
  moreover have "mount_path ''/dev'' = Ok ''/dev''"
    by (simp add: mount_path_def path_is_absolute_def PATH_SEPARATOR_def trim_end_matches_def)
  ultimately obtain v2 where v2: "vfs_mount ''/dev'' ?devs v1 ?w2 = Some (Ok (), v2, ?w2)" using vfs_mountI by blast
  have "vfs_init example_dm vfs_new example_world = Some (Ok (), v2, ?w2)"
    using v1 v2 by (simp add: vfs_init_def example_device sb(1) nxt)
  then show ?thesis by blast
qed

theorem vfs_resolve_longest_witness:
  "\<exists>v w' fs. vfs_init example_dm vfs_new example_world = Some (Ok (), v, w') \<and>
     resolve v ''/dev//null'' = Ok (fs, ''/null'') \<and> mounted v [''dev''] = Some fs"
proof -
  obtain v w' where v: "vfs_init example_dm vfs_new example_world = Some (Ok (), v, w')" using example_init by blast
  obtain disk devs where m: "mounted v = [[] \<mapsto> disk, [''dev''] \<mapsto> devs]" by (rule vfs_init_mounts [OF v])
  have abs: "path_is_absolute ''/dev//null''" by (simp add: path_is_absolute_def PATH_SEPARATOR_def)
  have cs: "vfs_components ''/dev//null'' = [''dev'', ''null'']" by (simp add: vfs_components_def PATH_SEPARATOR_def)
  have "resolve v ''/dev//null'' = Ok (devs, ''/null'')"
    using resolve_two_mounts [OF abs m] cs by (simp add: relative_path_def PATH_SEPARATOR_def)
  moreover from this have "mounted v [''dev''] = Some devs"
    using vfs_resolve_longest [where v = v and path = "''/dev//null''"] cs m by auto
  ultimately show ?thesis using v by blast
qed

theorem vfs_init_routes_witness:
  "\<exists>v w' devs. vfs_init example_dm vfs_new example_world = Some (Ok (), v, w') \<and> arc_fs devs = dev_fs example_dm \<and>
     resolve v ''/dev/null'' = Ok (devs, ''/null'') \<and> (\<exists>fs. resolve v ''/devx'' = Ok (fs, ''/devx'') \<and> fs \<noteq> devs) \<and>
     fs_rename (vfs_fs v) ''/dev/null'' ''/null'' w' = Some (Err CrossDevice, w')"
proof -
  obtain v w' where v: "vfs_init example_dm vfs_new example_world = Some (Ok (), v, w')" using example_init by blast
  obtain dev sb disk devs where r: "arc_fs disk = minix_vfs sb dev" "arc_fs devs = dev_fs example_dm"
    "\<And>path. path_is_absolute path \<Longrightarrow>
       resolve v path = (if take 1 (vfs_components path) = [''dev''] then Ok (devs, relative_path (drop 1 (vfs_components path)))
         else Ok (disk, relative_path (vfs_components path)))"
    "\<And>old new u. path_is_absolute old \<Longrightarrow> path_is_absolute new \<Longrightarrow>
       (take 1 (vfs_components old) = [''dev'']) \<noteq> (take 1 (vfs_components new) = [''dev'']) \<Longrightarrow>
       fs_rename (vfs_fs v) old new u = Some (Err CrossDevice, u)"
    using vfs_init_routes [OF v] by blast
  have abs: "path_is_absolute ''/dev/null''" "path_is_absolute ''/devx''" "path_is_absolute ''/null''"
    by (simp_all add: path_is_absolute_def PATH_SEPARATOR_def)
  have cs: "vfs_components ''/dev/null'' = [''dev'', ''null'']" "vfs_components ''/devx'' = [''devx'']" "vfs_components ''/null'' = [''null'']"
    by (simp_all add: vfs_components_def PATH_SEPARATOR_def)
  have "resolve v ''/dev/null'' = Ok (devs, ''/null'')" "resolve v ''/devx'' = Ok (disk, ''/devx'')"
    using r(3) [OF abs(1)] r(3) [OF abs(2)] cs by (simp_all add: relative_path_def PATH_SEPARATOR_def)
  moreover have "fs_rename (vfs_fs v) ''/dev/null'' ''/null'' w' = Some (Err CrossDevice, w')"
    by (rule r(4) [OF abs(1,3)]) (simp add: cs)
  moreover have "disk \<noteq> devs"
  proof
    assume "disk = devs"
    then have "fs_rename (vfs_fs v) ''/dev/null'' ''/null'' w' = Some (Err Unsupported, w')"
      using r(2) r(3) [OF abs(1)] r(3) [OF abs(3)] cs
      by (simp add: vfs_fs_def same_filesystem_def fs_bind_def fs_of_def dev_fs_def fs_fail_def)
    then show False using calculation(3) by simp
  qed
  ultimately show ?thesis using v r(2) by blast
qed

end
