(* ===== verification/Spec2Isabelle.thy ===== *)
theory Spec2Isabelle
  imports Bitmap_Correct Id_Alloc_Correct Trie_Correct Once_Safety Path_Correct Task_Props Minix_Alloc Slub_Props Vfs_Props
begin

text \<open>
  Verification of the athera kernel, a RISC-V 64 kernel in Rust.  Paths are relative to src/src unless they start with
  crates/.

  \<^bold>\<open>Parts and theories.\<close>

  \<^item> Prelude: the result type (\<open>Err\<close>, \<open>Ok\<close>), checked arithmetic, little-endian bytes and the shared lemmas on lists and
    words.  Index_Pool is the contract of an allocator of indices, which Bitmap_Correct and Id_Alloc_Correct discharge.
  \<^item> Bitmap, Bitmap_Correct (crates/athera-bitmap): the owned bitmap, the borrowed view and the iterators.  The scan over
    words equals a linear search, allocation refines a set of indices, and every history keeps the invariant.
  \<^item> Btree_Map: the sorted association list that stands for the standard library's \<open>BTreeMap\<close>.
  \<^item> Id_Alloc, Id_Alloc_Correct (crates/athera-id-alloc): free ranges, majors and minors; accounting over all histories.
  \<^item> Trie_Map, Trie_Correct (crates/athera-trie): refinement of a map from key lists, longest prefix.
  \<^item> Locks, Lock_Safety, Once_Safety (sync): spin lock, read-write lock, \<open>OnceLock\<close> and \<open>LazyLock\<close> as step functions of
    any number of threads; mutual exclusion, progress and single initialisation over all interleavings.
  \<^item> Path_Buf, Path_Correct (fs/path.rs): components, join and parent.
  \<^item> Intrusive_List, Buddy, Buddy_Correct, Buddy_Props (mm/allocator): the free lists inside free memory, the buddy
    allocator and frame vectors; separation of live blocks over all histories.
  \<^item> Bit_Fields, Page_Table, Page_Table_Correct (macros.rs, mm/address.rs, mm/page_table): the \<open>bits!\<close> fields, Sv39 tables,
    address spaces and their manager; mapping and unmapping change exactly one translation.
  \<^item> Abi, Memory_Map, Memory_Map_Correct (syscall/abi.rs, mm/memory_map.rs): \<open>mmap\<close>, \<open>munmap\<close>, \<open>mremap\<close> with rollback.
  \<^item> Tasks, Tasks_Correct, Task_Props (task.rs, task/process.rs, task/scheduler.rs): the task table, fork, exit, wait and
    the scheduler; the table invariant and round-robin fairness.
  \<^item> Fs_Error, Block_Device, Virtio_Blk, Virtio_Blk_Correct (fs/fs_error.rs, driver/traits.rs, driver/virtio_blk.rs): the
    block device contract as the locale \<open>block_device\<close>, which the virtio driver meets on every device that answers sector
    requests (locale \<open>virtio_disk\<close>).
  \<^item> Minix_Types, Minix, Minix_Files, Minix_Write, Minix_Codec, Minix_Alloc (fs/types.rs, fs/minix): the MINIX v1 file
    system on any block device; on-disk encodings, inodes, and allocation of zones and inodes.
  \<^item> Slub, Slub_Pages, Slub_Correct, Slub_Heap, Slub_Client, Slub_Props (mm/allocator/slub.rs): the kernel heap.  Slub is the
    model; Slub_Pages has the geometry of a page, the words that the buddy allocator writes and the lists of pages;
    Slub_Correct shows that each operation of a cache keeps its invariant and touches only free memory and its own pages;
    Slub_Heap puts the caches of all harts over one buddy allocator; Slub_Client says who owns an allocation; Slub_Props
    has the history of all clients (locale \<open>total_system\<close>, a transition system without panics).
  \<^item> Dev_Manager (driver/tree.rs, driver/ns16550a.rs): device numbers and the device table over Id_Alloc, and the
    transmitting side of the UART; a registration takes a number that no device has.
  \<^item> Vfs, File_Systems, Vfs_Props (fs/vfs.rs, fs/vfs/file_ops.rs, fs/devfs, the end of fs/minix.rs, fs.rs): open files, the
    mount table over the trie, the device nodes, the MINIX adapter and the initialisation; paths lead to the deepest mount.

  \<^bold>\<open>Conventions.\<close>  A panic (an overflow in the checked build, an index out of bounds, a failed \<open>unwrap\<close>) is the value
  \<open>None\<close> of an outer option; an error of the source is \<open>Err\<close> in a result.  Machine words are \<open>u64\<close>, \<open>u32\<close>, \<open>u16\<close>, \<open>u8\<close>
  where bits or wrap-around matter and natural numbers bounded by \<open>usize_max\<close> elsewhere.  Loops are recursive functions
  with termination proofs; a loop that need not end is a partial function into option, and nothing else uses fuel.

  A trait object (\<open>dyn FileSystem\<close>, \<open>dyn FileOps\<close>, \<open>dyn BlockDevice\<close>) is the record of its operations, and a shared atomic is a
  cell of an explicit store.  Constants of one line and plain accessors of a bit field are definitions like the others but
  are not listed one by one with their source lines.

  \<^bold>\<open>Not modelled.\<close>  Boot code, CSR accesses, SBI calls and the trap entry are inline assembly; the virtio transport, the
  framebuffer and the configuration device are register accesses, and receiving on the UART reads a value whose layout the
  language leaves open; device discovery rests on the fdt crate and random numbers on rand_chacha, which are not part of the
  sources; the procedural macros rewrite token streams in the compiler; logging and formatting are text only.  The dispatch
  of system calls, the ELF loader with \<open>execve\<close> and the interpreter routing, the partition table, which nothing uses, and
  the programs of user space are left out.
\<close>

end
